(* ===== verification/Prelude.thy ===== *)
theory Prelude
  imports Main "HOL-Library.AList" "HOL-Library.Multiset"
begin

text \<open>
  What every component shares: results of code that may raise (\<open>'e + 'a\<close>, the error on the
  left), loops that may raise, Python's slices, \<open>collections.deque\<close> with a \<open>maxlen\<close>, and the
  list lemmas the component proofs use. The collection \<open>res_simps\<close> evaluates code in the error
  monad once the errors of its parts are known to be absent.
\<close>

named_theorems res_simps \<open>evaluation of code that may raise\<close>

section \<open>Code that may raise\<close>

text \<open>Sequencing: the error of the first part, else the second part on its value.\<close>

definition bind_res :: "'e + 'a \<Rightarrow> ('a \<Rightarrow> 'e + 'b) \<Rightarrow> 'e + 'b" where
  "bind_res r f = (case r of Inl e \<Rightarrow> Inl e | Inr v \<Rightarrow> f v)"

lemma bind_res_simps [simp, res_simps]:
  "bind_res (Inl e) f = Inl e"
  "bind_res (Inr v) f = f v"
  by (simp_all add: bind_res_def)

lemma bind_res_Inr_conv: "bind_res r f = Inr v \<longleftrightarrow> (\<exists>u. r = Inr u \<and> f u = Inr v)"
  by (cases r) auto

lemma bind_res_Inl_conv:
  "bind_res r f = Inl e \<longleftrightarrow> r = Inl e \<or> (\<exists>u. r = Inr u \<and> f u = Inl e)"
  by (cases r) auto

text \<open>A list comprehension whose element expression may raise.\<close>

fun map_res :: "('a \<Rightarrow> 'e + 'b) \<Rightarrow> 'a list \<Rightarrow> 'e + 'b list" where
  "map_res f [] = Inr []"
| "map_res f (x # xs) =
     bind_res (f x) (\<lambda>y. bind_res (map_res f xs) (\<lambda>ys. Inr (y # ys)))"

text \<open>A list comprehension whose condition may raise.\<close>

fun filter_res :: "('a \<Rightarrow> 'e + bool) \<Rightarrow> 'a list \<Rightarrow> 'e + 'a list" where
  "filter_res p [] = Inr []"
| "filter_res p (x # xs) =
     bind_res (p x) (\<lambda>b. bind_res (filter_res p xs) (\<lambda>ys. Inr (if b then x # ys else ys)))"

lemma map_res_Inr [res_simps]:
  "(\<And>x. x \<in> set xs \<Longrightarrow> f x = Inr (g x)) \<Longrightarrow> map_res f xs = Inr (map g xs)"
  by (induction xs) auto

lemma filter_res_Inr [res_simps]:
  "(\<And>x. x \<in> set xs \<Longrightarrow> p x = Inr (q x)) \<Longrightarrow> filter_res p xs = Inr (filter q xs)"
  by (induction xs) auto

lemma map_res_append:
  "map_res f (xs @ ys) =
     bind_res (map_res f xs) (\<lambda>us. bind_res (map_res f ys) (\<lambda>vs. Inr (us @ vs)))"
proof (induction xs)
  case Nil
  then show ?case by (cases "map_res f ys") auto
next
  case (Cons x xs)
  then show ?case by (cases "f x"; cases "map_res f xs"; cases "map_res f ys") auto
qed

lemma map_res_InrD:
  "map_res f xs = Inr ys \<Longrightarrow> length ys = length xs \<and> (\<forall>i < length xs. f (xs ! i) = Inr (ys ! i))"
proof (induction xs arbitrary: ys)
  case Nil
  then show ?case by simp
next
  case (Cons x xs)
  then obtain z zs where "f x = Inr z" and "map_res f xs = Inr zs" and "ys = z # zs"
    by (auto simp: bind_res_Inr_conv)
  with Cons.IH show ?case by (auto simp: nth_Cons split: nat.splits)
qed

lemma map_res_Inr_iff: "(\<exists>ys. map_res f xs = Inr ys) \<longleftrightarrow> (\<forall>x \<in> set xs. \<exists>y. f x = Inr y)"
  by (induction xs) (auto simp: bind_res_Inr_conv)

section \<open>Slices\<close>

text \<open>
  Python's \<open>xs[i:j]\<close>: a negative bound counts from the end, and both bounds are then clamped to
  the list.
\<close>

definition py_bound :: "nat \<Rightarrow> int \<Rightarrow> nat" where
  "py_bound n i = nat (if i < 0 then max 0 (i + int n) else min i (int n))"

definition py_slice :: "'a list \<Rightarrow> int \<Rightarrow> int \<Rightarrow> 'a list" where
  "py_slice xs i j =
     (let a = py_bound (length xs) i; b = py_bound (length xs) j in take (b - a) (drop a xs))"

definition py_slice_from :: "'a list \<Rightarrow> int \<Rightarrow> 'a list" where
  "py_slice_from xs i = drop (py_bound (length xs) i) xs"

lemma py_slice_nonneg:
  assumes "0 \<le> i" and "0 \<le> n"
  shows "py_slice xs i (i + n) = take (nat n) (drop (nat i) xs)"
proof (cases "i \<le> int (length xs)")
  case True
  have "take (nat (min (i + n) (int (length xs))) - nat i) (drop (nat i) xs)
      = take (nat n) (drop (nat i) xs)"
  proof (cases "i + n \<le> int (length xs)")
    case True
    then show ?thesis using assms by (simp add: nat_diff_distrib [symmetric])
  next
    case False
    then have "nat (min (i + n) (int (length xs))) - nat i = length (drop (nat i) xs)"
      and "length (drop (nat i) xs) \<le> nat n" by auto
    then show ?thesis by simp
  qed
  with True assms show ?thesis by (simp add: py_slice_def py_bound_def Let_def)
next
  case False
  with assms show ?thesis by (simp add: py_slice_def py_bound_def Let_def)
qed

section \<open>Keeping the newest elements\<close>

text \<open>\<open>take_last n xs\<close> is what a bounded buffer keeps of \<open>xs\<close>: its last \<open>n\<close> elements.\<close>

definition take_last :: "nat \<Rightarrow> 'a list \<Rightarrow> 'a list" where
  "take_last n xs = drop (length xs - n) xs"

lemma length_take_last [simp]: "length (take_last n xs) = min n (length xs)"
  by (simp add: take_last_def)

lemma set_take_last_subset: "set (take_last n xs) \<subseteq> set xs"
  by (simp add: take_last_def set_drop_subset)

lemma take_last_id [simp]: "length xs \<le> n \<Longrightarrow> take_last n xs = xs"
  by (simp add: take_last_def)

lemma take_last_append_take_last: "take_last n (take_last n xs @ ys) = take_last n (xs @ ys)"
proof (cases "length xs \<le> n")
  case False
  let ?d = "length xs - n"
  have "length (drop ?d xs @ ys) - n = length ys" using False by simp
  moreover have "length (xs @ ys) - n = length ys + ?d" using False by simp
  moreover have "drop (length ys + ?d) (xs @ ys) = drop (length ys) (drop ?d (xs @ ys))"
    by simp
  ultimately show ?thesis by (simp add: take_last_def)
qed simp

lemma take_last_suffix: "\<exists>us. xs = us @ take_last n xs"
  by (metis append_take_drop_id take_last_def)

lemma py_slice_from_last:
  "0 < n \<Longrightarrow> n \<le> int (length xs) \<Longrightarrow> py_slice_from xs (- n) = take_last (nat n) xs"
  by (simp add: py_slice_from_def py_bound_def take_last_def nat_diff_distrib' algebra_simps)

text \<open>
  \<open>collections.deque(maxlen=m)\<close>: an append to a full deque discards from the other end, and
  \<open>extend\<close> appends one by one.
\<close>

definition deque_append :: "nat \<Rightarrow> 'a list \<Rightarrow> 'a \<Rightarrow> 'a list" where
  "deque_append m xs x = (if length xs < m then xs @ [x] else if m = 0 then [] else tl xs @ [x])"

fun deque_extend :: "nat \<Rightarrow> 'a list \<Rightarrow> 'a list \<Rightarrow> 'a list" where
  "deque_extend m xs [] = xs"
| "deque_extend m xs (y # ys) = deque_extend m (deque_append m xs y) ys"

lemma deque_append_take_last:
  "length xs \<le> m \<Longrightarrow> deque_append m xs x = take_last m (xs @ [x])"
  by (cases xs) (auto simp: deque_append_def take_last_def)

lemma deque_extend_take_last:
  "length xs \<le> m \<Longrightarrow> deque_extend m xs ys = take_last m (xs @ ys)"
proof (induction ys arbitrary: xs)
  case Nil
  then show ?case by simp
next
  case (Cons y ys)
  then show ?case
    using take_last_append_take_last [of m "xs @ [y]" ys]
    by (simp add: deque_append_take_last)
qed

section \<open>Sorting and filtering\<close>

lemma filter_sort_key: "filter P (sort_key f xs) = sort_key f (filter P xs)"
  by (rule filter_sort)

lemma sorted_wrt_key_sort: "sorted_wrt (\<lambda>x y. f x \<le> f y) (sort_key f xs)"
  using sorted_sort_key [of f xs] by (simp add: sorted_map)

lemma mset_filter_perm: "mset xs = mset ys \<Longrightarrow> mset (filter P xs) = mset (filter P ys)"
  by (metis mset_filter)

section \<open>The first greatest element\<close>

text \<open>
  \<open>newer f x y\<close> replaces \<open>x\<close> by \<open>y\<close> only when \<open>y\<close> has a strictly greater key;
  \<open>first_max f xs\<close> is the first element of \<open>xs\<close> with the greatest key.
\<close>

definition newer :: "('a \<Rightarrow> 'k::linorder) \<Rightarrow> 'a option \<Rightarrow> 'a option \<Rightarrow> 'a option" where
  "newer f x y = (case y of
     None \<Rightarrow> x
   | Some b \<Rightarrow> (case x of None \<Rightarrow> Some b | Some a \<Rightarrow> Some (if f a < f b then b else a)))"

primrec first_max :: "('a \<Rightarrow> 'k::linorder) \<Rightarrow> 'a list \<Rightarrow> 'a option" where
  "first_max f [] = None"
| "first_max f (x # xs) = newer f (Some x) (first_max f xs)"

lemma newer_simps [simp]:
  "newer f None y = y"
  "newer f x None = x"
  "newer f (Some a) (Some b) = Some (if f a < f b then b else a)"
  by (auto simp: newer_def split: option.splits)

lemma newer_assoc: "newer f (newer f x y) z = newer f x (newer f y z)"
  by (cases x; cases y; cases z) auto

lemma first_max_append: "first_max f (xs @ ys) = newer f (first_max f xs) (first_max f ys)"
  by (induction xs) (simp_all add: newer_assoc)

lemma first_max_None_iff [simp]: "first_max f xs = None \<longleftrightarrow> xs = []"
  by (cases xs) (auto simp: newer_def split: option.splits)

text \<open>What the operator promises: nothing before it reaches its key, nothing after exceeds it.\<close>

lemma first_max_Some_iff:
  "first_max f xs = Some x \<longleftrightarrow>
   (\<exists>us vs. xs = us @ x # vs \<and> (\<forall>u \<in> set us. f u < f x) \<and> (\<forall>v \<in> set vs. f v \<le> f x))"
  (is "?L \<longleftrightarrow> ?R xs")
proof
  show "?L \<Longrightarrow> ?R xs"
  proof (induction xs arbitrary: x)
    case (Cons a xs)
    show ?case
    proof (cases "first_max f xs")
      case None
      with Cons.prems show ?thesis by (intro exI [of _ "[]"] exI [of _ "[]"]) auto
    next
      case (Some b)
      from Cons.IH [OF Some] obtain us vs where
        split: "xs = us @ b # vs" "\<forall>u \<in> set us. f u < f b" "\<forall>v \<in> set vs. f v \<le> f b" by blast
      show ?thesis
      proof (cases "f a < f b")
        case True
        with Cons.prems Some split show ?thesis by (intro exI [of _ "a # us"] exI [of _ vs]) auto
      next
        case False
        with split have "\<forall>v \<in> set xs. f v \<le> f a" by (auto dest: order_less_imp_le order_trans)
        with Cons.prems Some False show ?thesis
          by (intro exI [of _ "[]"] exI [of _ xs]) auto
      qed
    qed
  qed simp
next
  assume "?R xs"
  then obtain us vs where split: "xs = us @ x # vs"
    "\<forall>u \<in> set us. f u < f x" "\<forall>v \<in> set vs. f v \<le> f x" by blast
  have vs: "first_max f (x # vs) = Some x"
    using split(3) by (induction vs) (auto simp: newer_def split: option.splits if_splits)
  have "newer f (first_max f us) (Some x) = Some x" using split(2)
  proof (induction us)
    case (Cons a us)
    then show ?case using newer_assoc [of f "Some a" "first_max f us" "Some x"] by simp
  qed simp
  with vs split(1) show ?L by (simp only: first_max_append)
qed

lemma first_max_in: "first_max f xs = Some x \<Longrightarrow> x \<in> set xs"
  by (auto simp: first_max_Some_iff)

lemma first_max_upper: "first_max f xs = Some x \<Longrightarrow> y \<in> set xs \<Longrightarrow> f y \<le> f x"
  by (fastforce simp: first_max_Some_iff)

end
