(* ===== verification/Errors.thy ===== *)
theory Errors
  imports Prelude
begin

text \<open>
  The exceptions of the library (src/knx_telegram_store/store.py) and the classification of a
  failed write (\<open>_data_error_cause\<close> of src/knx_telegram_store/buffered.py).

  A raised exception is a finite object graph: the exception object and those reached from it
  by \<open>__cause__\<close>, \<open>__context__\<close> and SQLAlchemy's \<open>orig\<close>. Objects are numbered, so a graph may
  have cycles, which Python's exception chains may have too; a number is the object's \<open>id()\<close>.
  The texts of messages are left out.
\<close>

datatype exc_class =
    BaseException | CancelledError | KeyboardInterrupt
  | Exception | TypeError | ValueError | UnicodeError | KeyError | IndexError | OverflowError
  | RuntimeError | NotImplementedError | ImportError | ModuleNotFoundError
  | XmlParseError | OSError | PermissionError | TimeoutError | FileNotFoundError | FileExistsError | NotADirectoryError
  | ConnectionRefusedError | GaiError
  | KnxTelegramStoreException
  | InsufficientDiskSpaceError (required: int) (available: int)
  | StatementError | OperationalError | DataError | IntegrityError | ProgrammingError
  | PostgresError | InvalidAuthorizationSpecificationError | InvalidPasswordError
  | InvalidCatalogNameError | InsufficientPrivilegeError

text \<open>
  Python's class hierarchy for these: each class with its superclasses. The last two lines of the
  type are those of asyncpg, and \<open>GaiError\<close> is \<open>socket.gaierror\<close>.
\<close>

fun superclasses :: "exc_class \<Rightarrow> exc_class list" where
  "superclasses BaseException = [BaseException]"
| "superclasses CancelledError = [CancelledError, BaseException]"
| "superclasses KeyboardInterrupt = [KeyboardInterrupt, BaseException]"
| "superclasses Exception = [Exception, BaseException]"
| "superclasses UnicodeError = [UnicodeError, ValueError, Exception, BaseException]"
| "superclasses PermissionError = [PermissionError, OSError, Exception, BaseException]"
| "superclasses TimeoutError = [TimeoutError, OSError, Exception, BaseException]"
| "superclasses FileNotFoundError = [FileNotFoundError, OSError, Exception, BaseException]"
| "superclasses FileExistsError = [FileExistsError, OSError, Exception, BaseException]"
| "superclasses NotADirectoryError = [NotADirectoryError, OSError, Exception, BaseException]"
| "superclasses ConnectionRefusedError = [ConnectionRefusedError, OSError, Exception, BaseException]"
| "superclasses GaiError = [GaiError, OSError, Exception, BaseException]"
| "superclasses ModuleNotFoundError = [ModuleNotFoundError, ImportError, Exception, BaseException]"
| "superclasses (InsufficientDiskSpaceError r a) =
     [InsufficientDiskSpaceError r a, KnxTelegramStoreException, Exception, BaseException]"
| "superclasses OperationalError = [OperationalError, StatementError, Exception, BaseException]"
| "superclasses DataError = [DataError, StatementError, Exception, BaseException]"
| "superclasses IntegrityError = [IntegrityError, StatementError, Exception, BaseException]"
| "superclasses ProgrammingError = [ProgrammingError, StatementError, Exception, BaseException]"
| "superclasses InvalidAuthorizationSpecificationError =
     [InvalidAuthorizationSpecificationError, PostgresError, Exception, BaseException]"
| "superclasses InvalidPasswordError =
     [InvalidPasswordError, InvalidAuthorizationSpecificationError, PostgresError, Exception, BaseException]"
| "superclasses InvalidCatalogNameError = [InvalidCatalogNameError, PostgresError, Exception, BaseException]"
| "superclasses InsufficientPrivilegeError = [InsufficientPrivilegeError, PostgresError, Exception, BaseException]"
| "superclasses c = [c, Exception, BaseException]"

definition isinstance :: "exc_class \<Rightarrow> exc_class list \<Rightarrow> bool" where
  "isinstance c cs = list_ex (\<lambda>d. d \<in> set cs) (superclasses c)"

record exc_node =
  exc_class :: exc_class
  exc_cause :: "nat option"
  exc_context :: "nat option"
  exc_orig :: "nat option"

type_synonym exc = "exc_node list \<times> nat"

definition raise_exc :: "exc_class \<Rightarrow> exc" where
  "raise_exc c = ([\<lparr>exc_class = c, exc_cause = None, exc_context = None, exc_orig = None\<rparr>], 0)"

text \<open>\<open>raise c from e\<close>: the new object's cause and context are the one being handled.\<close>

definition raise_from :: "exc_class \<Rightarrow> exc \<Rightarrow> exc" where
  "raise_from c e = (case e of (nodes, r) \<Rightarrow>
     (nodes @ [\<lparr>exc_class = c, exc_cause = Some r, exc_context = Some r, exc_orig = None\<rparr>],
      length nodes))"

definition class_of :: "exc \<Rightarrow> exc_class" where
  "class_of e = (case e of (nodes, r) \<Rightarrow>
     if r < length nodes then exc_class (nodes ! r) else BaseException)"

definition is_exception :: "exc \<Rightarrow> bool" where
  "is_exception e = isinstance (class_of e) [Exception]"

definition links :: "exc_node \<Rightarrow> nat option list" where
  "links nd = [exc_orig nd, exc_context nd, exc_cause nd]"

definition wf_exc :: "exc \<Rightarrow> bool" where
  "wf_exc e = (case e of (nodes, r) \<Rightarrow> r < length nodes \<and>
     (\<forall>nd \<in> set nodes. \<forall>j. Some j \<in> set (links nd) \<longrightarrow> j < length nodes))"

section \<open>wrap_store_errors\<close>

definition wrap_store_errors :: "exc + 'a \<Rightarrow> exc + 'a" where
  "wrap_store_errors r = (case r of
     Inr v \<Rightarrow> Inr v
   | Inl e \<Rightarrow>
       if isinstance (class_of e) [KnxTelegramStoreException] then Inl e
       else if is_exception e then Inl (raise_from KnxTelegramStoreException e)
       else Inl e)"

text \<open>The same around an operation that changes state: the state is left as the operation left it.\<close>

definition wrapped :: "(exc + 'a) \<times> 's \<Rightarrow> (exc + 'a) \<times> 's" where
  "wrapped rs = (wrap_store_errors (fst rs), snd rs)"

lemma wrap_store_errors_simps [simp, res_simps]:
  "wrap_store_errors (Inr v) = Inr v"
  "isinstance (class_of e) [KnxTelegramStoreException] \<Longrightarrow> wrap_store_errors (Inl e) = Inl e"
  by (simp_all add: wrap_store_errors_def)

lemma wrap_store_errors_Inr_iff [simp]: "wrap_store_errors r = Inr v \<longleftrightarrow> r = Inr v"
  by (auto simp: wrap_store_errors_def split: sum.splits)

lemma wrapped_simps [simp]:
  "fst (wrapped rs) = wrap_store_errors (fst rs)"
  "snd (wrapped rs) = snd rs"
  by (simp_all add: wrapped_def)

lemma class_of_raise [simp]:
  "class_of (raise_exc c) = c"
  "class_of (raise_from c e) = c"
  by (auto simp: class_of_def raise_exc_def raise_from_def split: prod.splits)

lemma raise_exc_inject [simp]: "raise_exc c = raise_exc d \<longleftrightarrow> c = d"
  by (metis class_of_raise(1))

lemma wrap_store_errors_idem [simp]: "wrap_store_errors (wrap_store_errors r) = wrap_store_errors r"
  by (auto simp: wrap_store_errors_def isinstance_def split: sum.split)

lemma wrapped_idem [simp]: "wrapped (wrapped rs) = wrapped rs"
  by (simp add: wrapped_def)

lemma wf_raise [simp]:
  "wf_exc (raise_exc c)"
  "wf_exc e \<Longrightarrow> wf_exc (raise_from c e)"
  by (auto simp: wf_exc_def raise_exc_def raise_from_def links_def split: prod.splits)
    (meson less_SucI)+

section \<open>Data errors\<close>

text \<open>
  \<open>_data_error_cause\<close>: \<open>sqlalchemy\<close> says whether SQLAlchemy can be imported. The stack \<open>pending\<close>
  has its top first, so \<open>pending.pop()\<close> takes the head and \<open>extend\<close> pushes the three links, the
  last of them on top.
\<close>

definition data_error_types :: "bool \<Rightarrow> exc_class list" where
  "data_error_types sqlalchemy =
     [TypeError, ValueError] @ (if sqlalchemy then [DataError, IntegrityError] else [])"

function data_error_loop ::
  "exc_class list \<Rightarrow> exc_node list \<Rightarrow> nat list \<Rightarrow> nat option list \<Rightarrow> nat option"
where
  "data_error_loop types nodes seen [] = None"
| "data_error_loop types nodes seen (None # pending) = data_error_loop types nodes seen pending"
| "data_error_loop types nodes seen (Some i # pending) =
     (if i \<in> set seen \<or> length nodes \<le> i then data_error_loop types nodes seen pending
      else if isinstance (exc_class (nodes ! i)) types then Some i
      else data_error_loop types nodes (i # seen) (links (nodes ! i) @ pending))"
  by pat_completeness auto
termination
proof (relation "measures [\<lambda>(types, nodes, seen, pending). card ({..<length nodes} - set seen),
                           \<lambda>(types, nodes, seen, pending). length pending]", goal_cases)
  case (4 types nodes seen i pending)
  then have "i \<in> {..<length nodes} - set seen" by simp
  then have "card ({..<length nodes} - set seen - {i}) < card ({..<length nodes} - set seen)"
    by (intro card_Diff1_less) simp_all
  moreover have "{..<length nodes} - set (i # seen) = {..<length nodes} - set seen - {i}"
    by (simp only: list.set) blast
  ultimately show ?case by simp
qed auto

definition data_error_cause :: "bool \<Rightarrow> exc \<Rightarrow> exc option" where
  "data_error_cause sqlalchemy e = (case e of (nodes, r) \<Rightarrow>
     map_option (Pair nodes) (data_error_loop (data_error_types sqlalchemy) nodes [] [Some r]))"

text \<open>The objects reached from \<open>i\<close> over the three links.\<close>

inductive exc_reach :: "exc_node list \<Rightarrow> nat \<Rightarrow> nat \<Rightarrow> bool" for nodes where
  here: "i < length nodes \<Longrightarrow> exc_reach nodes i i"
| link: "exc_reach nodes i j \<Longrightarrow> Some k \<in> set (links (nodes ! j)) \<Longrightarrow> k < length nodes \<Longrightarrow>
     exc_reach nodes i k"

lemma exc_reach_trans:
  assumes "exc_reach nodes j k" and "exc_reach nodes i j"
  shows "exc_reach nodes i k"
  using assms by (induction rule: exc_reach.induct) (auto intro: exc_reach.link)

lemma exc_reach_bounds: "exc_reach nodes i j \<Longrightarrow> j < length nodes"
  by (induction rule: exc_reach.induct) auto

lemma data_error_loop_Some:
  "data_error_loop types nodes seen pending = Some i \<Longrightarrow>
   isinstance (exc_class (nodes ! i)) types \<and> (\<exists>r. Some r \<in> set pending \<and> exc_reach nodes r i)"
proof (induction types nodes seen pending rule: data_error_loop.induct)
  case (3 types nodes seen j pending)
  show ?case
  proof (cases "j \<in> set seen \<or> length nodes \<le> j")
    case True
    with 3 show ?thesis by auto
  next
    case new: False
    then have here: "exc_reach nodes j j" by (simp add: exc_reach.here)
    show ?thesis
    proof (cases "isinstance (exc_class (nodes ! j)) types")
      case True
      with 3(3) new here show ?thesis by auto
    next
      case False
      with 3(2,3) new obtain r where
        "isinstance (exc_class (nodes ! i)) types"
        "Some r \<in> set (links (nodes ! j)) \<or> Some r \<in> set pending" "exc_reach nodes r i"
        by auto
      moreover have "exc_reach nodes j r" if "Some r \<in> set (links (nodes ! j))" "r < length nodes"
        using here that by (rule exc_reach.link)
      moreover have "r < length nodes" using \<open>exc_reach nodes r i\<close>
        by (induction rule: exc_reach.induct) auto
      ultimately show ?thesis by (auto intro: exc_reach_trans)
    qed
  qed
qed auto

text \<open>
  The converse: a search that finds nothing has closed a set of objects free of data errors. The
  links of \<open>S\<close> stay in \<open>S\<close>, but for those still in \<open>P\<close>.
\<close>

definition clean_upto :: "exc_class list \<Rightarrow> exc_node list \<Rightarrow> nat set \<Rightarrow> nat option set \<Rightarrow> bool" where
  "clean_upto types nodes S P \<longleftrightarrow> (\<forall>j \<in> S. \<not> isinstance (exc_class (nodes ! j)) types) \<and>
     (\<forall>j \<in> S. \<forall>k. Some k \<in> set (links (nodes ! j)) \<longrightarrow> k < length nodes \<longrightarrow> k \<in> S \<or> Some k \<in> P)"

lemma clean_upto_skip:
  "clean_upto types nodes S (insert (Some i) P) \<Longrightarrow> i \<in> S \<or> length nodes \<le> i \<Longrightarrow>
   clean_upto types nodes S P"
  by (fastforce simp: clean_upto_def)

lemma clean_upto_visit:
  "clean_upto types nodes S (insert (Some i) P) \<Longrightarrow>
   \<not> isinstance (exc_class (nodes ! i)) types \<Longrightarrow>
   clean_upto types nodes (insert i S) (set (links (nodes ! i)) \<union> P)"
  by (fastforce simp: clean_upto_def)

lemma clean_upto_reach:
  assumes "clean_upto types nodes S {}" and "r \<in> S" and "exc_reach nodes r i"
  shows "i \<in> S"
  using assms(3,2) by (induction rule: exc_reach.induct) (use assms(1) in \<open>auto simp: clean_upto_def\<close>)

lemma data_error_loop_None:
  assumes "data_error_loop types nodes seen pending = None"
    and "clean_upto types nodes (set seen) (set pending)"
  shows "\<exists>S. set seen \<subseteq> S \<and> (\<forall>j < length nodes. Some j \<in> set pending \<longrightarrow> j \<in> S) \<and>
    clean_upto types nodes S {}"
  using assms
proof (induction types nodes seen pending rule: data_error_loop.induct)
  case (1 types nodes seen)
  then show ?case by (intro exI [of _ "set seen"]) simp
next
  case (2 types nodes seen pending)
  then have "clean_upto types nodes (set seen) (set pending)"
    by (fastforce simp: clean_upto_def)
  with 2 show ?case by simp
next
  case (3 types nodes seen i pending)
  have upto: "clean_upto types nodes (set seen) (insert (Some i) (set pending))"
    using 3(4) by simp
  show ?case
  proof (cases "i \<in> set seen \<or> length nodes \<le> i")
    case True
    with 3(3) have none: "data_error_loop types nodes seen pending = None" by simp
    obtain S where "set seen \<subseteq> S" "\<forall>j < length nodes. Some j \<in> set pending \<longrightarrow> j \<in> S"
      "clean_upto types nodes S {}"
      using 3(1) [OF True none clean_upto_skip [OF upto True]] by blast
    with True show ?thesis by (intro exI [of _ S]) auto
  next
    case False
    with 3(3) have fresh: "\<not> isinstance (exc_class (nodes ! i)) types"
      and none: "data_error_loop types nodes (i # seen) (links (nodes ! i) @ pending) = None"
      by (simp_all split: if_splits)
    have "clean_upto types nodes (set (i # seen)) (set (links (nodes ! i) @ pending))"
      using clean_upto_visit [OF upto fresh] by simp
    from 3(2) [OF False fresh none this] obtain S where "set (i # seen) \<subseteq> S"
      "\<forall>j < length nodes. Some j \<in> set (links (nodes ! i) @ pending) \<longrightarrow> j \<in> S"
      "clean_upto types nodes S {}"
      by blast
    then show ?thesis by (intro exI [of _ S]) simp
  qed
qed

lemma data_error_loop_root:
  "data_error_loop types nodes [] [Some r] \<noteq> None \<longleftrightarrow>
   (\<exists>i. exc_reach nodes r i \<and> isinstance (exc_class (nodes ! i)) types)" (is "?L \<longleftrightarrow> ?R")
proof
  assume ?L
  then obtain i where "data_error_loop types nodes [] [Some r] = Some i" by blast
  from data_error_loop_Some [OF this] show ?R by auto
next
  assume ?R
  then obtain i where i: "exc_reach nodes r i" "isinstance (exc_class (nodes ! i)) types" by auto
  have "r < length nodes" using i(1) by (induction rule: exc_reach.induct)
  show ?L
  proof
    assume "data_error_loop types nodes [] [Some r] = None"
    from data_error_loop_None [OF this] obtain S where
      "r \<in> S" and clean: "clean_upto types nodes S {}"
      using \<open>r < length nodes\<close> by (auto simp: clean_upto_def)
    from clean_upto_reach [OF clean this(1) i(1)] have "i \<in> S" .
    with clean i(2) show False by (auto simp: clean_upto_def)
  qed
qed

section \<open>The classification survives the wrapping\<close>

lemma data_error_cause_pair:
  "data_error_cause sa (nodes, r) \<noteq> None \<longleftrightarrow>
   (\<exists>i. exc_reach nodes r i \<and> isinstance (exc_class (nodes ! i)) (data_error_types sa))"
  using data_error_loop_root [of "data_error_types sa" nodes r]
  by (simp add: data_error_cause_def)

lemma wf_exc_link:
  "wf_exc (nodes, r) \<Longrightarrow> j < length nodes \<Longrightarrow> Some k \<in> set (links (nodes ! j)) \<Longrightarrow> k < length nodes"
  using nth_mem [of j nodes] unfolding wf_exc_def by (metis (no_types, lifting) case_prod_conv)

lemma wf_exc_root: "wf_exc (nodes, r) \<Longrightarrow> r < length nodes"
  by (simp add: wf_exc_def)

lemma exc_reach_append:
  assumes wf: "wf_exc (nodes, r)"
  shows "exc_reach (nodes @ [w]) r i \<longleftrightarrow> exc_reach nodes r i"
proof
  assume "exc_reach (nodes @ [w]) r i"
  then show "exc_reach nodes r i" using wf
  proof (induction r i rule: exc_reach.induct)
    case (here i)
    then show ?case by (intro exc_reach.here) (simp add: wf_exc_def)
  next
    case (link i j k)
    then have reach: "exc_reach nodes i j" by blast
    then have j: "j < length nodes" by (rule exc_reach_bounds)
    with link.hyps(2) have k: "Some k \<in> set (links (nodes ! j))" by (simp add: nth_append)
    show ?case by (rule exc_reach.link [OF reach k wf_exc_link [OF link.prems j k]])
  qed
next
  assume "exc_reach nodes r i"
  then show "exc_reach (nodes @ [w]) r i"
  proof (induction rule: exc_reach.induct)
    case (here i)
    then show ?case by (simp add: exc_reach.here)
  next
    case (link i j k)
    then have "Some k \<in> set (links ((nodes @ [w]) ! j))"
      by (simp add: nth_append exc_reach_bounds)
    with link.IH link.hyps(3) show ?case by (auto intro: exc_reach.link)
  qed
qed

lemma exc_reach_raise_from:
  assumes wf: "wf_exc (nodes, r)" and w: "links w = [None, Some r, Some r]"
  shows "exc_reach (nodes @ [w]) (length nodes) i \<longleftrightarrow> i = length nodes \<or> exc_reach nodes r i"
proof
  assume "exc_reach (nodes @ [w]) (length nodes) i"
  then show "i = length nodes \<or> exc_reach nodes r i"
  proof (induction "length nodes" i rule: exc_reach.induct)
    case here
    show ?case by simp
  next
    case (link j k)
    show ?case
    proof (cases "j = length nodes")
      case True
      with link(3) w have "k = r" by simp
      with wf_exc_root [OF wf] show ?thesis by (simp add: exc_reach.here)
    next
      case False
      with link(2) have j: "exc_reach nodes r j" by simp
      then have "j < length nodes" by (rule exc_reach_bounds)
      moreover from this have "Some k \<in> set (links (nodes ! j))" using link(3) by (simp add: nth_append)
      ultimately show ?thesis using wf_exc_link [OF wf] j by (blast intro: exc_reach.link)
    qed
  qed
next
  have top: "exc_reach (nodes @ [w]) (length nodes) (length nodes)" by (rule exc_reach.here) simp
  then have "exc_reach (nodes @ [w]) (length nodes) r"
    by (rule exc_reach.link) (use w wf_exc_root [OF wf] in simp_all)
  moreover assume "i = length nodes \<or> exc_reach nodes r i"
  ultimately show "exc_reach (nodes @ [w]) (length nodes) i"
    using top exc_reach_append [OF wf, of w] by (auto intro: exc_reach_trans)
qed

lemma data_error_cause_raise_from:
  assumes "wf_exc e" and "\<not> isinstance c (data_error_types sa)"
  shows "data_error_cause sa (raise_from c e) \<noteq> None \<longleftrightarrow> data_error_cause sa e \<noteq> None"
proof -
  obtain nodes r where e: "e = (nodes, r)" by (cases e)
  let ?w = "\<lparr>exc_class = c, exc_cause = Some r, exc_context = Some r, exc_orig = None\<rparr>"
  have w: "raise_from c e = (nodes @ [?w], length nodes)" by (simp add: e raise_from_def)
  have reach: "exc_reach (nodes @ [?w]) (length nodes) i \<longleftrightarrow> i = length nodes \<or> exc_reach nodes r i" for i
    using assms(1) by (intro exc_reach_raise_from) (simp_all add: e links_def)
  have "isinstance (exc_class ((nodes @ [?w]) ! i)) ts \<longleftrightarrow> isinstance (exc_class (nodes ! i)) ts"
    if "exc_reach nodes r i" for i ts
    using exc_reach_bounds [OF that] by (simp add: nth_append)
  moreover have "isinstance (exc_class ((nodes @ [?w]) ! length nodes)) ts \<longleftrightarrow> isinstance c ts" for ts
    by (simp add: nth_append)
  ultimately show ?thesis
    unfolding w unfolding e data_error_cause_pair reach using assms(2) by blast
qed

end
