(* ===== verification/Timestamps.thy ===== *)
theory Timestamps
  imports Errors
begin

text \<open>
  Python's \<open>datetime\<close> as the library uses it, and the conversions of
  src/knx_telegram_store/backends/base_sql.py (\<open>datetime_to_micros\<close>, \<open>micros_to_datetime\<close>,
  \<open>UtcDateTime\<close>).

  A datetime is its wall clock, in microseconds since 1970-01-01 00:00:00 of that same wall
  clock, and its offset from UTC in microseconds, \<open>None\<close> for a naive value. Offsets are fixed
  (\<open>datetime.timezone\<close>): the store's own timestamps are UTC. Comparing a naive and an aware value
  raises TypeError, and arithmetic outside the years 1 to 9999 raises OverflowError.
\<close>

datatype datetime = Datetime (wall: int) (utcoffset: "int option")

definition is_aware :: "datetime \<Rightarrow> bool" where
  "is_aware d = (utcoffset d \<noteq> None)"

text \<open>The instant a datetime denotes, a naive one read as UTC.\<close>

definition instant :: "datetime \<Rightarrow> int" where
  "instant d = wall d - (case utcoffset d of None \<Rightarrow> 0 | Some off \<Rightarrow> off)"

definition comparable :: "datetime \<Rightarrow> datetime \<Rightarrow> bool" where
  "comparable a b \<longleftrightarrow> is_aware a = is_aware b"

definition dt_less :: "datetime \<Rightarrow> datetime \<Rightarrow> exc + bool" where
  "dt_less a b =
     (if comparable a b then Inr (instant a < instant b) else Inl (raise_exc TypeError))"

definition dt_le :: "datetime \<Rightarrow> datetime \<Rightarrow> exc + bool" where
  "dt_le a b =
     (if comparable a b then Inr (instant a \<le> instant b) else Inl (raise_exc TypeError))"

lemma dt_compare [res_simps]:
  "comparable a b \<Longrightarrow> dt_less a b = Inr (instant a < instant b)"
  "comparable a b \<Longrightarrow> dt_le a b = Inr (instant a \<le> instant b)"
  by (simp_all add: dt_less_def dt_le_def)

lemma comparable_aware: "is_aware a \<Longrightarrow> is_aware b \<Longrightarrow> comparable a b"
  by (simp add: comparable_def)

text \<open>\<open>datetime.min\<close> is 0001-01-01 00:00:00, \<open>datetime.max\<close> 9999-12-31 23:59:59.999999.\<close>

definition min_wall :: int where "min_wall = -62135596800000000"

definition max_wall :: int where "max_wall = 253402300799999999"

definition in_range :: "int \<Rightarrow> bool" where
  "in_range w \<longleftrightarrow> min_wall \<le> w \<and> w \<le> max_wall"

definition dt_plus :: "datetime \<Rightarrow> int \<Rightarrow> exc + datetime" where
  "dt_plus d delta =
     (if in_range (wall d + delta) then Inr (Datetime (wall d + delta) (utcoffset d))
      else Inl (raise_exc OverflowError))"

text \<open>\<open>timedelta(milliseconds=n)\<close> in microseconds; more than 999999999 days overflow.\<close>

definition micros_per_day :: int where "micros_per_day = 86400000000"

definition timedelta_micros :: "int \<Rightarrow> exc + int" where
  "timedelta_micros us =
     (if \<bar>us div micros_per_day\<bar> \<le> 999999999 then Inr us else Inl (raise_exc OverflowError))"

definition timedelta_ms :: "int \<Rightarrow> exc + int" where
  "timedelta_ms ms = timedelta_micros (ms * 1000)"

definition astimezone_utc :: "datetime \<Rightarrow> exc + datetime" where
  "astimezone_utc d =
     (if in_range (instant d) then Inr (Datetime (instant d) (Some 0))
      else Inl (raise_exc OverflowError))"

lemma dt_plus_Inr [res_simps]:
  "in_range (wall d + delta) \<Longrightarrow> dt_plus d delta = Inr (Datetime (wall d + delta) (utcoffset d))"
  by (simp add: dt_plus_def)

lemma instant_Datetime [simp]: "instant (Datetime w (Some off)) = w - off"
  "instant (Datetime w None) = w"
  by (simp_all add: instant_def)

lemma instant_shift [simp]: "instant (Datetime (wall d + delta) (utcoffset d)) = instant d + delta"
  by (simp add: instant_def split: option.split)

lemma is_aware_Datetime [simp]: "is_aware (Datetime w off) \<longleftrightarrow> off \<noteq> None"
  by (simp add: is_aware_def)

section \<open>Sorting and searching by time\<close>

text \<open>
  \<open>list.sort(key=..., reverse=...)\<close> on datetimes: stable, also when reversed. A list with both
  naive and aware keys raises, since every comparison sort compares some naive key with an
  aware one.
\<close>

definition py_sort :: "('a \<Rightarrow> datetime) \<Rightarrow> bool \<Rightarrow> 'a list \<Rightarrow> exc + 'a list" where
  "py_sort key reverse xs =
     (if list_all (\<lambda>x. comparable (key x) (key (hd xs))) xs
      then Inr (sort_key (\<lambda>x. if reverse then - instant (key x) else instant (key x)) xs)
      else Inl (raise_exc TypeError))"

lemma py_sort_Inr [res_simps]:
  "(\<And>x. x \<in> set xs \<Longrightarrow> is_aware (key x)) \<Longrightarrow>
   py_sort key reverse xs =
     Inr (sort_key (\<lambda>x. if reverse then - instant (key x) else instant (key x)) xs)"
  by (cases xs) (auto simp: py_sort_def list_all_iff comparable_def)

text \<open>\<open>bisect.bisect_left\<close>, the loop of the standard library.\<close>

function bisect_loop :: "datetime list \<Rightarrow> datetime \<Rightarrow> nat \<Rightarrow> nat \<Rightarrow> exc + nat" where
  "bisect_loop xs x lo hi =
     (if lo < hi
      then let mid = (lo + hi) div 2 in
           (case dt_less (xs ! mid) x of
              Inl e \<Rightarrow> Inl e
            | Inr b \<Rightarrow> if b then bisect_loop xs x (mid + 1) hi else bisect_loop xs x lo mid)
      else Inr lo)"
  by pat_completeness auto
termination
  by (relation "measure (\<lambda>(xs, x, lo, hi). hi - lo)") auto

declare bisect_loop.simps [simp del]

definition bisect_left :: "datetime list \<Rightarrow> datetime \<Rightarrow> exc + nat" where
  "bisect_left xs x = bisect_loop xs x 0 (length xs)"

text \<open>The loop splits a sorted list at the first element that is not below \<open>x\<close>.\<close>

lemma bisect_loop_split:
  assumes "sorted (map instant xs)" and "\<forall>y \<in> set xs. comparable y x"
    and "lo \<le> hi" and "hi \<le> length xs"
    and "\<forall>i < lo. instant (xs ! i) < instant x"
    and "\<forall>i. hi \<le> i \<longrightarrow> i < length xs \<longrightarrow> instant x \<le> instant (xs ! i)"
  shows "\<exists>k. bisect_loop xs x lo hi = Inr k \<and> k \<le> length xs \<and>
    (\<forall>i < k. instant (xs ! i) < instant x) \<and>
    (\<forall>i. k \<le> i \<longrightarrow> i < length xs \<longrightarrow> instant x \<le> instant (xs ! i))"
  using assms
proof (induction xs x lo hi rule: bisect_loop.induct)
  case (1 xs x lo hi)
  let ?mid = "(lo + hi) div 2"
  show ?case
  proof (cases "lo < hi")
    case False
    with 1(5-8) show ?thesis by (subst bisect_loop.simps) auto
  next
    case True
    then have mid: "lo \<le> ?mid" "?mid < hi" "?mid < length xs" using 1(6) by auto
    have mono: "i \<le> j \<Longrightarrow> j < length xs \<Longrightarrow> instant (xs ! i) \<le> instant (xs ! j)" for i j
      using sorted_nth_mono [OF 1(3), of i j] by simp
    have less: "dt_less (xs ! ?mid) x = Inr (instant (xs ! ?mid) < instant x)"
      using 1(4) mid(3) by (simp add: dt_compare)
    show ?thesis
    proof (cases "instant (xs ! ?mid) < instant x")
      case below: True
      have "\<forall>i < ?mid + 1. instant (xs ! i) < instant x"
        using below mono [OF _ mid(3)] by (auto simp: less_Suc_eq_le intro: le_less_trans)
      with 1(1) [OF True refl less below] 1(3-8) mid True below less show ?thesis
        by (subst bisect_loop.simps) (simp add: Let_def)
    next
      case above: False
      have "\<forall>i. ?mid \<le> i \<longrightarrow> i < length xs \<longrightarrow> instant x \<le> instant (xs ! i)"
        using above mono [of ?mid] by fastforce
      with 1(2) [OF True refl less above] 1(3-8) mid True above less show ?thesis
        by (subst bisect_loop.simps) (simp add: Let_def)
    qed
  qed
qed

lemma bisect_left_split:
  assumes "sorted (map instant xs)" and "\<forall>y \<in> set xs. comparable y x"
  obtains k where "bisect_left xs x = Inr k" and "k \<le> length xs"
    and "\<forall>i < k. instant (xs ! i) < instant x"
    and "\<forall>i. k \<le> i \<longrightarrow> i < length xs \<longrightarrow> instant x \<le> instant (xs ! i)"
  using bisect_loop_split [of xs x 0 "length xs"] assms by (auto simp: bisect_left_def)

section \<open>UtcDateTime\<close>

text \<open>\<open>datetime_to_micros\<close>: exact integer arithmetic, naive taken as UTC.\<close>

definition datetime_to_micros :: "datetime \<Rightarrow> int" where
  "datetime_to_micros v =
     (let v' = (if utcoffset v = None then Datetime (wall v) (Some 0) else v) in instant v')"

definition micros_to_datetime :: "int \<Rightarrow> exc + datetime" where
  "micros_to_datetime us =
     bind_res (timedelta_micros us) (\<lambda>delta. dt_plus (Datetime 0 (Some 0)) delta)"

datatype dialect = Sqlite | Postgresql | OtherDialect

text \<open>
  What a bound parameter or a result column may hold: an integer, a datetime, a text (of an
  unconverted SQLite file, as the datetime it spells), or anything else.
\<close>

datatype db_value = DbInt int | DbDatetime datetime | DbText datetime | DbOther

fun process_bind_param :: "dialect \<Rightarrow> db_value \<Rightarrow> exc + db_value" where
  "process_bind_param dialect (DbDatetime v) =
     (if dialect = Sqlite then Inr (DbInt (datetime_to_micros v))
      else if utcoffset v = None then Inr (DbDatetime (Datetime (wall v) (Some 0)))
      else bind_res (astimezone_utc v) (\<lambda>u. Inr (DbDatetime u)))"
| "process_bind_param dialect v = Inr v"

fun process_result_value :: "dialect \<Rightarrow> db_value \<Rightarrow> exc + db_value" where
  "process_result_value dialect (DbInt us) =
     (if dialect = Sqlite then bind_res (micros_to_datetime us) (\<lambda>d. Inr (DbDatetime d))
      else Inr (DbInt us))"
| "process_result_value dialect (DbText d) =
     (if dialect = Sqlite then Inr (DbDatetime (Datetime (wall d) (Some 0))) else Inr (DbText d))"
| "process_result_value dialect (DbDatetime v) =
     (if dialect = Sqlite then Inr (DbDatetime v)
      else if utcoffset v = None then Inr (DbDatetime (Datetime (wall v) (Some 0)))
      else bind_res (astimezone_utc v) (\<lambda>u. Inr (DbDatetime u)))"
| "process_result_value dialect DbOther = Inr DbOther"

lemma datetime_to_micros_instant [simp]: "datetime_to_micros v = instant v"
  by (cases v; cases "utcoffset v") (auto simp: datetime_to_micros_def instant_def)

lemma in_range_timedelta: "in_range us \<Longrightarrow> timedelta_micros us = Inr us"
proof -
  assume r: "in_range us"
  then have "-62135596800000000 div 86400000000 \<le> us div 86400000000"
    and "us div 86400000000 \<le> 253402300799999999 div 86400000000"
    by (auto intro!: zdiv_mono1 simp: in_range_def min_wall_def max_wall_def)
  then show ?thesis by (simp add: timedelta_micros_def micros_per_day_def)
qed

lemma micros_to_datetime_Inr [res_simps]:
  "in_range us \<Longrightarrow> micros_to_datetime us = Inr (Datetime us (Some 0))"
  by (simp add: micros_to_datetime_def in_range_timedelta dt_plus_def)

text \<open>The aware UTC datetime of the same instant: what a column gives back.\<close>

definition to_utc :: "datetime \<Rightarrow> datetime" where
  "to_utc v = Datetime (instant v) (Some 0)"

lemma instant_to_utc [simp]: "instant (to_utc v) = instant v"
  by (simp add: to_utc_def)

lemma is_aware_to_utc [simp]: "is_aware (to_utc v)"
  by (simp add: to_utc_def)

lemma to_utc_idem [simp]: "to_utc (to_utc v) = to_utc v"
  by (simp add: to_utc_def)

lemma utc_column_roundtrip_lemma:
  assumes "in_range (instant v)"
  shows "bind_res (process_bind_param dialect (DbDatetime v)) (process_result_value dialect) =
    Inr (DbDatetime (to_utc v))"
proof (cases "dialect = Sqlite")
  case True
  with assms show ?thesis by (simp add: micros_to_datetime_Inr to_utc_def)
next
  case False
  with assms show ?thesis
    by (cases "utcoffset v") (auto simp: astimezone_utc_def to_utc_def instant_def)
qed

end
