(* ===== verification/Model.thy ===== *)
theory Model
  imports Timestamps "HOL-Library.Word"
begin

text \<open>
  The data of the library: the stored telegram (src/knx_telegram_store/model.py), the query and
  its result (src/knx_telegram_store/query.py), capabilities and statistics
  (src/knx_telegram_store/store.py), and the Python values a telegram carries with their JSON
  column form.
\<close>

section \<open>Values\<close>

text \<open>A float is its IEEE 754 bit pattern: the library stores and returns floats, it never
  computes with them.\<close>

type_synonym pyfloat = "64 word"

text \<open>\<open>PyObject\<close> stands for any value the JSON module cannot serialize.\<close>

datatype pyval =
    PyNone | PyBool bool | PyInt int | PyFloat pyfloat | PyStr string
  | PyTuple "pyval list" | PyList "pyval list" | PyDict "(string \<times> pyval) list"
  | PyObject

datatype json =
    JNull | JBool bool | JInt int | JFloat pyfloat | JStr string
  | JArray "json list" | JObject "(string \<times> json) list"

lemma map_res_cong [fundef_cong]:
  "xs = ys \<Longrightarrow> (\<And>x. x \<in> set ys \<Longrightarrow> f x = g x) \<Longrightarrow> map_res f xs = map_res g ys"
  by (induction ys arbitrary: xs) auto

text \<open>\<open>json.dumps\<close>, up to the text: tuples become arrays, unknown objects raise TypeError.\<close>

fun json_dumps :: "pyval \<Rightarrow> exc + json" where
  "json_dumps PyNone = Inr JNull"
| "json_dumps (PyBool b) = Inr (JBool b)"
| "json_dumps (PyInt i) = Inr (JInt i)"
| "json_dumps (PyFloat f) = Inr (JFloat f)"
| "json_dumps (PyStr s) = Inr (JStr s)"
| "json_dumps (PyTuple vs) = bind_res (map_res json_dumps vs) (\<lambda>js. Inr (JArray js))"
| "json_dumps (PyList vs) = bind_res (map_res json_dumps vs) (\<lambda>js. Inr (JArray js))"
| "json_dumps (PyDict kvs) =
     bind_res (map_res (\<lambda>kv. bind_res (json_dumps (snd kv)) (\<lambda>j. Inr (fst kv, j))) kvs)
       (\<lambda>js. Inr (JObject js))"
| "json_dumps PyObject = Inl (raise_exc TypeError)"

fun json_loads :: "json \<Rightarrow> pyval" where
  "json_loads JNull = PyNone"
| "json_loads (JBool b) = PyBool b"
| "json_loads (JInt i) = PyInt i"
| "json_loads (JFloat f) = PyFloat f"
| "json_loads (JStr s) = PyStr s"
| "json_loads (JArray js) = PyList (map json_loads js)"
| "json_loads (JObject kjs) = PyDict (map (\<lambda>kj. (fst kj, json_loads (snd kj))) kjs)"

text \<open>What comes back from a JSON column: every tuple as a list.\<close>

fun as_json :: "pyval \<Rightarrow> pyval" where
  "as_json (PyTuple vs) = PyList (map as_json vs)"
| "as_json (PyList vs) = PyList (map as_json vs)"
| "as_json (PyDict kvs) = PyDict (map (\<lambda>kv. (fst kv, as_json (snd kv))) kvs)"
| "as_json v = v"

text \<open>Free of values JSON cannot serialize.\<close>

fun json_ok :: "pyval \<Rightarrow> bool" where
  "json_ok (PyTuple vs) = list_all json_ok vs"
| "json_ok (PyList vs) = list_all json_ok vs"
| "json_ok (PyDict kvs) = list_all (\<lambda>kv. json_ok (snd kv)) kvs"
| "json_ok PyObject = False"
| "json_ok v = True"

lemma json_dumps_Inr: "json_ok v \<Longrightarrow> \<exists>j. json_dumps v = Inr j \<and> json_loads j = as_json v"
proof (induction v rule: json_ok.induct)
  case (1 vs)
  then have "\<forall>v \<in> set vs. \<exists>j. json_dumps v = Inr j \<and> json_loads j = as_json v"
    by (auto simp: list_all_iff)
  then obtain g where "\<forall>v \<in> set vs. json_dumps v = Inr (g v) \<and> json_loads (g v) = as_json v"
    by metis
  then show ?case by (simp add: map_res_Inr [where g = g])
next
  case (2 vs)
  then have "\<forall>v \<in> set vs. \<exists>j. json_dumps v = Inr j \<and> json_loads j = as_json v"
    by (auto simp: list_all_iff)
  then obtain g where "\<forall>v \<in> set vs. json_dumps v = Inr (g v) \<and> json_loads (g v) = as_json v"
    by metis
  then show ?case by (simp add: map_res_Inr [where g = g])
next
  case (3 kvs)
  then have "\<forall>kv \<in> set kvs. \<exists>j. json_dumps (snd kv) = Inr j \<and> json_loads j = as_json (snd kv)"
    by (auto simp: list_all_iff)
  then obtain g where g: "\<forall>kv \<in> set kvs.
      json_dumps (snd kv) = Inr (g kv) \<and> json_loads (g kv) = as_json (snd kv)"
    by metis
  then have "map_res (\<lambda>kv. bind_res (json_dumps (snd kv)) (\<lambda>j. Inr (fst kv, j))) kvs
      = Inr (map (\<lambda>kv. (fst kv, g kv)) kvs)"
    by (intro map_res_Inr) simp
  with g show ?case by simp
qed auto

lemma json_dumps_ok: "json_dumps v = Inr j \<Longrightarrow> json_ok v"
proof (induction v arbitrary: j rule: json_ok.induct)
  case (1 vs)
  then show ?case
    using map_res_Inr_iff [of json_dumps vs] by (auto simp: list_all_iff bind_res_Inr_conv)
next
  case (2 vs)
  then show ?case
    using map_res_Inr_iff [of json_dumps vs] by (auto simp: list_all_iff bind_res_Inr_conv)
next
  case (3 kvs)
  then show ?case
    using map_res_Inr_iff [of "\<lambda>kv. bind_res (json_dumps (snd kv)) (\<lambda>j. Inr (fst kv, j))" kvs]
    by (auto simp: list_all_iff bind_res_Inr_conv)
qed auto

lemma as_json_idem [simp]: "as_json (as_json v) = as_json v"
  by (induction v rule: as_json.induct) auto

lemma json_ok_as_json [simp]: "json_ok (as_json v) = json_ok v"
  by (induction v rule: as_json.induct) (auto simp: list_all_iff)

section \<open>Telegrams, queries, results\<close>

record stored_telegram =
  timestamp :: datetime
  source :: string
  destination :: string
  telegramtype :: string
  direction :: string
  payload :: pyval
  dpt_main :: "int option"
  dpt_sub :: "int option"
  telegram_value :: pyval
  value_numeric :: "pyfloat option"
  raw_data :: "string option"
  data_secure :: "bool option"
  source_name :: string
  destination_name :: string

text \<open>The five required fields, every other at its default.\<close>

definition stored_telegram ::
  "datetime \<Rightarrow> string \<Rightarrow> string \<Rightarrow> string \<Rightarrow> string \<Rightarrow> stored_telegram" where
  "stored_telegram ts src dst tt dir =
     \<lparr>timestamp = ts, source = src, destination = dst, telegramtype = tt, direction = dir,
      payload = PyNone, dpt_main = None, dpt_sub = None, telegram_value = PyNone,
      value_numeric = None, raw_data = None, data_secure = None,
      source_name = [], destination_name = []\<rparr>"

record telegram_query =
  sources :: "string list"
  destinations :: "string list"
  telegram_types :: "string list"
  directions :: "string list"
  dpt_mains :: "int list"
  dpts :: "(int \<times> int option) list"
  start_time :: "datetime option"
  end_time :: "datetime option"
  delta_before_ms :: int
  delta_after_ms :: int
  limit :: int
  offset :: int
  order_descending :: bool

text \<open>\<open>TelegramQuery()\<close>: every field at its default.\<close>

definition telegram_query :: telegram_query where
  "telegram_query =
     \<lparr>sources = [], destinations = [], telegram_types = [], directions = [], dpt_mains = [],
      dpts = [], start_time = None, end_time = None, delta_before_ms = 0, delta_after_ms = 0,
      limit = 25000, offset = 0, order_descending = True\<rparr>"

record telegram_query_result =
  res_telegrams :: "stored_telegram list"
  total_count :: int
  limit_reached :: bool

record store_capabilities =
  supports_time_range :: bool
  supports_time_delta :: bool
  supports_pagination :: bool
  supports_count :: bool
  supports_size_stats :: bool
  supports_optimize :: bool
  caps_read_only :: bool
  max_storage :: "int option"

definition store_capabilities :: store_capabilities where
  "store_capabilities =
     \<lparr>supports_time_range = False, supports_time_delta = False, supports_pagination = False,
      supports_count = False, supports_size_stats = False, supports_optimize = False,
      caps_read_only = False, max_storage = None\<rparr>"

record store_stats =
  telegram_count :: int
  oldest_timestamp :: "datetime option"
  newest_timestamp :: "datetime option"
  size_bytes :: "int option"
  stats_backend :: string
  stats_retention_days :: "int option"

abbreviation time_of :: "stored_telegram \<Rightarrow> int" where
  "time_of t \<equiv> instant (timestamp t)"

end
