(* ===== verification/Lookup.thy ===== *)
theory Lookup
  imports Model
begin

text \<open>
  The interning of repeated strings, src/knx_telegram_store/lookup.py: the table
  \<open>string_lookup\<close> (a row per distinct pair of category and value) and \<open>LookupCache\<close>, which maps
  pairs to row ids in memory. The id the database gives a new row is the parameter \<open>new_id\<close>;
  what is assumed of it is that it is the id of no other row of the table.
\<close>

type_synonym pair = "string \<times> string"

record lookup_row =
  lk_id :: int
  lk_category :: string
  lk_value :: string

definition lk_pair :: "lookup_row \<Rightarrow> pair" where
  "lk_pair r = (lk_category r, lk_value r)"

record lookup_cache =
  cache_map :: "pair \<rightharpoonup> int"
  cache_initialized :: bool

definition lookup_cache_init :: lookup_cache where
  "lookup_cache_init = \<lparr>cache_map = Map.empty, cache_initialized = False\<rparr>"

definition LOOKUP_CATEGORIES :: "string list" where
  "LOOKUP_CATEGORIES =
     [''source'', ''destination'', ''telegramtype'', ''direction'', ''source_name'',
      ''destination_name'']"

text \<open>The dict assignments of a loop over result rows: later rows win.\<close>

definition add_rows :: "(pair \<rightharpoonup> int) \<Rightarrow> lookup_row list \<Rightarrow> (pair \<rightharpoonup> int)" where
  "add_rows m rows = foldl (\<lambda>m r. m(lk_pair r \<mapsto> lk_id r)) m rows"

definition warm :: "lookup_cache \<Rightarrow> lookup_row list \<Rightarrow> lookup_cache" where
  "warm c table = c\<lparr>cache_map := add_rows (cache_map c) table, cache_initialized := True\<rparr>"

text \<open>The unique constraint makes both dialects' insert skip a pair that has a row.\<close>

definition insert_ignore :: "(lookup_row list \<Rightarrow> int) \<Rightarrow> lookup_row list \<Rightarrow> pair \<Rightarrow> lookup_row list" where
  "insert_ignore new_id table p =
     (if p \<in> lk_pair ` set table then table
      else table @ [\<lparr>lk_id = new_id table, lk_category = fst p, lk_value = snd p\<rparr>])"

text \<open>The fallback of other dialects asks first and inserts when there is no row.\<close>

definition select_then_insert ::
  "(lookup_row list \<Rightarrow> int) \<Rightarrow> lookup_row list \<Rightarrow> pair \<Rightarrow> lookup_row list" where
  "select_then_insert new_id table p =
     (case find (\<lambda>r. lk_pair r = p) table of
        None \<Rightarrow> table @ [\<lparr>lk_id = new_id table, lk_category = fst p, lk_value = snd p\<rparr>]
      | Some _ \<Rightarrow> table)"

definition get_or_create_ids ::
  "dialect \<Rightarrow> (lookup_row list \<Rightarrow> int) \<Rightarrow> lookup_cache \<Rightarrow> lookup_row list \<Rightarrow> pair list \<Rightarrow>
   (pair \<rightharpoonup> int) \<times> lookup_row list"
where
  "get_or_create_ids dialect new_id c table pairs =
     (let resolved = foldl (\<lambda>m p. case cache_map c p of None \<Rightarrow> m | Some i \<Rightarrow> m(p \<mapsto> i)) Map.empty pairs;
          to_resolve = filter (\<lambda>p. cache_map c p = None) pairs
      in if to_resolve = [] then (resolved, table)
         else
           let table' = (if dialect = Postgresql \<or> dialect = Sqlite
                         then foldl (insert_ignore new_id) table to_resolve
                         else foldl (select_then_insert new_id) table to_resolve);
               fetched = filter (\<lambda>r. lk_pair r \<in> set to_resolve) table'
           in (add_rows resolved fetched, table'))"

definition publish :: "lookup_cache \<Rightarrow> (pair \<rightharpoonup> int) \<Rightarrow> lookup_cache" where
  "publish c resolved = c\<lparr>cache_map := cache_map c ++ resolved\<rparr>"

section \<open>Well-formed tables\<close>

definition lookup_ok :: "lookup_row list \<Rightarrow> bool" where
  "lookup_ok table \<longleftrightarrow> distinct (map lk_id table) \<and> distinct (map lk_pair table)"

definition has_id :: "lookup_row list \<Rightarrow> pair \<Rightarrow> int \<Rightarrow> bool" where
  "has_id table p i \<longleftrightarrow> (\<exists>r \<in> set table. lk_pair r = p \<and> lk_id r = i)"

definition fresh_ids :: "(lookup_row list \<Rightarrow> int) \<Rightarrow> bool" where
  "fresh_ids new_id \<longleftrightarrow> (\<forall>table. new_id table \<notin> lk_id ` set table)"

definition cache_ok :: "lookup_cache \<Rightarrow> lookup_row list \<Rightarrow> bool" where
  "cache_ok c table \<longleftrightarrow> (\<forall>p i. cache_map c p = Some i \<longrightarrow> has_id table p i)"

lemma lookup_ok_inj:
  assumes "lookup_ok table" and "r \<in> set table" and "r' \<in> set table"
  shows "lk_pair r = lk_pair r' \<Longrightarrow> r = r'" and "lk_id r = lk_id r' \<Longrightarrow> r = r'"
  using assms unfolding lookup_ok_def distinct_map by (blast dest: inj_onD)+

lemma has_id_unique:
  assumes "lookup_ok table" and "has_id table p i"
  shows "has_id table p j \<longleftrightarrow> j = i" and "has_id table p' i \<longleftrightarrow> p' = p"
proof -
  show "has_id table p j \<longleftrightarrow> j = i"
    using assms lookup_ok_inj(1) [OF assms(1)] unfolding has_id_def by metis
  show "has_id table p' i \<longleftrightarrow> p' = p"
    using assms lookup_ok_inj(2) [OF assms(1)] unfolding has_id_def by metis
qed

lemma has_id_append: "has_id table p i \<Longrightarrow> has_id (table @ new) p i"
  by (auto simp: has_id_def)

lemma select_then_insert_eq: "select_then_insert new_id = insert_ignore new_id"
proof (intro ext)
  fix table :: "lookup_row list" and p
  show "select_then_insert new_id table p = insert_ignore new_id table p"
  proof (cases "find (\<lambda>r. lk_pair r = p) table")
    case None
    then have "p \<notin> lk_pair ` set table" by (auto simp: find_None_iff)
    with None show ?thesis by (simp add: select_then_insert_def insert_ignore_def)
  next
    case (Some r)
    then have "p \<in> lk_pair ` set table" by (auto simp: find_Some_iff intro: nth_mem)
    with Some show ?thesis by (simp add: select_then_insert_def insert_ignore_def)
  qed
qed

lemma insert_ignore_ok:
  assumes "lookup_ok table" and "fresh_ids new_id"
  shows "lookup_ok (insert_ignore new_id table p)"
    and "\<exists>new. insert_ignore new_id table p = table @ new"
    and "\<exists>i. has_id (insert_ignore new_id table p) p i"
  using assms
  by (auto simp: insert_ignore_def lookup_ok_def fresh_ids_def has_id_def lk_pair_def image_iff)

lemma insert_all_ok:
  assumes "fresh_ids new_id"
  shows "lookup_ok table \<Longrightarrow> lookup_ok (foldl (insert_ignore new_id) table ps) \<and>
    (\<exists>new. foldl (insert_ignore new_id) table ps = table @ new) \<and>
    (\<forall>p \<in> set ps. \<exists>i. has_id (foldl (insert_ignore new_id) table ps) p i)"
proof (induction ps arbitrary: table)
  case Nil
  then show ?case by simp
next
  case (Cons p ps)
  let ?t = "insert_ignore new_id table p"
  note ins = insert_ignore_ok [OF Cons.prems assms, of p]
  obtain new where new: "?t = table @ new" using ins(2) by blast
  obtain more_rows where rest: "foldl (insert_ignore new_id) ?t ps = ?t @ more_rows"
    using Cons.IH [OF ins(1)] by blast
  have "\<exists>i. has_id (foldl (insert_ignore new_id) ?t ps) p i"
    unfolding rest using ins(3) has_id_append by blast
  moreover have "foldl (insert_ignore new_id) ?t ps = table @ (new @ more_rows)"
    using rest new by simp
  ultimately show ?case using Cons.IH [OF ins(1)] by (simp only: foldl_Cons list.set ball_simps) blast
qed

lemma add_rows_Some_iff:
  "distinct (map lk_pair rows) \<Longrightarrow>
   add_rows m rows p = Some i \<longleftrightarrow> has_id rows p i \<or> (\<forall>j. \<not> has_id rows p j) \<and> m p = Some i"
proof (induction rows arbitrary: m)
  case Nil
  then show ?case by (simp add: add_rows_def has_id_def)
next
  case (Cons r rows)
  have step: "add_rows m (r # rows) = add_rows (m(lk_pair r \<mapsto> lk_id r)) rows"
    by (simp add: add_rows_def fun_eq_iff)
  have has: "has_id (r # rows) p j \<longleftrightarrow> lk_pair r = p \<and> lk_id r = j \<or> has_id rows p j" for j
    by (auto simp: has_id_def)
  have "lk_pair r = p \<Longrightarrow> \<not> has_id rows p j" for j
    using Cons.prems by (auto simp: has_id_def image_iff)
  with Cons show ?case by (auto simp: step has)
qed

lemma warm_cache_ok:
  assumes "lookup_ok table" and "cache_ok c table"
  shows "cache_ok (warm c table) table"
    and "has_id table p i \<Longrightarrow> cache_map (warm c table) p = Some i"
  using assms by (auto simp: warm_def cache_ok_def lookup_ok_def add_rows_Some_iff)

section \<open>Resolution\<close>

lemma from_cache:
  "foldl (\<lambda>m p. case cache_map c p of None \<Rightarrow> m | Some i \<Rightarrow> m(p \<mapsto> i)) m pairs p =
   (if p \<in> set pairs \<and> cache_map c p \<noteq> None then cache_map c p else m p)"
  by (induction pairs arbitrary: m) (auto split: option.split)

text \<open>The table afterwards, and the ids returned: those of the pairs the cache lacks, else the cached ones.\<close>

lemma get_or_create_ids_resolved:
  fixes c pairs new_id table
  defines "todo \<equiv> filter (\<lambda>p. cache_map c p = None) pairs" and "found \<equiv> \<lambda>p. if p \<in> set pairs then cache_map c p else None"
  defines "whole \<equiv> foldl (insert_ignore new_id) table todo"
  assumes ok: "lookup_ok whole" and res: "get_or_create_ids dialect new_id c table pairs = (resolved, table')"
  shows "table' = whole"
    and "resolved p = Some i \<longleftrightarrow> p \<in> set todo \<and> has_id whole p i \<or>
      (\<forall>j. \<not> (p \<in> set todo \<and> has_id whole p j)) \<and> found p = Some i"
proof -
  let ?cached = "foldl (\<lambda>m p. case cache_map c p of None \<Rightarrow> m | Some i \<Rightarrow> m(p \<mapsto> i)) Map.empty pairs"
  let ?rows = "filter (\<lambda>r. lk_pair r \<in> set todo) whole"
  have none: "resolved = ?cached \<and> table' = table" if "todo = []"
    using res that by (simp add: get_or_create_ids_def Let_def todo_def)
  have some: "resolved = add_rows ?cached ?rows \<and> table' = whole" if "todo \<noteq> []"
    using res that by (auto simp: get_or_create_ids_def Let_def select_then_insert_eq todo_def whole_def)
  have "whole = table" if "todo = []" using that by (simp add: whole_def)
  with none some show "table' = whole" by metis
  have fetched: "has_id ?rows p i \<longleftrightarrow> p \<in> set todo \<and> has_id whole p i" for p i by (auto simp: has_id_def)
  have dist: "distinct (map lk_pair ?rows)" using ok by (simp add: lookup_ok_def distinct_map_filter)
  have cached: "?cached p = found p" for p by (simp add: from_cache found_def)
  show "resolved p = Some i \<longleftrightarrow> p \<in> set todo \<and> has_id whole p i \<or>
      (\<forall>j. \<not> (p \<in> set todo \<and> has_id whole p j)) \<and> found p = Some i"
  proof (cases "todo = []")
    case True
    with none cached show ?thesis by simp
  next
    case False
    with some have "resolved = add_rows ?cached ?rows" by blast
    then show ?thesis by (simp only: add_rows_Some_iff [OF dist] fetched cached)
  qed
qed

text \<open>
  Every pair asked for is resolved to its row's id, the table only grows, and nothing else is
  resolved.
\<close>

lemma get_or_create_ids_ok:
  assumes ok: "lookup_ok table" and cache: "cache_ok c table" and fresh: "fresh_ids new_id"
    and res: "get_or_create_ids dialect new_id c table pairs = (resolved, table')"
  shows "lookup_ok table'" and "\<exists>new. table' = table @ new"
    and "\<forall>p \<in> set pairs. \<exists>i. resolved p = Some i \<and> has_id table' p i"
    and "\<forall>p i. resolved p = Some i \<longrightarrow> has_id table' p i"
proof -
  let ?todo = "filter (\<lambda>p. cache_map c p = None) pairs"
  let ?table = "foldl (insert_ignore new_id) table ?todo" and ?found = "\<lambda>p. if p \<in> set pairs then cache_map c p else None"
  have grow: "lookup_ok ?table" "\<exists>new. ?table = table @ new" "\<forall>p \<in> set ?todo. \<exists>i. has_id ?table p i"
    using insert_all_ok [OF fresh ok, of ?todo] by blast+
  note table' = get_or_create_ids_resolved(1) [OF grow(1) res] and resolved = get_or_create_ids_resolved(2) [OF grow(1) res]
  show "lookup_ok table'" "\<exists>new. table' = table @ new" using grow table' by simp_all
  have cached: "has_id ?table p i" if "?found p = Some i" for p i
  proof -
    have "has_id table p i"
      using cache that unfolding cache_ok_def by (simp split: if_splits del: split_paired_All)
    with grow(2) show ?thesis using has_id_append by metis
  qed
  show all: "\<forall>p i. resolved p = Some i \<longrightarrow> has_id table' p i"
    unfolding resolved table' using cached by blast
  show "\<forall>p \<in> set pairs. \<exists>i. resolved p = Some i \<and> has_id table' p i"
  proof
    fix p
    assume p: "p \<in> set pairs"
    have "\<exists>i. resolved p = Some i"
    proof (cases "cache_map c p")
      case None
      then have "p \<in> set ?todo" using p by simp
      with grow(3) resolved show ?thesis by blast
    next
      case (Some i)
      then have "p \<notin> set ?todo" and "?found p = Some i" using p by simp_all
      with resolved show ?thesis by blast
    qed
    with all show "\<exists>i. resolved p = Some i \<and> has_id table' p i" by blast
  qed
qed

lemma publish_ok:
  assumes "cache_ok c table" and "\<forall>p i. resolved p = Some i \<longrightarrow> has_id (table @ new) p i"
  shows "cache_ok (publish c resolved) (table @ new)"
  using assms by (auto simp: publish_def cache_ok_def has_id_append map_add_Some_iff)

end
