(* ===== verification/QuerySpec.thy ===== *)
theory QuerySpec
  imports Model
begin

text \<open>
  The contract of \<open>TelegramStore.query\<close>, as the docstring of \<open>TelegramQuery\<close>
  (src/knx_telegram_store/query.py) states it: an empty list restricts nothing, values of one
  category are alternatives, categories must all pass, the context window adds every telegram
  near a match, and the page is cut out of the time-ordered selection. The order of telegrams
  with equal times is left open, as it is in SQL.
\<close>

definition passes :: "'v list \<Rightarrow> 'v \<Rightarrow> bool" where
  "passes vs v \<longleftrightarrow> vs = [] \<or> v \<in> set vs"

text \<open>\<open>dpt_mains\<close> and \<open>dpts\<close> are one group of alternatives.\<close>

definition dpt_group :: "telegram_query \<Rightarrow> stored_telegram \<Rightarrow> bool" where
  "dpt_group q t \<longleftrightarrow>
     list_ex (\<lambda>m. dpt_main t = Some m) (dpt_mains q) \<or>
     list_ex (\<lambda>(m, s). dpt_main t = Some m \<and> (s = None \<or> dpt_sub t = s)) (dpts q)"

definition in_time_range :: "telegram_query \<Rightarrow> int \<Rightarrow> bool" where
  "in_time_range q time \<longleftrightarrow>
     (case start_time q of None \<Rightarrow> True | Some st \<Rightarrow> instant st \<le> time) \<and>
     (case end_time q of None \<Rightarrow> True | Some en \<Rightarrow> time \<le> instant en)"

definition matches :: "telegram_query \<Rightarrow> stored_telegram \<Rightarrow> bool" where
  "matches q t \<longleftrightarrow>
     passes (sources q) (source t) \<and> passes (destinations q) (destination t) \<and>
     passes (telegram_types q) (telegramtype t) \<and> passes (directions q) (direction t) \<and>
     (dpt_mains q = [] \<and> dpts q = [] \<or> dpt_group q t) \<and>
     in_time_range q (time_of t)"

definition window_on :: "telegram_query \<Rightarrow> bool" where
  "window_on q \<longleftrightarrow> 0 < delta_before_ms q \<or> 0 < delta_after_ms q"

definition near :: "telegram_query \<Rightarrow> int \<Rightarrow> int \<Rightarrow> bool" where
  "near q pivot time \<longleftrightarrow>
     pivot - delta_before_ms q * 1000 \<le> time \<and> time \<le> pivot + delta_after_ms q * 1000"

definition selects :: "telegram_query \<Rightarrow> stored_telegram list \<Rightarrow> stored_telegram \<Rightarrow> bool" where
  "selects q ts t \<longleftrightarrow>
     (if window_on q then list_ex (\<lambda>p. matches q p \<and> near q (time_of p) (time_of t)) ts
      else matches q t)"

definition selection :: "telegram_query \<Rightarrow> stored_telegram list \<Rightarrow> stored_telegram list" where
  "selection q ts = filter (selects q ts) ts"

definition time_key :: "bool \<Rightarrow> stored_telegram \<Rightarrow> int" where
  "time_key descending t = (if descending then - time_of t else time_of t)"

definition page :: "telegram_query \<Rightarrow> 'a list \<Rightarrow> 'a list" where
  "page q xs = take (nat (limit q)) (drop (nat (offset q)) xs)"

definition answers ::
  "telegram_query \<Rightarrow> stored_telegram list \<Rightarrow> telegram_query_result \<Rightarrow> bool" where
  "answers q ts r \<longleftrightarrow>
     total_count r = int (length (selection q ts)) \<and>
     limit_reached r = (total_count r > offset q + limit q) \<and>
     (\<exists>os. mset os = mset (selection q ts) \<and> sorted (map (time_key (order_descending q)) os) \<and>
        res_telegrams r = page q os)"

text \<open>A page request makes sense: nothing negative.\<close>

definition wf_query :: "telegram_query \<Rightarrow> bool" where
  "wf_query q \<longleftrightarrow> 0 \<le> limit q \<and> 0 \<le> offset q \<and> 0 \<le> delta_before_ms q \<and> 0 \<le> delta_after_ms q"

section \<open>Facts about the contract\<close>

lemma selects_perm: "mset ts = mset us \<Longrightarrow> selects q ts t = selects q us t"
  using mset_eq_setD [of ts us] by (simp add: selects_def list_ex_iff)

lemma selection_perm: "mset ts = mset us \<Longrightarrow> mset (selection q ts) = mset (selection q us)"
  unfolding selection_def
  by (metis (no_types, lifting) filter_cong mset_filter_perm selects_perm)

lemma answers_perm: "mset ts = mset us \<Longrightarrow> answers q ts r = answers q us r"
  using selection_perm [of ts us q] by (auto simp: answers_def dest: mset_eq_length)

text \<open>Reordering a page by time gives a page of another admissible ordering.\<close>

lemma sorted_replace_middle:
  assumes "sorted (map f (xs @ ys @ zs))" and "mset ys' = mset ys" and "sorted (map f ys')"
  shows "sorted (map f (xs @ ys' @ zs))"
  using assms mset_eq_setD [OF assms(2)] by (auto simp: sorted_append)

lemma page_split: "xs = take (nat (offset q)) xs @ page q xs @ drop (nat (limit q)) (drop (nat (offset q)) xs)"
  by (simp only: page_def append_take_drop_id)

lemma page_replace:
  assumes "sorted (map f xs)" and "mset ys = mset (page q xs)" and "sorted (map f ys)"
  shows "\<exists>zs. mset zs = mset xs \<and> sorted (map f zs) \<and> page q zs = ys"
proof -
  let ?pre = "take (nat (offset q)) xs" and ?post = "drop (nat (limit q)) (drop (nat (offset q)) xs)"
  let ?zs = "?pre @ ys @ ?post"
  have "mset ?zs = mset (?pre @ page q xs @ ?post)" using assms(2) by simp
  also have "\<dots> = mset xs" by (simp only: page_split [symmetric])
  finally have m: "mset ?zs = mset xs" .
  have "sorted (map f (?pre @ page q xs @ ?post))" using assms(1) by (simp only: page_split [symmetric])
  then have s: "sorted (map f ?zs)" using assms(2,3) by (rule sorted_replace_middle)
  have len: "length ys = length (page q xs)" using assms(2) by (rule mset_eq_length)
  have "page q ?zs = ys"
  proof (cases "nat (offset q) \<le> length xs")
    case True
    then have pre: "length ?pre = nat (offset q)" by simp
    show ?thesis
    proof (cases "nat (limit q) \<le> length xs - nat (offset q)")
      case True
      then have "length ys = nat (limit q)" using len by (simp add: page_def)
      with pre show ?thesis by (simp add: page_def)
    next
      case False
      then have "?post = []" "length ys \<le> nat (limit q)" using len by (simp_all add: page_def)
      with pre show ?thesis by (simp add: page_def)
    qed
  next
    case False
    then have "page q xs = []" by (simp add: page_def)
    with assms(2) False show ?thesis by (simp add: page_def)
  qed
  with m s show ?thesis by blast
qed

text \<open>Two answers agree on everything but the order of telegrams with the same time.\<close>

lemma answers_agree:
  assumes "answers q ts r" and "answers q ts r'"
  shows "total_count r' = total_count r" and "limit_reached r' = limit_reached r"
    and "map time_of (res_telegrams r') = map time_of (res_telegrams r)"
proof -
  show "total_count r' = total_count r" and "limit_reached r' = limit_reached r"
    using assms by (simp_all add: answers_def)
  let ?k = "time_key (order_descending q)"
  obtain os os' where
    os: "mset os = mset (selection q ts)" "sorted (map ?k os)" "res_telegrams r = page q os"
    and os': "mset os' = mset (selection q ts)" "sorted (map ?k os')" "res_telegrams r' = page q os'"
    using assms by (auto simp: answers_def)
  have "mset (map ?k os') = mset (map ?k os)" using os(1) os'(1) by simp
  then have "map ?k os' = map ?k os" using os(2) os'(2) by (metis properties_for_sort)
  moreover have "map time_of xs = map (\<lambda>k. if order_descending q then - k else k) (map ?k xs)" for xs
    by (simp add: time_key_def)
  ultimately have "map time_of os' = map time_of os" by metis
  then show "map time_of (res_telegrams r') = map time_of (res_telegrams r)"
    using os(3) os'(3) by (simp add: page_def take_map [symmetric] drop_map [symmetric])
qed

text \<open>Where no two selected telegrams share a time, the answer is unique.\<close>

lemma sorted_key_unique:
  "mset xs = mset ys \<Longrightarrow> sorted (map f xs) \<Longrightarrow> sorted (map f ys) \<Longrightarrow> inj_on f (set xs) \<Longrightarrow> xs = ys"
  by (metis inj_on_map_eq_map mset_eq_setD mset_map properties_for_sort sup.idem)

lemma answers_unique:
  assumes "answers q ts r" and "answers q ts r'" and "inj_on time_of (set (selection q ts))"
  shows "r' = r"
proof -
  let ?k = "time_key (order_descending q)"
  obtain os os' where
    os: "mset os = mset (selection q ts)" "sorted (map ?k os)" "res_telegrams r = page q os"
    and os': "mset os' = mset (selection q ts)" "sorted (map ?k os')" "res_telegrams r' = page q os'"
    using assms(1,2) by (auto simp: answers_def)
  have "inj_on ?k (set (selection q ts))" using assms(3) by (auto simp: inj_on_def time_key_def)
  then have "inj_on ?k (set os)" using mset_eq_setD [OF os(1)] by simp
  then have "os = os'" using os os' by (intro sorted_key_unique) auto
  with os(3) os'(3) answers_agree(1,2) [OF assms(1,2)] show ?thesis by (cases r; cases r') auto
qed

section \<open>The latest telegram of each destination\<close>

text \<open>
  The contract of \<open>get_last_unique_telegrams\<close>: for every destination the first stored among its
  telegrams with the greatest time, and each destination once.
\<close>

definition newest_for :: "stored_telegram list \<Rightarrow> string \<Rightarrow> stored_telegram option" where
  "newest_for ts d = first_max time_of (filter (\<lambda>t. destination t = d) ts)"

definition latest_answers :: "(string \<Rightarrow> stored_telegram option) \<Rightarrow> stored_telegram list \<Rightarrow> bool" where
  "latest_answers latest r \<longleftrightarrow> distinct (map destination r) \<and>
     (\<forall>t. t \<in> set r \<longleftrightarrow> latest (destination t) = Some t)"

lemma newest_for_simps [simp]:
  "newest_for [] d = None"
  "newest_for (t # ts) d =
     (if destination t = d then newer time_of (Some t) (newest_for ts d) else newest_for ts d)"
  by (simp_all add: newest_for_def)

lemma newest_for_append:
  "newest_for (ts @ us) d = newer time_of (newest_for ts d) (newest_for us d)"
  by (simp add: newest_for_def first_max_append)

lemma newest_for_destination: "newest_for ts d = Some t \<Longrightarrow> t \<in> set ts \<and> destination t = d"
  by (auto simp: newest_for_def dest: first_max_in)

lemma newest_for_upper:
  "newest_for ts d = Some t \<Longrightarrow> u \<in> set ts \<Longrightarrow> destination u = d \<Longrightarrow> time_of u \<le> time_of t"
  by (auto simp: newest_for_def dest: first_max_upper)

lemma newest_for_None_iff: "newest_for ts d = None \<longleftrightarrow> (\<forall>t \<in> set ts. destination t \<noteq> d)"
  by (auto simp: newest_for_def filter_empty_conv)

text \<open>Two backends holding the same latest telegrams return the same set of them.\<close>

lemma latest_answers_unique:
  assumes "latest_answers f r" and "latest_answers f r'"
  shows "mset r' = mset r"
proof -
  have "distinct r" "distinct r'" using assms by (simp_all add: latest_answers_def distinct_map)
  moreover have "set r' = set r" using assms by (auto simp: latest_answers_def)
  ultimately show ?thesis by (simp add: set_eq_iff_mset_eq_distinct)
qed

end
