(* ===== verification/SqlStore.thy ===== *)
theory SqlStore
  imports Lookup QuerySpec
begin

text \<open>
  The SQL store of src/knx_telegram_store/backends/base_sql.py: its tables, its state, and the
  operations that write. SQLAlchemy and the database are not part of the repository: what the
  code relies on is a parameter \<open>sql_engine\<close>, with the documented behaviour in \<open>wf_engine\<close>.

  A timestamp column holds the instant in microseconds since the epoch: SQLite's integers are
  that number, a \<open>timestamptz\<close> of PostgreSQL is that instant.
\<close>

section \<open>Tables\<close>

text \<open>
  A row of \<open>telegrams\<close> and of \<open>last_ga_telegrams\<close>. In the dict that \<open>store_many\<close> builds
  the timestamp is a datetime and the JSON columns hold Python values; in the database the one is
  an instant and the others are JSON.
\<close>

record ('time, 'json) row =
  r_timestamp :: 'time
  r_source_id :: int
  r_destination_id :: int
  r_telegramtype_id :: int
  r_direction_id :: int
  r_source_name_id :: "int option"
  r_destination_name_id :: "int option"
  r_payload :: 'json
  r_dpt_main :: "int option"
  r_dpt_sub :: "int option"
  r_value :: 'json
  r_value_numeric :: "pyfloat option"
  r_raw_data :: "string option"
  r_data_secure :: "bool option"

type_synonym row_values = "(datetime, pyval) row"
type_synonym telegram_row = "(int, json) row"

record sql_db =
  string_lookup :: "lookup_row list"
  telegrams :: "telegram_row list"
  last_ga_telegrams :: "telegram_row list"
  store_metadata :: "string \<rightharpoonup> string option"

section \<open>What the code relies on\<close>

text \<open>The statements the store executes, for the database to accept or refuse.\<close>

datatype sql_statement =
    LookupInserts "pair list"
  | InsertTelegrams "telegram_row list"
  | UpsertLatest "telegram_row list"
  | SelectRows "int list"
  | DeleteRows
  | CommitWork

text \<open>
  \<open>eng_new_id\<close>: the id of a new lookup row. \<open>eng_set_order\<close>: the order in which Python iterates
  over the set of these elements. \<open>eng_order\<close>: the positions of rows with these keys in the order
  of an ORDER BY. \<open>eng_fail\<close>: the exception with which the database refuses a statement.
  \<open>eng_bind_error\<close>: the StatementError around an exception raised while parameters are bound.
  \<open>eng_double\<close>: what a DOUBLE column keeps of a float (SQLite turns a NaN into NULL).
  \<open>eng_rank\<close>: which of these rows is the first in the order of the texts of their columns.
\<close>

record sql_engine =
  eng_new_id :: "lookup_row list \<Rightarrow> int"
  eng_set_order :: "pair list \<Rightarrow> pair list"
  eng_order :: "int list \<Rightarrow> nat list"
  eng_fail :: "sql_db \<Rightarrow> sql_statement \<Rightarrow> exc option"
  eng_bind_error :: "exc \<Rightarrow> exc"
  eng_double :: "pyfloat option \<Rightarrow> pyfloat option"
  eng_rank :: "telegram_row list \<Rightarrow> nat"

text \<open>A double is a NaN when its exponent bits are all set and its fraction is not zero.\<close>

definition is_nan :: "pyfloat \<Rightarrow> bool" where
  "is_nan f \<longleftrightarrow> (uint f div 2 ^ 52) mod 2 ^ 11 = 2047 \<and> uint f mod 2 ^ 52 \<noteq> 0"

definition is_order :: "int list \<Rightarrow> nat list \<Rightarrow> bool" where
  "is_order keys ps \<longleftrightarrow> mset ps = mset [0..<length keys] \<and> sorted (map (\<lambda>i. keys ! i) ps)"

definition wf_engine :: "sql_engine \<Rightarrow> bool" where
  "wf_engine eng \<longleftrightarrow> fresh_ids (eng_new_id eng) \<and>
     (\<forall>ps. set (eng_set_order eng ps) = set ps \<and> distinct (eng_set_order eng ps)) \<and>
     (\<forall>keys. is_order keys (eng_order eng keys)) \<and>
     (\<forall>e. wf_exc e \<longrightarrow> wf_exc (eng_bind_error eng e) \<and> is_exception (eng_bind_error eng e) \<and>
        (data_error_cause True e \<noteq> None \<longrightarrow> data_error_cause True (eng_bind_error eng e) \<noteq> None)) \<and>
     eng_double eng None = None \<and>
     (\<forall>f. \<not> is_nan f \<longrightarrow> eng_double eng (Some f) = Some f) \<and>
     (\<forall>rows. rows \<noteq> [] \<longrightarrow> eng_rank eng rows < length rows)"

text \<open>The database refuses nothing.\<close>

definition accepting :: "sql_engine \<Rightarrow> bool" where
  "accepting eng \<longleftrightarrow> (\<forall>db st. eng_fail eng db st = None)"

definition execute :: "sql_engine \<Rightarrow> sql_db \<Rightarrow> sql_statement \<Rightarrow> exc + unit" where
  "execute eng db st = (case eng_fail eng db st of None \<Rightarrow> Inr () | Some e \<Rightarrow> Inl e)"

lemma execute_accepting [simp, res_simps]: "accepting eng \<Longrightarrow> execute eng db st = Inr ()"
  by (simp add: execute_def accepting_def)

definition order_by :: "sql_engine \<Rightarrow> ('a \<Rightarrow> int) \<Rightarrow> 'a list \<Rightarrow> 'a list" where
  "order_by eng key xs = map (\<lambda>i. xs ! i) (eng_order eng (map key xs))"

section \<open>The store\<close>

record sql_store =
  sql_db :: sql_db
  lookup_cache :: lookup_cache
  sql_dialect :: dialect
  sql_retention_days :: "int option"
  sql_read_only :: bool

definition empty_db :: sql_db where
  "empty_db = \<lparr>string_lookup = [], telegrams = [], last_ga_telegrams = [],
     store_metadata = Map.empty\<rparr>"

text \<open>\<open>BaseSQLStore.__init__\<close> on a database with these contents.\<close>

definition sql_init :: "sql_db \<Rightarrow> dialect \<Rightarrow> int option \<Rightarrow> bool \<Rightarrow> sql_store" where
  "sql_init db dialect retention_days read_only =
     \<lparr>sql_db = db, lookup_cache = lookup_cache_init, sql_dialect = dialect,
      sql_retention_days = retention_days, sql_read_only = read_only\<rparr>"

definition sql_capabilities :: "sql_store \<Rightarrow> store_capabilities" where
  "sql_capabilities s = store_capabilities\<lparr>supports_time_range := True,
     supports_time_delta := True, supports_pagination := True, supports_count := True,
     supports_size_stats := True, supports_optimize := \<not> sql_read_only s,
     caps_read_only := sql_read_only s, max_storage := None\<rparr>"

definition ensure_writable :: "sql_store \<Rightarrow> exc + unit" where
  "ensure_writable s =
     (if sql_read_only s then Inl (raise_exc KnxTelegramStoreException) else Inr ())"

section \<open>Columns\<close>

text \<open>What a bound timestamp is in the database.\<close>

fun column_instant :: "db_value \<Rightarrow> int" where
  "column_instant (DbInt us) = us"
| "column_instant (DbDatetime d) = instant d"
| "column_instant (DbText d) = wall d"
| "column_instant DbOther = 0"

definition bind_time :: "sql_engine \<Rightarrow> dialect \<Rightarrow> datetime \<Rightarrow> exc + int" where
  "bind_time eng dialect d = (case process_bind_param dialect (DbDatetime d) of
     Inl e \<Rightarrow> Inl (eng_bind_error eng e)
   | Inr v \<Rightarrow> Inr (column_instant v))"

definition bind_json :: "sql_engine \<Rightarrow> pyval \<Rightarrow> exc + json" where
  "bind_json eng v = (case json_dumps v of Inl e \<Rightarrow> Inl (eng_bind_error eng e) | Inr j \<Rightarrow> Inr j)"

text \<open>What the driver hands to \<open>process_result_value\<close>.\<close>

definition column_value :: "dialect \<Rightarrow> int \<Rightarrow> db_value" where
  "column_value dialect us =
     (if dialect = Sqlite then DbInt us else DbDatetime (Datetime us (Some 0)))"

definition result_time :: "dialect \<Rightarrow> int \<Rightarrow> exc + datetime" where
  "result_time dialect us =
     bind_res (process_result_value dialect (column_value dialect us)) (\<lambda>v.
       case v of DbDatetime d \<Rightarrow> Inr d | _ \<Rightarrow> Inl (raise_exc TypeError))"

definition bind_row :: "sql_engine \<Rightarrow> dialect \<Rightarrow> row_values \<Rightarrow> exc + telegram_row" where
  "bind_row eng dialect v =
     bind_res (bind_time eng dialect (r_timestamp v)) (\<lambda>ts.
     bind_res (bind_json eng (r_payload v)) (\<lambda>pl.
     bind_res (bind_json eng (r_value v)) (\<lambda>va.
       Inr \<lparr>r_timestamp = ts, r_source_id = r_source_id v,
            r_destination_id = r_destination_id v, r_telegramtype_id = r_telegramtype_id v,
            r_direction_id = r_direction_id v, r_source_name_id = r_source_name_id v,
            r_destination_name_id = r_destination_name_id v, r_payload = pl,
            r_dpt_main = r_dpt_main v, r_dpt_sub = r_dpt_sub v, r_value = va,
            r_value_numeric = eng_double eng (r_value_numeric v),
            r_raw_data = r_raw_data v, r_data_secure = r_data_secure v\<rparr>)))"

section \<open>store_many\<close>

definition telegram_pairs :: "stored_telegram \<Rightarrow> pair list" where
  "telegram_pairs t =
     [(''source'', source t), (''destination'', destination t),
      (''telegramtype'', telegramtype t), (''direction'', direction t),
      (''source_name'', source_name t), (''destination_name'', destination_name t)]"

text \<open>A subscript of the dict of ids.\<close>

definition subscript :: "('k \<rightharpoonup> 'v) \<Rightarrow> 'k \<Rightarrow> exc + 'v" where
  "subscript m k = (case m k of None \<Rightarrow> Inl (raise_exc KeyError) | Some v \<Rightarrow> Inr v)"

definition make_values :: "(pair \<rightharpoonup> int) \<Rightarrow> stored_telegram \<Rightarrow> exc + row_values" where
  "make_values lookup_ids t =
     bind_res (subscript lookup_ids (''source'', source t)) (\<lambda>src.
     bind_res (subscript lookup_ids (''destination'', destination t)) (\<lambda>dst.
     bind_res (subscript lookup_ids (''telegramtype'', telegramtype t)) (\<lambda>tt.
     bind_res (subscript lookup_ids (''direction'', direction t)) (\<lambda>dir.
     bind_res (subscript lookup_ids (''source_name'', source_name t)) (\<lambda>sn.
     bind_res (subscript lookup_ids (''destination_name'', destination_name t)) (\<lambda>dn.
       Inr \<lparr>r_timestamp = timestamp t, r_source_id = src, r_destination_id = dst,
            r_telegramtype_id = tt, r_direction_id = dir, r_source_name_id = Some sn,
            r_destination_name_id = Some dn, r_payload = payload t,
            r_dpt_main = dpt_main t, r_dpt_sub = dpt_sub t, r_value = telegram_value t,
            r_value_numeric = value_numeric t, r_raw_data = raw_data t,
            r_data_secure = data_secure t\<rparr>))))))"

text \<open>The dict \<open>latest_per_destination\<close> as its items in insertion order.\<close>

fun latest_loop :: "(int \<times> row_values) list \<Rightarrow> row_values list \<Rightarrow> exc + (int \<times> row_values) list" where
  "latest_loop latest [] = Inr latest"
| "latest_loop latest (v # vs) =
     (case map_of latest (r_destination_id v) of
        None \<Rightarrow> latest_loop (AList.update (r_destination_id v) v latest) vs
      | Some cur \<Rightarrow>
          bind_res (dt_less (r_timestamp cur) (r_timestamp v)) (\<lambda>newer.
            latest_loop (if newer then AList.update (r_destination_id v) v latest else latest) vs))"

text \<open>
  INSERT ... ON CONFLICT (destination_id) DO UPDATE ... WHERE excluded.timestamp > timestamp, of
  one row.
\<close>

fun upsert_row :: "telegram_row list \<Rightarrow> telegram_row \<Rightarrow> telegram_row list" where
  "upsert_row [] v = [v]"
| "upsert_row (r # rs) v =
     (if r_destination_id r = r_destination_id v
      then (if r_timestamp r < r_timestamp v then v else r) # rs
      else r # upsert_row rs v)"

text \<open>The body of the transaction: the resolved ids, and the database at the commit.\<close>

definition write_batch ::
  "sql_engine \<Rightarrow> sql_store \<Rightarrow> stored_telegram list \<Rightarrow> exc + (pair \<rightharpoonup> int) \<times> sql_db"
where
  "write_batch eng s ts =
     (let db = sql_db s;
          pairs = eng_set_order eng (concat (map telegram_pairs ts))
      in bind_res (execute eng db (LookupInserts pairs)) (\<lambda>_.
         let (lookup_ids, table) =
               get_or_create_ids (sql_dialect s) (eng_new_id eng) (lookup_cache s) (string_lookup db) pairs
         in bind_res (map_res (make_values lookup_ids) ts) (\<lambda>values.
            bind_res (map_res (bind_row eng (sql_dialect s)) values) (\<lambda>rows.
            bind_res (execute eng db (InsertTelegrams rows)) (\<lambda>_.
            bind_res (latest_loop [] values) (\<lambda>latest.
            bind_res (map_res (bind_row eng (sql_dialect s)) (map snd latest)) (\<lambda>upserts.
            bind_res (execute eng db (UpsertLatest upserts)) (\<lambda>_.
            bind_res (execute eng db CommitWork) (\<lambda>_.
              Inr (lookup_ids,
                db\<lparr>string_lookup := table, telegrams := telegrams db @ rows,
                   last_ga_telegrams := foldl upsert_row (last_ga_telegrams db) upserts\<rparr>))))))))))"

text \<open>An exception rolls the transaction back, and the cache is published after the commit.\<close>

definition sql_store_many ::
  "sql_engine \<Rightarrow> sql_store \<Rightarrow> stored_telegram list \<Rightarrow> (exc + unit) \<times> sql_store"
where
  "sql_store_many eng s ts = wrapped
     (case ensure_writable s of
        Inl e \<Rightarrow> (Inl e, s)
      | Inr _ \<Rightarrow>
          if ts = [] then (Inr (), s)
          else (case write_batch eng s ts of
                  Inl e \<Rightarrow> (Inl e, s)
                | Inr (lookup_ids, db) \<Rightarrow>
                    (Inr (), s\<lparr>sql_db := db, lookup_cache := publish (lookup_cache s) lookup_ids\<rparr>)))"

definition sql_store_one ::
  "sql_engine \<Rightarrow> sql_store \<Rightarrow> stored_telegram \<Rightarrow> (exc + unit) \<times> sql_store" where
  "sql_store_one eng s t = wrapped (sql_store_many eng s [t])"

section \<open>Deleting\<close>

definition sql_evict_older_than ::
  "sql_engine \<Rightarrow> sql_store \<Rightarrow> datetime \<Rightarrow> bool \<Rightarrow> (exc + int) \<times> sql_store"
where
  "sql_evict_older_than eng s cutoff dry_run = wrapped
     (let db = sql_db s in
      case ensure_writable s of
        Inl e \<Rightarrow> (Inl e, s)
      | Inr _ \<Rightarrow>
         (case bind_time eng (sql_dialect s) cutoff of
            Inl e \<Rightarrow> (Inl e, s)
          | Inr c \<Rightarrow>
              let old = filter (\<lambda>r. r_timestamp r < c) (telegrams db) in
              if dry_run then (bind_res (execute eng db (SelectRows [c])) (\<lambda>_. Inr (int (length old))), s)
              else (case bind_res (execute eng db DeleteRows) (\<lambda>_. execute eng db CommitWork) of
                      Inl e \<Rightarrow> (Inl e, s)
                    | Inr _ \<Rightarrow> (Inr (int (length old)),
                        s\<lparr>sql_db := db\<lparr>telegrams := filter (\<lambda>r. \<not> r_timestamp r < c) (telegrams db)\<rparr>\<rparr>))))"

text \<open>\<open>now\<close> is \<open>datetime.now(UTC)\<close> at the call; \<open>timedelta(days=n)\<close> overflows like milliseconds.\<close>

definition sql_expiry_cutoff :: "datetime \<Rightarrow> sql_store \<Rightarrow> exc + datetime option" where
  "sql_expiry_cutoff now s = (case sql_retention_days s of
     None \<Rightarrow> Inr None
   | Some days \<Rightarrow>
       bind_res (timedelta_micros (days * micros_per_day)) (\<lambda>d.
       bind_res (dt_plus now (- d)) (\<lambda>cutoff. Inr (Some cutoff))))"

definition sql_evict_expired ::
  "sql_engine \<Rightarrow> datetime \<Rightarrow> sql_store \<Rightarrow> bool \<Rightarrow> (exc + int) \<times> sql_store"
where
  "sql_evict_expired eng now s dry_run = wrapped
     (case sql_expiry_cutoff now s of
        Inl e \<Rightarrow> (Inl e, s)
      | Inr None \<Rightarrow> (Inr 0, s)
      | Inr (Some cutoff) \<Rightarrow> sql_evict_older_than eng s cutoff dry_run)"

definition sql_clear :: "sql_engine \<Rightarrow> sql_store \<Rightarrow> (exc + unit) \<times> sql_store" where
  "sql_clear eng s = wrapped
     (let db = sql_db s in
      case bind_res (ensure_writable s) (\<lambda>_.
             bind_res (execute eng db DeleteRows) (\<lambda>_. execute eng db CommitWork)) of
        Inl e \<Rightarrow> (Inl e, s)
      | Inr _ \<Rightarrow> (Inr (), s\<lparr>sql_db := db\<lparr>telegrams := [], last_ga_telegrams := []\<rparr>\<rparr>))"

end
