(* ===== verification/SqlWrites.thy ===== *)
theory SqlWrites
  imports SqlStore
begin

text \<open>
  What the SQL store holds, its invariant, and the correctness of the operations that write: a
  batch appends the stored form of its telegrams, keeps the newest telegram of each destination,
  and takes effect completely or not at all.
\<close>

section \<open>The telegrams a database holds\<close>

text \<open>The join of an id with \<open>string_lookup\<close> on id and category.\<close>

definition lookup_value :: "lookup_row list \<Rightarrow> string \<Rightarrow> int \<Rightarrow> string option" where
  "lookup_value table category i =
     map_option lk_value (find (\<lambda>r. lk_id r = i \<and> lk_category r = category) table)"

text \<open>
  A LEFT JOIN of a required id without a lookup row gives NULL; the empty string stands for it
  here, and the invariant below rules it out. For the names the code itself writes \<open>or ""\<close>.
\<close>

definition joined :: "lookup_row list \<Rightarrow> string \<Rightarrow> int option \<Rightarrow> string" where
  "joined table category i =
     (case Option.bind i (lookup_value table category) of None \<Rightarrow> [] | Some v \<Rightarrow> v)"

definition row_telegram :: "lookup_row list \<Rightarrow> telegram_row \<Rightarrow> stored_telegram" where
  "row_telegram table r =
     \<lparr>timestamp = Datetime (r_timestamp r) (Some 0),
      source = joined table ''source'' (Some (r_source_id r)),
      destination = joined table ''destination'' (Some (r_destination_id r)),
      telegramtype = joined table ''telegramtype'' (Some (r_telegramtype_id r)),
      direction = joined table ''direction'' (Some (r_direction_id r)),
      payload = json_loads (r_payload r), dpt_main = r_dpt_main r, dpt_sub = r_dpt_sub r,
      telegram_value = json_loads (r_value r), value_numeric = r_value_numeric r,
      raw_data = r_raw_data r, data_secure = r_data_secure r,
      source_name = joined table ''source_name'' (r_source_name_id r),
      destination_name = joined table ''destination_name'' (r_destination_name_id r)\<rparr>"

definition contents :: "sql_store \<Rightarrow> stored_telegram list" where
  "contents s = map (row_telegram (string_lookup (sql_db s))) (telegrams (sql_db s))"

definition latest_of :: "sql_store \<Rightarrow> string \<Rightarrow> stored_telegram option" where
  "latest_of s = newest_for (map (row_telegram (string_lookup (sql_db s))) (last_ga_telegrams (sql_db s)))"

text \<open>What becomes of a telegram: its time in UTC, its tuples lists.\<close>

definition stored_form :: "stored_telegram \<Rightarrow> stored_telegram" where
  "stored_form t = t\<lparr>timestamp := to_utc (timestamp t), payload := as_json (payload t),
     telegram_value := as_json (telegram_value t)\<rparr>"

definition storable :: "stored_telegram \<Rightarrow> bool" where
  "storable t \<longleftrightarrow> is_aware (timestamp t) \<and> in_range (time_of t) \<and>
     json_ok (payload t) \<and> json_ok (telegram_value t) \<and>
     (case value_numeric t of None \<Rightarrow> True | Some f \<Rightarrow> \<not> is_nan f)"

section \<open>The invariant\<close>

definition interned :: "lookup_row list \<Rightarrow> telegram_row \<Rightarrow> bool" where
  "interned table r \<longleftrightarrow>
     lookup_value table ''source'' (r_source_id r) \<noteq> None \<and>
     lookup_value table ''destination'' (r_destination_id r) \<noteq> None \<and>
     lookup_value table ''telegramtype'' (r_telegramtype_id r) \<noteq> None \<and>
     lookup_value table ''direction'' (r_direction_id r) \<noteq> None \<and>
     (\<forall>i \<in> set_option (r_source_name_id r). lookup_value table ''source_name'' i \<noteq> None) \<and>
     (\<forall>i \<in> set_option (r_destination_name_id r). lookup_value table ''destination_name'' i \<noteq> None)"

definition row_ok :: "lookup_row list \<Rightarrow> telegram_row \<Rightarrow> bool" where
  "row_ok table r \<longleftrightarrow> interned table r \<and> in_range (r_timestamp r)"

definition sql_inv :: "sql_store \<Rightarrow> bool" where
  "sql_inv s \<longleftrightarrow> (let db = sql_db s; table = string_lookup db in
     lookup_ok table \<and> cache_ok (lookup_cache s) table \<and>
     list_all (row_ok table) (telegrams db) \<and> list_all (row_ok table) (last_ga_telegrams db) \<and>
     distinct (map r_destination_id (last_ga_telegrams db)))"

lemma sql_invD:
  assumes "sql_inv s"
  shows "lookup_ok (string_lookup (sql_db s))"
    and "cache_ok (lookup_cache s) (string_lookup (sql_db s))"
    and "r \<in> set (telegrams (sql_db s)) \<Longrightarrow> row_ok (string_lookup (sql_db s)) r"
    and "r \<in> set (last_ga_telegrams (sql_db s)) \<Longrightarrow> row_ok (string_lookup (sql_db s)) r"
    and "distinct (map r_destination_id (last_ga_telegrams (sql_db s)))"
  using assms by (simp_all add: sql_inv_def Let_def list_all_iff)

lemma sql_inv_init: "sql_inv (sql_init empty_db dialect days ro)"
  by (simp add: sql_inv_def sql_init_def empty_db_def lookup_ok_def cache_ok_def lookup_cache_init_def)

section \<open>Joins\<close>

lemma lookup_value_has_id: "lookup_value table c i = Some v \<Longrightarrow> has_id table (c, v) i"
  by (auto simp: lookup_value_def has_id_def lk_pair_def find_Some_iff intro: nth_mem)

lemma has_id_lookup_value:
  assumes "lookup_ok table" and "has_id table (c, v) i"
  shows "lookup_value table c i = Some v"
proof (cases "lookup_value table c i")
  case None
  with assms(2) show ?thesis by (auto simp: lookup_value_def has_id_def lk_pair_def find_None_iff)
next
  case (Some w)
  then have "has_id table (c, w) i" by (rule lookup_value_has_id)
  with has_id_unique(2) [OF assms] have "(c, w) = (c, v)" by blast
  with Some show ?thesis by simp
qed

lemma lookup_value_iff: "lookup_ok table \<Longrightarrow> lookup_value table c i = Some v \<longleftrightarrow> has_id table (c, v) i"
  using lookup_value_has_id has_id_lookup_value by metis

lemma find_append: "find P (xs @ ys) = (case find P xs of None \<Rightarrow> find P ys | Some x \<Rightarrow> Some x)"
  by (induction xs) auto

lemma lookup_value_append: "lookup_value table c i = Some v \<Longrightarrow> lookup_value (table @ new) c i = Some v"
  by (auto simp: lookup_value_def find_append)

lemma joined_append:
  "(\<forall>i \<in> set_option io. lookup_value table c i \<noteq> None) \<Longrightarrow> joined (table @ new) c io = joined table c io"
  by (cases io) (auto simp: joined_def lookup_value_append)

lemma interned_append: "interned table r \<Longrightarrow> interned (table @ new) r"
  unfolding interned_def by (auto simp: lookup_value_append)

lemma row_ok_append: "row_ok table r \<Longrightarrow> row_ok (table @ new) r"
  by (simp add: row_ok_def interned_append)

lemma row_telegram_append: "interned table r \<Longrightarrow> row_telegram (table @ new) r = row_telegram table r"
  by (simp add: row_telegram_def interned_def joined_append)

lemma time_of_row_telegram [simp]: "time_of (row_telegram table r) = r_timestamp r"
  by (simp add: row_telegram_def)

lemma stored_form_simps [simp]:
  "time_of (stored_form t) = time_of t"
  "destination (stored_form t) = destination t"
  "is_aware (timestamp (stored_form t))"
  by (simp_all add: stored_form_def)

lemma stored_form_idem [simp]: "stored_form (stored_form t) = stored_form t"
  by (simp add: stored_form_def)

lemma storable_stored_form: "storable t \<Longrightarrow> storable (stored_form t)"
  by (simp add: storable_def stored_form_def)

section \<open>One row\<close>

definition values_for :: "lookup_row list \<Rightarrow> stored_telegram \<Rightarrow> row_values \<Rightarrow> bool" where
  "values_for table t v \<longleftrightarrow> (\<exists>src dst tt dir sn dn.
     v = \<lparr>r_timestamp = timestamp t, r_source_id = src, r_destination_id = dst,
          r_telegramtype_id = tt, r_direction_id = dir, r_source_name_id = Some sn,
          r_destination_name_id = Some dn, r_payload = payload t,
          r_dpt_main = dpt_main t, r_dpt_sub = dpt_sub t, r_value = telegram_value t,
          r_value_numeric = value_numeric t, r_raw_data = raw_data t,
          r_data_secure = data_secure t\<rparr> \<and>
     has_id table (''source'', source t) src \<and> has_id table (''destination'', destination t) dst \<and>
     has_id table (''telegramtype'', telegramtype t) tt \<and> has_id table (''direction'', direction t) dir \<and>
     has_id table (''source_name'', source_name t) sn \<and>
     has_id table (''destination_name'', destination_name t) dn)"

lemma values_for_time: "values_for table t v \<Longrightarrow> r_timestamp v = timestamp t"
  by (auto simp: values_for_def)

lemma make_values_ok:
  assumes "\<forall>p \<in> set (telegram_pairs t). \<exists>i. ids p = Some i \<and> has_id table p i"
  shows "\<exists>v. make_values ids t = Inr v \<and> values_for table t v"
  using assms by (auto simp: telegram_pairs_def make_values_def subscript_def values_for_def)

lemma bind_time_Inr [res_simps]: "in_range (instant d) \<Longrightarrow> bind_time eng dialect d = Inr (instant d)"
  by (cases "utcoffset d") (auto simp: bind_time_def astimezone_utc_def instant_def)

lemma bind_json_Inr: "json_ok v \<Longrightarrow> \<exists>j. bind_json eng v = Inr j \<and> json_loads j = as_json v"
  using json_dumps_Inr [of v] by (auto simp: bind_json_def)

lemma storableD:
  assumes "storable t"
  shows "is_aware (timestamp t)" and "in_range (time_of t)"
    and "json_ok (payload t)" and "json_ok (telegram_value t)"
  using assms by (simp_all add: storable_def)

lemma eng_double_storable:
  "wf_engine eng \<Longrightarrow> storable t \<Longrightarrow> eng_double eng (value_numeric t) = value_numeric t"
  by (cases "value_numeric t") (simp_all add: wf_engine_def storable_def)

lemma bind_row_ok:
  assumes wf: "wf_engine eng" and ok: "lookup_ok table" and t: "storable t"
    and v: "values_for table t v"
  shows "\<exists>r. bind_row eng dialect v = Inr r \<and> row_ok table r \<and> r_timestamp r = time_of t \<and>
    r_destination_id r = r_destination_id v \<and> row_telegram table r = stored_form t"
proof -
  obtain pl va where json: "bind_json eng (payload t) = Inr pl" "json_loads pl = as_json (payload t)"
    "bind_json eng (telegram_value t) = Inr va" "json_loads va = as_json (telegram_value t)"
    using bind_json_Inr storableD(3,4) [OF t] by metis
  note time = bind_time_Inr [OF storableD(2) [OF t], of eng dialect]
  show ?thesis
    using v json time eng_double_storable [OF wf t] storableD(2) [OF t]
    by (auto simp: values_for_def bind_row_def row_ok_def interned_def row_telegram_def joined_def
        has_id_lookup_value [OF ok] stored_form_def to_utc_def)
qed

section \<open>The latest of a batch\<close>

abbreviation values_time :: "row_values \<Rightarrow> int" where
  "values_time v \<equiv> instant (r_timestamp v)"

definition to_destination :: "int \<Rightarrow> ('t, 'j) row list \<Rightarrow> ('t, 'j) row list" where
  "to_destination d rs = filter (\<lambda>r. r_destination_id r = d) rs"

lemma to_destination_simps [simp]:
  "to_destination d [] = []"
  "to_destination d (r # rs) = (if r_destination_id r = d then r # to_destination d rs else to_destination d rs)"
  "to_destination d (rs @ rs') = to_destination d rs @ to_destination d rs'"
  by (simp_all add: to_destination_def)

definition keyed :: "(int \<times> row_values) list \<Rightarrow> bool" where
  "keyed acc \<longleftrightarrow> distinct (map fst acc) \<and>
     list_all (\<lambda>(d, v). r_destination_id v = d \<and> is_aware (r_timestamp v)) acc"

lemma set_update_subset: "p \<in> set (AList.update k v al) \<Longrightarrow> p = (k, v) \<or> p \<in> set al"
  by (induction al) (auto split: if_splits)

lemma keyed_update:
  "keyed acc \<Longrightarrow> is_aware (r_timestamp v) \<Longrightarrow> keyed (AList.update (r_destination_id v) v acc)"
  unfolding keyed_def list_all_iff
  by (intro conjI ballI distinct_update) (auto dest!: set_update_subset)

lemma latest_loop_Inr:
  assumes "\<forall>v \<in> set vs. is_aware (r_timestamp v)" and "keyed acc"
  shows "\<exists>acc'. latest_loop acc vs = Inr acc' \<and> keyed acc' \<and>
    snd ` set acc' \<subseteq> snd ` set acc \<union> set vs \<and>
    (\<forall>d. map_of acc' d = newer values_time (map_of acc d) (first_max values_time (to_destination d vs)))"
  using assms
proof (induction vs arbitrary: acc)
  case Nil
  then show ?case by simp
next
  case (Cons v vs)
  let ?upd = "AList.update (r_destination_id v) v acc"
  have upd: "keyed ?upd" using Cons.prems by (simp add: keyed_update)
  have sub: "snd ` set ?upd \<subseteq> insert v (snd ` set acc)" by (auto dest!: set_update_subset)
  have aware: "\<forall>v \<in> set vs. is_aware (r_timestamp v)" using Cons.prems(1) by simp
  show ?case
  proof (cases "map_of acc (r_destination_id v)")
    case None
    obtain acc' where acc': "latest_loop ?upd vs = Inr acc'" "keyed acc'"
      "snd ` set acc' \<subseteq> snd ` set ?upd \<union> set vs"
      "\<forall>d. map_of acc' d = newer values_time (map_of ?upd d) (first_max values_time (to_destination d vs))"
      using Cons.IH [OF aware upd] by blast
    have "snd ` set acc' \<subseteq> snd ` set acc \<union> set (v # vs)" using acc'(3) sub by auto
    with None acc' show ?thesis by (auto simp: update_conv' newer_assoc [symmetric])
  next
    case (Some c)
    then have "(r_destination_id v, c) \<in> set acc" by (rule map_of_SomeD)
    with Cons.prems(2) have "is_aware (r_timestamp c)" by (auto simp: keyed_def list_all_iff)
    then have less: "dt_less (r_timestamp c) (r_timestamp v) = Inr (values_time c < values_time v)"
      using Cons.prems(1) by (simp add: dt_compare comparable_aware)
    let ?acc = "if values_time c < values_time v then ?upd else acc"
    have "keyed ?acc" using upd Cons.prems(2) by simp
    with Cons.IH [of ?acc] aware obtain acc' where
      acc': "latest_loop ?acc vs = Inr acc'" "keyed acc'" "snd ` set acc' \<subseteq> snd ` set ?acc \<union> set vs"
        "\<forall>d. map_of acc' d = newer values_time (map_of ?acc d) (first_max values_time (to_destination d vs))"
      by blast
    have "newer values_time (map_of ?acc d) (first_max values_time (to_destination d vs)) =
      newer values_time (map_of acc d) (first_max values_time (to_destination d (v # vs)))" for d
      using Some by (auto simp: update_conv' newer_assoc [symmetric])
    moreover have "snd ` set acc' \<subseteq> snd ` set acc \<union> set (v # vs)"
      using subset_trans [OF acc'(3) Un_mono [OF _ subset_refl]] sub by (cases "values_time c < values_time v") auto
    ultimately show ?thesis using acc' Some less by simp
  qed
qed

section \<open>The upsert\<close>

lemma first_max_map: "first_max f (map g xs) = map_option g (first_max (\<lambda>x. f (g x)) xs)"
  by (induction xs) (auto simp: newer_def split: option.split)

lemma upsert_row_destinations:
  "r_destination_id ` set (upsert_row rs v) = insert (r_destination_id v) (r_destination_id ` set rs)"
  by (induction rs) auto

lemma upsert_row_distinct:
  "distinct (map r_destination_id rs) \<Longrightarrow> distinct (map r_destination_id (upsert_row rs v))"
proof (induction rs)
  case (Cons r rs)
  then show ?case
    using upsert_row_destinations [of rs v]
    by (cases "r_destination_id r = r_destination_id v") (auto simp flip: set_map)
qed simp

lemma upsert_row_set: "r \<in> set (upsert_row rs v) \<Longrightarrow> r = v \<or> r \<in> set rs"
  by (induction rs) (auto split: if_splits)

lemma upsert_row_latest:
  "distinct (map r_destination_id rs) \<Longrightarrow>
   first_max r_timestamp (to_destination d (upsert_row rs v)) =
     newer r_timestamp (first_max r_timestamp (to_destination d rs))
       (first_max r_timestamp (to_destination d [v]))"
proof (induction rs)
  case (Cons r rs)
  show ?case
  proof (cases "r_destination_id r = r_destination_id v")
    case True
    then have "to_destination (r_destination_id v) rs = []"
      using Cons.prems unfolding to_destination_def filter_empty_conv by (metis distinct.simps(2) imageI list.set_map list.simps(9))
    with True show ?thesis by (cases "r_destination_id v = d") auto
  next
    case False
    with Cons show ?thesis by (auto simp: newer_assoc)
  qed
qed simp

lemma upsert_rows_latest:
  "distinct (map r_destination_id rs) \<Longrightarrow>
   first_max r_timestamp (to_destination d (foldl upsert_row rs us)) =
     newer r_timestamp (first_max r_timestamp (to_destination d rs))
       (first_max r_timestamp (to_destination d us)) \<and>
   distinct (map r_destination_id (foldl upsert_row rs us)) \<and>
   set (foldl upsert_row rs us) \<subseteq> set rs \<union> set us"
proof (induction us arbitrary: rs)
  case Nil
  then show ?case by simp
next
  case (Cons u us)
  have "first_max r_timestamp (to_destination d [u]) = (if r_destination_id u = d then Some u else None)"
    by simp
  moreover have "set (upsert_row rs u) \<subseteq> insert u (set rs)" by (auto dest: upsert_row_set)
  ultimately show ?case
    using Cons.IH [OF upsert_row_distinct [OF Cons.prems]] upsert_row_latest [OF Cons.prems, of d u]
    by (auto simp: newer_assoc)
qed

text \<open>Among items with distinct keys the greatest of a key is the item itself.\<close>

lemma keyed_to_destination:
  "keyed acc \<Longrightarrow> first_max f (to_destination d (map snd acc)) = map_of acc d"
proof (induction acc)
  case (Cons p acc)
  then have *: "keyed acc" "r_destination_id (snd p) = fst p" "fst p \<notin> fst ` set acc"
    by (auto simp: keyed_def list_all_iff)
  show ?case
  proof (cases "fst p = d")
    case True
    then have "map_of acc d = None" using *(3) by (simp add: map_of_eq_None_iff)
    with True Cons.IH [OF *(1)] *(2) show ?thesis by (cases p) simp
  next
    case False
    with Cons.IH [OF *(1)] *(2) show ?thesis by (cases p) simp
  qed
qed simp

section \<open>A batch of values\<close>

lemma has_id_of_append: "has_id table p i \<Longrightarrow> table' = table @ new \<Longrightarrow> has_id table' p i"
  by (simp add: has_id_append)

lemma map_res_exists:
  assumes "\<forall>x \<in> set xs. \<exists>y. f x = Inr y \<and> Q x y"
  shows "\<exists>g. map_res f xs = Inr (map g xs) \<and> (\<forall>x \<in> set xs. f x = Inr (g x) \<and> Q x (g x))"
proof -
  from assms obtain g where "\<forall>x \<in> set xs. f x = Inr (g x) \<and> Q x (g x)" by metis
  then show ?thesis by (intro exI [of _ g]) (auto intro: map_res_Inr)
qed

lemma destination_iff:
  assumes "lookup_ok table" and "has_id table (''destination'', d) i" and "interned table r"
  shows "destination (row_telegram table r) = d \<longleftrightarrow> r_destination_id r = i"
proof
  assume "r_destination_id r = i"
  then show "destination (row_telegram table r) = d"
    using has_id_lookup_value [OF assms(1,2)] by (simp add: row_telegram_def joined_def)
next
  assume d: "destination (row_telegram table r) = d"
  from assms(3) obtain v where v: "lookup_value table ''destination'' (r_destination_id r) = Some v"
    by (auto simp: interned_def)
  then have "v = d" using d by (simp add: row_telegram_def joined_def)
  with lookup_value_has_id [OF v] have "has_id table (''destination'', d) (r_destination_id r)" by simp
  then show "r_destination_id r = i" using has_id_unique(1) [OF assms(1,2)] by blast
qed

text \<open>Per destination, choosing among rows is choosing among the telegrams they hold.\<close>

lemma newest_for_rows:
  assumes "lookup_ok table" and "has_id table (''destination'', d) i"
    and "\<forall>r \<in> set rs. interned table r"
  shows "newest_for (map (row_telegram table) rs) d =
    map_option (row_telegram table) (first_max r_timestamp (to_destination i rs))"
proof -
  have "filter (\<lambda>t. destination t = d) (map (row_telegram table) rs) =
    map (row_telegram table) (to_destination i rs)"
    using assms(3) destination_iff [OF assms(1,2)]
    unfolding to_destination_def filter_map by (intro arg_cong [where f = "map _"] filter_cong) auto
  then show ?thesis by (simp add: newest_for_def first_max_map)
qed

lemma newest_for_unknown:
  assumes "\<forall>i. \<not> has_id table (''destination'', d) i" and "\<forall>r \<in> set rs. interned table r"
  shows "newest_for (map (row_telegram table) rs) d = None"
proof -
  have "destination (row_telegram table r) \<noteq> d" if r: "r \<in> set rs" for r
  proof
    assume d: "destination (row_telegram table r) = d"
    from assms(2) r obtain v where v: "lookup_value table ''destination'' (r_destination_id r) = Some v"
      by (auto simp: interned_def)
    then have "v = d" using d by (simp add: row_telegram_def joined_def)
    with lookup_value_has_id [OF v] assms(1) show False by blast
  qed
  then show ?thesis by (auto simp: newest_for_None_iff)
qed

lemma newest_for_upsert:
  assumes ok: "lookup_ok table" and int: "\<forall>r \<in> set old \<union> set rows \<union> set new. interned table r"
    and step: "\<forall>i. first_max r_timestamp (to_destination i new) =
      newer r_timestamp (first_max r_timestamp (to_destination i old))
        (first_max r_timestamp (to_destination i rows))"
  shows "newest_for (map (row_telegram table) new) d =
    newer time_of (newest_for (map (row_telegram table) old) d)
      (newest_for (map (row_telegram table) rows) d)"
proof (cases "\<exists>i. has_id table (''destination'', d) i")
  case True
  then obtain i where i: "has_id table (''destination'', d) i" by blast
  have "map_option (row_telegram table) (newer r_timestamp x y) =
    newer time_of (map_option (row_telegram table) x) (map_option (row_telegram table) y)" for x y
    by (cases x; cases y) auto
  then show ?thesis using newest_for_rows [OF ok i] int step by simp
next
  case False
  then show ?thesis using newest_for_unknown int by simp
qed

section \<open>The batch\<close>

lemma execute_Inr: "accepting eng \<Longrightarrow> bind_res (execute eng db st) f = f ()"
  by simp

text \<open>The rows a batch writes: one per telegram, and the latest of each destination among them.\<close>

text \<open>The row that is bound for the values of a telegram.\<close>

definition bound_to :: "sql_engine \<Rightarrow> dialect \<Rightarrow> lookup_row list \<Rightarrow> row_values \<Rightarrow> telegram_row \<Rightarrow> bool" where
  "bound_to eng dialect table v r \<longleftrightarrow> bind_row eng dialect v = Inr r \<and> row_ok table r \<and>
     r_timestamp r = values_time v \<and> r_destination_id r = r_destination_id v"

lemma batch_bound:
  assumes wf: "wf_engine eng" and ok: "lookup_ok table"
    and ids: "\<forall>t \<in> set ts. \<forall>p \<in> set (telegram_pairs t). \<exists>i. ids p = Some i \<and> has_id table p i"
    and ts: "\<forall>t \<in> set ts. storable t"
  shows "\<exists>mk g. map_res (make_values ids) ts = Inr (map mk ts) \<and>
    (\<forall>t \<in> set ts. is_aware (r_timestamp (mk t)) \<and> bound_to eng dialect table (mk t) (g (mk t)) \<and>
      row_telegram table (g (mk t)) = stored_form t)"
proof -
  have "\<forall>t \<in> set ts. \<exists>v. make_values ids t = Inr v \<and> values_for table t v"
    using make_values_ok ids by blast
  from map_res_exists [OF this] obtain mk where mk: "map_res (make_values ids) ts = Inr (map mk ts)"
    "\<forall>t \<in> set ts. values_for table t (mk t)" by blast
  have "is_aware (r_timestamp (mk t)) \<and> bound_to eng dialect table (mk t) (projr (bind_row eng dialect (mk t))) \<and>
      row_telegram table (projr (bind_row eng dialect (mk t))) = stored_form t" if t: "t \<in> set ts" for t
  proof -
    have v: "values_for table t (mk t)" "storable t" using mk(2) ts t by blast+
    then show ?thesis
      using bind_row_ok [OF wf ok v(2,1), of dialect] storableD(1) [OF v(2)]
      by (auto simp: bound_to_def values_for_time)
  qed
  with mk(1) show ?thesis
    by (intro exI [of _ mk] exI [of _ "\<lambda>v. projr (bind_row eng dialect v)"]) simp
qed

lemma bound_rows:
  "\<forall>v \<in> set vs. bound_to eng dialect table v (g v) \<Longrightarrow> map_res (bind_row eng dialect) vs = Inr (map g vs)"
  by (intro map_res_Inr) (simp add: bound_to_def)

lemma bound_max:
  assumes "\<forall>v \<in> set vs. bound_to eng dialect table v (g v)"
  shows "first_max r_timestamp (to_destination d (map g vs)) = map_option g (first_max values_time (to_destination d vs))"
proof -
  have "to_destination d (map g vs) = map g (to_destination d vs)"
    using assms unfolding to_destination_def filter_map bound_to_def
    by (intro arg_cong [where f = "map g"] filter_cong) auto
  moreover have "first_max (\<lambda>v. r_timestamp (g v)) us = first_max values_time us" if "set us \<subseteq> set vs" for us
    using assms that by (induction us) (auto simp: bound_to_def newer_def split: option.split dest: first_max_in)
  ultimately show ?thesis by (simp add: first_max_map to_destination_def subset_eq)
qed

lemma batch_rows:
  assumes wf: "wf_engine eng" and ok: "lookup_ok table"
    and ids: "\<forall>t \<in> set ts. \<forall>p \<in> set (telegram_pairs t). \<exists>i. ids p = Some i \<and> has_id table p i"
    and ts: "\<forall>t \<in> set ts. storable t"
  shows "\<exists>values rows latest upserts.
    map_res (make_values ids) ts = Inr values \<and>
    map_res (bind_row eng dialect) values = Inr rows \<and>
    latest_loop [] values = Inr latest \<and>
    map_res (bind_row eng dialect) (map snd latest) = Inr upserts \<and>
    (\<forall>r \<in> set rows \<union> set upserts. row_ok table r) \<and>
    map (row_telegram table) rows = map stored_form ts \<and>
    (\<forall>d. first_max r_timestamp (to_destination d upserts) = first_max r_timestamp (to_destination d rows))"
proof -
  obtain mk g where mk: "map_res (make_values ids) ts = Inr (map mk ts)"
    "\<forall>t \<in> set ts. is_aware (r_timestamp (mk t)) \<and> bound_to eng dialect table (mk t) (g (mk t)) \<and>
      row_telegram table (g (mk t)) = stored_form t"
    using batch_bound [OF assms] by blast
  let ?vals = "map mk ts"
  have all: "\<forall>v \<in> set ?vals. bound_to eng dialect table v (g v)" using mk(2) by simp
  have "\<forall>v \<in> set ?vals. is_aware (r_timestamp v)" using mk(2) by simp
  moreover have "keyed []" by (simp add: keyed_def)
  ultimately obtain latest where latest: "latest_loop [] ?vals = Inr latest" "keyed latest"
    "snd ` set latest \<subseteq> set ?vals" "\<forall>d. map_of latest d = first_max values_time (to_destination d ?vals)"
    using latest_loop_Inr [of ?vals "[]"] by auto
  have last: "\<forall>v \<in> set (map snd latest). bound_to eng dialect table v (g v)" using all latest(3) by auto
  have "first_max r_timestamp (to_destination d (map g (map snd latest))) = first_max r_timestamp (to_destination d (map g ?vals))" for d
    by (simp only: bound_max [OF last] bound_max [OF all] keyed_to_destination [OF latest(2)] latest(4) [rule_format])
  moreover have "\<forall>r \<in> set (map g ?vals) \<union> set (map g (map snd latest)). row_ok table r"
    using all last unfolding bound_to_def set_map by blast
  moreover have "map (row_telegram table) (map g ?vals) = map stored_form ts" using mk(2) by simp
  ultimately show ?thesis using mk(1) bound_rows [OF all] latest(1) bound_rows [OF last] by blast
qed

text \<open>What a successful batch leaves behind.\<close>

definition extends :: "sql_store \<Rightarrow> stored_telegram list \<Rightarrow> sql_store \<Rightarrow> bool" where
  "extends s ts s' \<longleftrightarrow> sql_inv s' \<and> contents s' = contents s @ map stored_form ts \<and>
     (\<forall>d. latest_of s' d = newer time_of (latest_of s d) (newest_for (map stored_form ts) d)) \<and>
     sql_dialect s' = sql_dialect s \<and> sql_read_only s' = sql_read_only s \<and>
     sql_retention_days s' = sql_retention_days s"

text \<open>
  The tables after a batch: more strings, the new rows behind the old ones, and summaries that for
  each destination are the newer of the old row and the batch.
\<close>

lemma batch_written:
  assumes inv: "sql_inv s" and table: "lookup_ok table" "table = string_lookup (sql_db s) @ new"
    and cache: "\<forall>p i. ids p = Some i \<longrightarrow> has_id table p i"
    and rows: "\<forall>r \<in> set rows \<union> set upserts. row_ok table r" "map (row_telegram table) rows = map stored_form ts"
      "\<forall>d. first_max r_timestamp (to_destination d upserts) = first_max r_timestamp (to_destination d rows)"
  shows "extends s ts (s\<lparr>sql_db := (sql_db s)\<lparr>string_lookup := table, telegrams := telegrams (sql_db s) @ rows,
    last_ga_telegrams := foldl upsert_row (last_ga_telegrams (sql_db s)) upserts\<rparr>, lookup_cache := publish (lookup_cache s) ids\<rparr>)"
    (is "extends s ts ?s'")
proof -
  let ?rt = row_telegram and ?old = "string_lookup (sql_db s)" and ?lga = "last_ga_telegrams (sql_db s)"
  let ?lga' = "foldl upsert_row ?lga upserts"
  note inv = sql_invD [OF inv]
  note upsert = upsert_rows_latest [OF inv(5), of _ upserts]
  have old_ok: "row_ok table r" if "r \<in> set (telegrams (sql_db s)) \<union> set ?lga" for r
    using inv(3,4) that row_ok_append [of ?old r new] table(2) by auto
  have lga_ok: "\<forall>r \<in> set ?lga \<union> set rows \<union> set ?lga'. row_ok table r"
    using old_ok rows(1) upsert by blast
  have "cache_ok (publish (lookup_cache s) ids) table"
    using publish_ok [OF inv(2)] cache table(2) by blast
  then have "sql_inv ?s'"
    using table(1) old_ok rows(1) lga_ok upsert by (auto simp: sql_inv_def Let_def list_all_iff)
  moreover have same: "?rt table r = ?rt ?old r" if "r \<in> set (telegrams (sql_db s)) \<union> set ?lga" for r
    using row_telegram_append [of ?old r new] inv(3,4) that table(2) by (auto simp: row_ok_def)
  then have "contents ?s' = contents s @ map stored_form ts"
    using rows(2) by (simp add: contents_def)
  moreover have "latest_of ?s' d = newer time_of (latest_of s d) (newest_for (map stored_form ts) d)" for d
  proof -
    have "\<forall>i. first_max r_timestamp (to_destination i ?lga') =
      newer r_timestamp (first_max r_timestamp (to_destination i ?lga)) (first_max r_timestamp (to_destination i rows))"
      using upsert rows(3) by simp
    moreover have "\<forall>r \<in> set ?lga \<union> set rows \<union> set ?lga'. interned table r"
      using lga_ok by (simp add: row_ok_def)
    ultimately have "newest_for (map (?rt table) ?lga') d =
      newer time_of (newest_for (map (?rt table) ?lga) d) (newest_for (map stored_form ts) d)"
      using newest_for_upsert [OF table(1), of ?lga rows ?lga' d] rows(2) by simp
    moreover have "map (?rt table) ?lga = map (?rt ?old) ?lga" using same by simp
    ultimately have "newest_for (map (?rt table) ?lga') d =
      newer time_of (newest_for (map (?rt ?old) ?lga) d) (newest_for (map stored_form ts) d)"
      by (simp only:)
    then show ?thesis by (simp add: latest_of_def)
  qed
  ultimately show ?thesis by (simp add: extends_def)
qed

lemma write_batch_ok:
  assumes wf: "wf_engine eng" and acc: "accepting eng" and inv: "sql_inv s"
    and ts: "\<forall>t \<in> set ts. storable t"
  shows "\<exists>ids db. write_batch eng s ts = Inr (ids, db) \<and>
    extends s ts (s\<lparr>sql_db := db, lookup_cache := publish (lookup_cache s) ids\<rparr>)"
proof -
  let ?old = "string_lookup (sql_db s)"
  let ?pairs = "eng_set_order eng (concat (map telegram_pairs ts))"
  note inv' = sql_invD [OF inv]
  obtain ids table where res: "get_or_create_ids (sql_dialect s) (eng_new_id eng) (lookup_cache s) ?old ?pairs =
    (ids, table)" by (cases "get_or_create_ids (sql_dialect s) (eng_new_id eng) (lookup_cache s) ?old ?pairs")
  have fresh: "fresh_ids (eng_new_id eng)" using wf by (simp add: wf_engine_def)
  note got = get_or_create_ids_ok [OF inv'(1,2) fresh res]
  obtain new where new: "table = ?old @ new" using got(2) by blast
  have "set ?pairs = set (concat (map telegram_pairs ts))" using wf by (simp add: wf_engine_def)
  then have ids: "\<forall>t \<in> set ts. \<forall>p \<in> set (telegram_pairs t). \<exists>i. ids p = Some i \<and> has_id table p i"
    using got(3) by auto
  obtain vals rows latest upserts where batch:
    "map_res (make_values ids) ts = Inr vals" "map_res (bind_row eng (sql_dialect s)) vals = Inr rows"
    "latest_loop [] vals = Inr latest"
    "map_res (bind_row eng (sql_dialect s)) (map snd latest) = Inr upserts"
    "\<forall>r \<in> set rows \<union> set upserts. row_ok table r" "map (row_telegram table) rows = map stored_form ts"
    "\<forall>d. first_max r_timestamp (to_destination d upserts) = first_max r_timestamp (to_destination d rows)"
    using batch_rows [OF wf got(1) ids ts, of "sql_dialect s"] by blast
  have "write_batch eng s ts = Inr (ids, (sql_db s)\<lparr>string_lookup := table, telegrams := telegrams (sql_db s) @ rows,
      last_ga_telegrams := foldl upsert_row (last_ga_telegrams (sql_db s)) upserts\<rparr>)"
    using batch(1-4) acc by (simp add: write_batch_def res Let_def)
  with batch_written [OF inv got(1) new got(4) batch(5-7)] show ?thesis by blast
qed

lemma extends_refl: "sql_inv s \<Longrightarrow> extends s [] s"
  by (simp add: extends_def)

lemma sql_store_many_ok:
  assumes "wf_engine eng" and "accepting eng" and "sql_inv s" and "\<not> sql_read_only s"
    and "\<forall>t \<in> set ts. storable t"
  shows "\<exists>s'. sql_store_many eng s ts = (Inr (), s') \<and> extends s ts s'"
  using write_batch_ok [OF assms(1-3,5)] assms(3,4)
  by (auto simp: sql_store_many_def ensure_writable_def wrapped_def extends_refl)

lemma sql_store_many_atomic:
  "fst (sql_store_many eng s ts) = Inl e \<Longrightarrow> snd (sql_store_many eng s ts) = s"
  by (auto simp: sql_store_many_def wrapped_def split: sum.splits if_splits prod.splits)

lemma sql_store_one_many: "sql_store_one eng s t = sql_store_many eng s [t]"
  by (simp add: sql_store_one_def sql_store_many_def)

section \<open>The other writes\<close>

lemma sql_evict_older_than_ok:
  assumes "accepting eng" and "sql_inv s" and "\<not> sql_read_only s" and "in_range (instant cutoff)"
  shows "\<exists>s'. sql_evict_older_than eng s cutoff dry_run =
      (Inr (int (length (filter (\<lambda>t. time_of t < instant cutoff) (contents s)))), s') \<and> sql_inv s' \<and>
    contents s' = (if dry_run then contents s else filter (\<lambda>t. \<not> time_of t < instant cutoff) (contents s)) \<and>
    latest_of s' = latest_of s"
proof -
  have "bind_time eng (sql_dialect s) cutoff = Inr (instant cutoff)"
    using assms(4) by (rule bind_time_Inr)
  with assms show ?thesis
    by (simp add: sql_evict_older_than_def wrapped_def ensure_writable_def contents_def
        Let_def latest_of_def sql_inv_def list_all_iff filter_map comp_def)
qed

lemma sql_clear_ok:
  assumes "accepting eng" and "sql_inv s" and "\<not> sql_read_only s"
  shows "\<exists>s'. sql_clear eng s = (Inr (), s') \<and> sql_inv s' \<and> contents s' = [] \<and> latest_of s' d = None"
  using assms
  by (auto simp: sql_clear_def wrapped_def ensure_writable_def contents_def Let_def latest_of_def
      sql_inv_def newest_for_def)

text \<open>A read-only store never changes.\<close>

lemma sql_read_only_unchanged:
  assumes "sql_read_only s"
  shows "sql_store_many eng s ts = (Inl (raise_exc KnxTelegramStoreException), s)"
    and "sql_evict_older_than eng s cutoff dry_run = (Inl (raise_exc KnxTelegramStoreException), s)"
    and "sql_clear eng s = (Inl (raise_exc KnxTelegramStoreException), s)"
  using assms
  by (simp_all add: sql_store_many_def sql_evict_older_than_def sql_clear_def ensure_writable_def
      wrapped_def wrap_store_errors_def isinstance_def Let_def)

end
