(* ===== verification/SqlQuery.thy ===== *)
theory SqlQuery
  imports SqlWrites
begin

text \<open>
  Reading from the SQL store (\<open>query\<close>, \<open>count\<close>, \<open>get_stats\<close> and \<open>get_last_unique_telegrams\<close> of
  src/knx_telegram_store/backends/base_sql.py): the statements as the code builds them, and the
  proof that they meet the contract of QuerySpec. Timestamp columns hold instants here; TextQuery
  models the queries over a SQLite file that was not converted yet.
\<close>

section \<open>The WHERE clause\<close>

text \<open>A condition of the list \<open>filters\<close>; the datetimes of a range are bound on execution.\<close>

datatype condition = Holds "telegram_row \<Rightarrow> bool" | Since datetime | Until datetime

definition ids_of :: "lookup_row list \<Rightarrow> string \<Rightarrow> string list \<Rightarrow> int list" where
  "ids_of table category vs =
     map lk_id (filter (\<lambda>r. lk_category r = category \<and> lk_value r \<in> set vs) table)"

definition id_filter ::
  "lookup_row list \<Rightarrow> string \<Rightarrow> (telegram_row \<Rightarrow> int) \<Rightarrow> string list \<Rightarrow> condition list" where
  "id_filter table category column vs =
     (if vs \<noteq> [] then [Holds (\<lambda>r. column r \<in> set (ids_of table category vs))] else [])"

definition dpt_conds :: "telegram_query \<Rightarrow> (telegram_row \<Rightarrow> bool) list" where
  "dpt_conds q =
     (if dpt_mains q \<noteq> [] then [\<lambda>r. list_ex (\<lambda>m. r_dpt_main r = Some m) (dpt_mains q)] else []) @
     map (\<lambda>(main, sub). case sub of
            None \<Rightarrow> (\<lambda>r. r_dpt_main r = Some main)
          | Some s \<Rightarrow> (\<lambda>r. r_dpt_main r = Some main \<and> r_dpt_sub r = Some s)) (dpts q)"

definition sql_filters :: "lookup_row list \<Rightarrow> telegram_query \<Rightarrow> condition list" where
  "sql_filters table q =
     id_filter table ''source'' r_source_id (sources q) @
     id_filter table ''destination'' r_destination_id (destinations q) @
     id_filter table ''telegramtype'' r_telegramtype_id (telegram_types q) @
     id_filter table ''direction'' r_direction_id (directions q) @
     (if dpt_conds q \<noteq> [] then [Holds (\<lambda>r. list_ex (\<lambda>c. c r) (dpt_conds q))] else []) @
     (case start_time q of None \<Rightarrow> [] | Some st \<Rightarrow> [Since st]) @
     (case end_time q of None \<Rightarrow> [] | Some en \<Rightarrow> [Until en])"

fun bind_condition :: "sql_engine \<Rightarrow> dialect \<Rightarrow> condition \<Rightarrow> exc + (telegram_row \<Rightarrow> bool)" where
  "bind_condition eng dialect (Holds p) = Inr p"
| "bind_condition eng dialect (Since st) =
     bind_res (bind_time eng dialect st) (\<lambda>c. Inr (\<lambda>r. c \<le> r_timestamp r))"
| "bind_condition eng dialect (Until en) =
     bind_res (bind_time eng dialect en) (\<lambda>c. Inr (\<lambda>r. r_timestamp r \<le> c))"

text \<open>The window in microseconds: plain integers on SQLite, a timedelta elsewhere.\<close>

definition sql_delta :: "dialect \<Rightarrow> int \<Rightarrow> exc + int" where
  "sql_delta dialect ms = (if dialect = Sqlite then Inr (ms * 1000) else timedelta_ms ms)"

definition all_hold :: "(telegram_row \<Rightarrow> bool) list \<Rightarrow> telegram_row \<Rightarrow> bool" where
  "all_hold conds r = list_all (\<lambda>c. c r) conds"

definition exists_pivot :: "int \<Rightarrow> int \<Rightarrow> int list \<Rightarrow> telegram_row \<Rightarrow> bool" where
  "exists_pivot before after pivots r =
     list_ex (\<lambda>p. p - before \<le> r_timestamp r \<and> r_timestamp r \<le> p + after) pivots"

definition where_clause ::
  "sql_engine \<Rightarrow> sql_store \<Rightarrow> telegram_query \<Rightarrow> exc + (telegram_row \<Rightarrow> bool)" where
  "where_clause eng s q =
     (let db = sql_db s; dialect = sql_dialect s;
          filters = sql_filters (string_lookup db) q;
          bound = map_res (bind_condition eng dialect) filters
      in if (0 < delta_before_ms q \<or> 0 < delta_after_ms q) \<and> filters \<noteq> [] then
           bind_res (sql_delta dialect (delta_before_ms q)) (\<lambda>before.
           bind_res (sql_delta dialect (delta_after_ms q)) (\<lambda>after.
           bind_res bound (\<lambda>conds.
             Inr (exists_pivot before after
                   (map r_timestamp (filter (all_hold conds) (telegrams db)))))))
         else bind_res bound (\<lambda>conds. Inr (all_hold conds)))"

section \<open>The page\<close>

text \<open>
  LIMIT and OFFSET: SQLite takes a negative limit as none and a negative offset as zero, and
  PostgreSQL refuses either, which is left to \<open>eng_fail\<close>.
\<close>

definition limit_offset :: "int \<Rightarrow> int \<Rightarrow> 'a list \<Rightarrow> 'a list" where
  "limit_offset lim off rows =
     (let rest = drop (nat off) rows in if lim < 0 then rest else take (nat lim) rest)"

definition row_key :: "bool \<Rightarrow> telegram_row \<Rightarrow> int" where
  "row_key descending r = (if descending then - r_timestamp r else r_timestamp r)"

definition decode_row :: "dialect \<Rightarrow> lookup_row list \<Rightarrow> telegram_row \<Rightarrow> exc + stored_telegram" where
  "decode_row dialect table r =
     bind_res (result_time dialect (r_timestamp r)) (\<lambda>ts. Inr ((row_telegram table r)\<lparr>timestamp := ts\<rparr>))"

definition sql_query_raw ::
  "sql_engine \<Rightarrow> sql_store \<Rightarrow> telegram_query \<Rightarrow> exc + telegram_query_result" where
  "sql_query_raw eng s q =
     (let db = sql_db s; key = row_key (order_descending q) in
      bind_res (where_clause eng s q) (\<lambda>cond.
      bind_res (execute eng db (SelectRows [limit q, offset q])) (\<lambda>_.
        let total = int (length (filter cond (telegrams db)));
            paged = limit_offset (limit q) (offset q) (order_by eng key (filter cond (telegrams db)));
            rows = order_by eng key paged
        in bind_res (map_res (decode_row (sql_dialect s) (string_lookup db)) rows) (\<lambda>ts.
             Inr \<lparr>res_telegrams = ts, total_count = total,
                  limit_reached = (total > offset q + limit q)\<rparr>))))"

definition sql_query :: "sql_engine \<Rightarrow> sql_store \<Rightarrow> telegram_query \<Rightarrow> exc + telegram_query_result" where
  "sql_query eng s q = wrap_store_errors (sql_query_raw eng s q)"

definition sql_count :: "sql_engine \<Rightarrow> sql_store \<Rightarrow> exc + int" where
  "sql_count eng s = wrap_store_errors
     (bind_res (execute eng (sql_db s) (SelectRows [])) (\<lambda>_. Inr (int (length (telegrams (sql_db s))))))"

text \<open>MIN and MAX of the timestamp column: NULL without rows.\<close>

definition extreme_time :: "dialect \<Rightarrow> (int set \<Rightarrow> int) \<Rightarrow> telegram_row list \<Rightarrow> exc + datetime option" where
  "extreme_time dialect f rows =
     (if rows = [] then Inr None
      else bind_res (result_time dialect (f (r_timestamp ` set rows))) (\<lambda>d. Inr (Some d)))"

fun dialect_name :: "dialect \<Rightarrow> string" where
  "dialect_name Sqlite = ''sqlite''"
| "dialect_name Postgresql = ''postgresql''"
| "dialect_name OtherDialect = ''other''"

text \<open>\<open>footprint\<close> is what the backend's \<open>_size_bytes\<close> returns; the base class returns None.\<close>

definition sql_get_stats :: "sql_engine \<Rightarrow> exc + int option \<Rightarrow> sql_store \<Rightarrow> exc + store_stats" where
  "sql_get_stats eng footprint s = wrap_store_errors
     (let db = sql_db s in
      bind_res (execute eng db (SelectRows [])) (\<lambda>_.
      bind_res (extreme_time (sql_dialect s) Min (telegrams db)) (\<lambda>oldest.
      bind_res (extreme_time (sql_dialect s) Max (telegrams db)) (\<lambda>newest.
      bind_res footprint (\<lambda>bytes.
        Inr \<lparr>telegram_count = int (length (telegrams db)), oldest_timestamp = oldest,
             newest_timestamp = newest, size_bytes = bytes,
             stats_backend = dialect_name (sql_dialect s),
             stats_retention_days = sql_retention_days s\<rparr>)))))"

text \<open>The inner joins drop a row without its required lookups; no order is asked for.\<close>

definition inner_joined :: "lookup_row list \<Rightarrow> telegram_row \<Rightarrow> bool" where
  "inner_joined table r \<longleftrightarrow>
     lookup_value table ''source'' (r_source_id r) \<noteq> None \<and>
     lookup_value table ''destination'' (r_destination_id r) \<noteq> None \<and>
     lookup_value table ''telegramtype'' (r_telegramtype_id r) \<noteq> None \<and>
     lookup_value table ''direction'' (r_direction_id r) \<noteq> None"

definition sql_get_last_unique :: "sql_engine \<Rightarrow> sql_store \<Rightarrow> exc + stored_telegram list" where
  "sql_get_last_unique eng s = wrap_store_errors
     (let db = sql_db s in
      bind_res (execute eng db (SelectRows [])) (\<lambda>_.
        map_res (decode_row (sql_dialect s) (string_lookup db))
          (order_by eng (\<lambda>_. 0) (filter (inner_joined (string_lookup db)) (last_ga_telegrams db)))))"

section \<open>ORDER BY\<close>

lemma order_by_ok:
  assumes "wf_engine eng"
  shows "mset (order_by eng key xs) = mset xs" and "sorted (map key (order_by eng key xs))"
proof -
  let ?ps = "eng_order eng (map key xs)"
  have ord: "mset ?ps = mset [0..<length xs]" "sorted (map (\<lambda>i. map key xs ! i) ?ps)"
    using assms by (simp_all add: wf_engine_def is_order_def)
  have "mset (order_by eng key xs) = image_mset (\<lambda>i. xs ! i) (mset ?ps)" by (simp add: order_by_def)
  also have "\<dots> = mset (map (\<lambda>i. xs ! i) [0..<length xs])" using ord(1) by simp
  also have "\<dots> = mset xs" by (simp only: map_nth)
  finally show "mset (order_by eng key xs) = mset xs" .
  have "set ?ps = set [0..<length xs]" using ord(1) by (rule mset_eq_setD)
  then have "map (\<lambda>i. map key xs ! i) ?ps = map key (order_by eng key xs)"
    by (simp add: order_by_def)
  with ord(2) show "sorted (map key (order_by eng key xs))" by simp
qed

lemma set_order_by: "wf_engine eng \<Longrightarrow> set (order_by eng key xs) = set xs"
  by (rule mset_eq_setD) (rule order_by_ok)

section \<open>Decoding\<close>

lemma result_time_Inr [res_simps]: "in_range us \<Longrightarrow> result_time dialect us = Inr (Datetime us (Some 0))"
  by (simp add: result_time_def column_value_def micros_to_datetime_Inr astimezone_utc_def)

lemma decode_row_Inr: "row_ok table r \<Longrightarrow> decode_row dialect table r = Inr (row_telegram table r)"
  by (simp add: decode_row_def row_ok_def result_time_Inr row_telegram_def)

lemma decode_rows_Inr [res_simps]:
  "\<forall>r \<in> set rows. row_ok table r \<Longrightarrow>
   map_res (decode_row dialect table) rows = Inr (map (row_telegram table) rows)"
  by (intro map_res_Inr) (simp add: decode_row_Inr)

section \<open>The filters test the telegram\<close>

lemma ids_of_iff:
  assumes "lookup_ok table" and "lookup_value table c i = Some v"
  shows "i \<in> set (ids_of table c vs) \<longleftrightarrow> v \<in> set vs"
proof -
  have "i \<in> set (ids_of table c vs) \<longleftrightarrow> (\<exists>w \<in> set vs. has_id table (c, w) i)"
    by (auto simp: ids_of_def has_id_def lk_pair_def)
  also have "\<dots> \<longleftrightarrow> (\<exists>w \<in> set vs. lookup_value table c i = Some w)"
    by (simp only: lookup_value_iff [OF assms(1)])
  also have "\<dots> \<longleftrightarrow> v \<in> set vs" using assms(2) by simp
  finally show ?thesis .
qed

definition holds :: "condition \<Rightarrow> telegram_row \<Rightarrow> bool" where
  "holds c r = (case c of Holds p \<Rightarrow> p r | Since st \<Rightarrow> instant st \<le> r_timestamp r
                        | Until en \<Rightarrow> r_timestamp r \<le> instant en)"

definition bounds_ok :: "telegram_query \<Rightarrow> bool" where
  "bounds_ok q \<longleftrightarrow> (\<forall>d \<in> set_option (start_time q) \<union> set_option (end_time q). in_range (instant d))"

lemma bind_conditions_Inr:
  assumes "bounds_ok q"
  shows "map_res (bind_condition eng dialect) (sql_filters table q) = Inr (map holds (sql_filters table q))"
  using assms
  by (intro map_res_Inr) (auto simp: sql_filters_def id_filter_def bounds_ok_def holds_def fun_eq_iff
      bind_time_Inr split: if_splits option.splits)

lemma id_filter_holds:
  assumes "lookup_ok table" and "lookup_value table c (column r) = Some v"
  shows "list_all (\<lambda>f. holds f r) (id_filter table c column vs) \<longleftrightarrow> passes vs v"
  using ids_of_iff [OF assms] by (simp add: id_filter_def holds_def passes_def)

lemma dpt_conds_holds:
  assumes "dpt_main t = r_dpt_main r" and "dpt_sub t = r_dpt_sub r"
  shows "list_ex (\<lambda>c. c r) (dpt_conds q) \<longleftrightarrow> dpt_group q t"
proof -
  have "list_ex (\<lambda>c. c r) (map (\<lambda>(main, sub). case sub of
            None \<Rightarrow> (\<lambda>r. r_dpt_main r = Some main)
          | Some s \<Rightarrow> (\<lambda>r. r_dpt_main r = Some main \<and> r_dpt_sub r = Some s)) ds) \<longleftrightarrow>
     list_ex (\<lambda>(m, s). dpt_main t = Some m \<and> (s = None \<or> dpt_sub t = s)) ds" for ds
    using assms by (induction ds) (auto split: option.splits)
  with assms show ?thesis by (auto simp: dpt_conds_def dpt_group_def)
qed

lemma dpt_conds_empty: "dpt_conds q = [] \<longleftrightarrow> dpt_mains q = [] \<and> dpts q = []"
  by (simp add: dpt_conds_def)

lemma filters_match:
  assumes "lookup_ok table" and "interned table r"
  shows "all_hold (map holds (sql_filters table q)) r \<longleftrightarrow> matches q (row_telegram table r)"
proof -
  let ?t = "row_telegram table r"
  have lookups: "lookup_value table ''source'' (r_source_id r) = Some (source ?t)"
    "lookup_value table ''destination'' (r_destination_id r) = Some (destination ?t)"
    "lookup_value table ''telegramtype'' (r_telegramtype_id r) = Some (telegramtype ?t)"
    "lookup_value table ''direction'' (r_direction_id r) = Some (direction ?t)"
    using assms(2) by (auto simp: interned_def row_telegram_def joined_def)
  note ids = id_filter_holds [OF assms(1), where column = r_source_id, OF lookups(1)]
    id_filter_holds [OF assms(1), where column = r_destination_id, OF lookups(2)]
    id_filter_holds [OF assms(1), where column = r_telegramtype_id, OF lookups(3)]
    id_filter_holds [OF assms(1), where column = r_direction_id, OF lookups(4)]
  have dpt: "list_all (\<lambda>f. holds f r)
      (if dpt_conds q \<noteq> [] then [Holds (\<lambda>r. list_ex (\<lambda>c. c r) (dpt_conds q))] else []) \<longleftrightarrow>
    dpt_mains q = [] \<and> dpts q = [] \<or> dpt_group q ?t"
  proof -
    have "list_ex (\<lambda>c. c r) (dpt_conds q) \<longleftrightarrow> dpt_group q ?t"
      by (rule dpt_conds_holds) (simp_all add: row_telegram_def)
    then show ?thesis using dpt_conds_empty [of q] by (auto simp: holds_def dpt_group_def)
  qed
  have st: "list_all (\<lambda>f. holds f r) (case start_time q of None \<Rightarrow> [] | Some st \<Rightarrow> [Since st]) \<longleftrightarrow>
    (case start_time q of None \<Rightarrow> True | Some st \<Rightarrow> instant st \<le> time_of ?t)"
    by (simp add: holds_def split: option.split)
  have en: "list_all (\<lambda>f. holds f r) (case end_time q of None \<Rightarrow> [] | Some en \<Rightarrow> [Until en]) \<longleftrightarrow>
    (case end_time q of None \<Rightarrow> True | Some en \<Rightarrow> time_of ?t \<le> instant en)"
    by (simp add: holds_def split: option.split)
  have "all_hold (map holds (sql_filters table q)) r \<longleftrightarrow> list_all (\<lambda>f. holds f r) (sql_filters table q)"
    by (simp add: all_hold_def list.pred_map comp_def)
  also have "\<dots> \<longleftrightarrow> matches q ?t"
    unfolding sql_filters_def list_all_append ids dpt st en matches_def in_time_range_def by blast
  finally show ?thesis .
qed

section \<open>The query meets the contract\<close>

definition sql_queryable :: "telegram_query \<Rightarrow> bool" where
  "sql_queryable q \<longleftrightarrow> wf_query q \<and> bounds_ok q \<and>
     in_range (delta_before_ms q * 1000) \<and> in_range (delta_after_ms q * 1000)"

lemma sql_delta_Inr [res_simps]: "in_range (ms * 1000) \<Longrightarrow> sql_delta dialect ms = Inr (ms * 1000)"
  by (simp add: sql_delta_def timedelta_ms_def in_range_timedelta)

lemma no_filters_match:
  assumes "sql_filters table q = []"
  shows "matches q t"
proof -
  have "sources q = []" "destinations q = []" "telegram_types q = []" "directions q = []"
    using assms by (auto simp: sql_filters_def id_filter_def split: if_splits)
  moreover have "dpt_conds q = []" "start_time q = None" "end_time q = None"
    using assms by (auto simp: sql_filters_def split: if_splits option.splits)
  ultimately show ?thesis
    by (simp add: matches_def passes_def in_time_range_def dpt_conds_empty)
qed

text \<open>The rows the clause keeps are those of the selected telegrams.\<close>

lemma where_clause_selects:
  assumes inv: "sql_inv s" and q: "sql_queryable q"
  shows "\<exists>p. where_clause eng s q = Inr p \<and>
    (\<forall>r \<in> set (telegrams (sql_db s)).
       p r \<longleftrightarrow> selects q (contents s) (row_telegram (string_lookup (sql_db s)) r))"
proof -
  let ?tb = "string_lookup (sql_db s)" and ?rows = "telegrams (sql_db s)"
  let ?fs = "sql_filters ?tb q"
  let ?keep = "all_hold (map holds ?fs)"
  have match: "?keep r \<longleftrightarrow> matches q (row_telegram ?tb r)" if "r \<in> set ?rows" for r
    using filters_match [OF sql_invD(1) [OF inv]] sql_invD(3) [OF inv that] by (simp add: row_ok_def)
  have bound: "map_res (bind_condition eng (sql_dialect s)) ?fs = Inr (map holds ?fs)"
    using q by (intro bind_conditions_Inr) (simp add: sql_queryable_def)
  have deltas: "0 \<le> delta_before_ms q" "0 \<le> delta_after_ms q"
    using q by (simp_all add: sql_queryable_def wf_query_def)
  show ?thesis
  proof (cases "window_on q")
    case off: False
    then have "where_clause eng s q = Inr ?keep"
      using bound by (simp add: where_clause_def window_on_def Let_def)
    with match off show ?thesis by (simp add: selects_def)
  next
    case on: True
    show ?thesis
    proof (cases "?fs = []")
      case True
      then have clause: "where_clause eng s q = Inr ?keep"
        using bound by (simp add: where_clause_def Let_def)
      have "selects q (contents s) (row_telegram ?tb r)" if "r \<in> set ?rows" for r
        using on that no_filters_match [OF True] deltas
        by (auto simp: selects_def contents_def list_ex_iff near_def intro!: bexI [of _ r])
      with clause True show ?thesis by (simp add: all_hold_def)
    next
      case False
      let ?p = "exists_pivot (delta_before_ms q * 1000) (delta_after_ms q * 1000)
        (map r_timestamp (filter ?keep ?rows))"
      have clause: "where_clause eng s q = Inr ?p"
        using q bound on False
        by (simp add: where_clause_def window_on_def Let_def sql_queryable_def sql_delta_Inr)
      have "?p r \<longleftrightarrow> selects q (contents s) (row_telegram ?tb r)" if "r \<in> set ?rows" for r
        using on match
        by (auto simp: exists_pivot_def selects_def contents_def list_ex_iff near_def)
      with clause show ?thesis by blast
    qed
  qed
qed

lemma row_key_telegram: "time_key d (row_telegram tb r) = row_key d r"
  by (simp add: time_key_def row_key_def)

lemma limit_offset_page: "wf_query q \<Longrightarrow> limit_offset (limit q) (offset q) rows = page q rows"
  by (simp add: limit_offset_def page_def wf_query_def)

lemma page_map: "page q (map f xs) = map f (page q xs)"
  by (simp add: page_def take_map drop_map)

lemma set_page_subset: "set (page q xs) \<subseteq> set xs"
  unfolding page_def by (meson set_drop_subset set_take_subset subset_trans)

text \<open>
  A page over the rows a clause keeps, ordered by a key that sorts like the time, twice as the
  statement orders it, answers the contract.
\<close>

lemma page_answers:
  assumes wf: "wf_engine eng"
    and p: "\<forall>r \<in> set (telegrams (sql_db s)). p r \<longleftrightarrow> selects q (contents s) (row_telegram (string_lookup (sql_db s)) r)"
    and key: "\<And>xs. set xs \<subseteq> set (telegrams (sql_db s)) \<Longrightarrow> sorted (map key xs) \<Longrightarrow>
      sorted (map (row_key (order_descending q)) xs)"
    and os: "os = order_by eng key (filter p (telegrams (sql_db s)))" and out: "out = order_by eng key (page q os)"
    and n: "n = int (length (filter p (telegrams (sql_db s))))"
  shows "set out \<subseteq> set (telegrams (sql_db s)) \<and>
    answers q (contents s) \<lparr>res_telegrams = map (row_telegram (string_lookup (sql_db s))) out, total_count = n,
      limit_reached = (n > offset q + limit q)\<rparr>"
proof -
  let ?tb = "string_lookup (sql_db s)" and ?rows = "telegrams (sql_db s)"
  let ?rt = "row_telegram ?tb" and ?sel = "filter p (telegrams (sql_db s))"
  have sel: "map ?rt ?sel = selection q (contents s)"
    unfolding selection_def contents_def filter_map
    by (intro arg_cong [where f = "map ?rt"] filter_cong) (simp_all add: p [unfolded contents_def])
  have sets: "set os \<subseteq> set ?rows" "set out \<subseteq> set os"
    using set_page_subset [of q os] by (auto simp: os out set_order_by [OF wf])
  have keys: "map (time_key (order_descending q)) (map ?rt xs) = map (row_key (order_descending q)) xs" for xs
    by (simp add: row_key_telegram)
  have sorted: "sorted (map (time_key (order_descending q)) (map ?rt os))"
    "sorted (map (time_key (order_descending q)) (map ?rt out))"
    unfolding keys using sets key [of os] key [of out] order_by_ok(2) [OF wf] by (auto simp: os out)
  have "mset (map ?rt out) = mset (page q (map ?rt os))"
    by (simp add: out page_map order_by_ok(1) [OF wf])
  then obtain zs where zs: "mset zs = mset (map ?rt os)"
    "sorted (map (time_key (order_descending q)) zs)" "page q zs = map ?rt out"
    using page_replace [OF sorted(1) _ sorted(2)] by metis
  have "mset (map ?rt os) = mset (selection q (contents s))"
    by (simp add: os order_by_ok(1) [OF wf] flip: sel)
  moreover have "int (length (selection q (contents s))) = n" by (simp add: n flip: sel)
  ultimately show ?thesis using zs sets by (auto simp: answers_def)
qed

lemma sql_query_answers:
  assumes wf: "wf_engine eng" and acc: "accepting eng" and inv: "sql_inv s" and q: "sql_queryable q"
  shows "\<exists>r. sql_query eng s q = Inr r \<and> answers q (contents s) r"
proof -
  let ?tb = "string_lookup (sql_db s)" and ?rows = "telegrams (sql_db s)"
  let ?key = "row_key (order_descending q)" and ?rt = "row_telegram ?tb"
  obtain p where p: "where_clause eng s q = Inr p"
    "\<forall>r \<in> set ?rows. p r \<longleftrightarrow> selects q (contents s) (?rt r)"
    using where_clause_selects [OF inv q, of eng] by blast
  let ?os = "order_by eng ?key (filter p ?rows)"
  let ?out = "order_by eng ?key (page q ?os)" and ?total = "int (length (filter p ?rows))"
  let ?r = "\<lparr>res_telegrams = map ?rt ?out, total_count = ?total, limit_reached = (?total > offset q + limit q)\<rparr>"
  from page_answers [OF wf p(2) _ refl refl refl, of ?key]
  have ans: "set ?out \<subseteq> set ?rows" "answers q (contents s) ?r" by auto
  then have dec: "map_res (decode_row (sql_dialect s) ?tb) ?out = Inr (map ?rt ?out)"
    using sql_invD(3) [OF inv] by (intro decode_rows_Inr) blast
  have "limit_offset (limit q) (offset q) ?os = page q ?os"
    using q by (intro limit_offset_page) (simp add: sql_queryable_def)
  then have "sql_query eng s q = Inr ?r"
    using p(1) acc dec by (simp add: sql_query_def sql_query_raw_def Let_def)
  with ans(2) show ?thesis by blast
qed

section \<open>The other reads\<close>

lemma sql_count_ok: "accepting eng \<Longrightarrow> sql_count eng s = Inr (int (length (contents s)))"
  by (simp add: sql_count_def contents_def)

lemma newest_for_distinct:
  "distinct (map destination ts) \<Longrightarrow> newest_for ts d = Some t \<longleftrightarrow> t \<in> set ts \<and> destination t = d"
proof (induction ts)
  case (Cons u ts)
  have none: "newest_for ts (destination u) = None"
    using Cons.prems unfolding newest_for_None_iff by (metis distinct.simps(2) imageI list.set_map list.simps(9))
  show ?case
  proof (cases "destination u = d")
    case True
    have "t \<in> set ts \<Longrightarrow> destination t \<noteq> destination u" using none by (simp add: newest_for_None_iff)
    with none True show ?thesis by auto
  next
    case False
    with Cons show ?thesis by auto
  qed
qed simp

lemma distinct_destinations:
  assumes "lookup_ok table" and "\<forall>r \<in> set rs. interned table r"
    and "distinct (map r_destination_id rs)"
  shows "distinct (map destination (map (row_telegram table) rs))"
  using assms(2,3)
proof (induction rs)
  case (Cons r rs)
  have new: "destination (row_telegram table r) \<noteq> destination (row_telegram table u)" if u: "u \<in> set rs" for u
  proof -
    from Cons.prems(1) obtain v where v: "lookup_value table ''destination'' (r_destination_id r) = Some v"
      by (auto simp: interned_def)
    then have "destination (row_telegram table r) = v" by (simp add: row_telegram_def joined_def)
    moreover have "r_destination_id u \<noteq> r_destination_id r" using Cons.prems(2) u
      by (metis distinct.simps(2) imageI list.set_map list.simps(9))
    ultimately show ?thesis
      using destination_iff [OF assms(1) lookup_value_has_id [OF v], of u] Cons.prems(1) u by auto
  qed
  have "distinct (map destination (map (row_telegram table) rs))" using Cons by simp
  with new show ?case by auto
qed simp

lemma sql_get_last_unique_ok:
  assumes wf: "wf_engine eng" and acc: "accepting eng" and inv: "sql_inv s"
  shows "\<exists>r. sql_get_last_unique eng s = Inr r \<and> latest_answers (latest_of s) r"
proof -
  let ?tb = "string_lookup (sql_db s)" and ?lga = "last_ga_telegrams (sql_db s)"
  let ?rt = "row_telegram ?tb"
  let ?out = "order_by eng (\<lambda>_. 0) ?lga"
  have ok: "\<forall>r \<in> set ?lga. row_ok ?tb r" using sql_invD(4) [OF inv] by blast
  then have "filter (inner_joined ?tb) ?lga = ?lga"
    by (intro filter_True) (simp add: row_ok_def interned_def inner_joined_def)
  moreover have perm: "mset ?out = mset ?lga" by (rule order_by_ok(1) [OF wf])
  moreover have "map_res (decode_row (sql_dialect s) ?tb) ?out = Inr (map ?rt ?out)"
    using ok set_order_by [OF wf, of "\<lambda>_. 0" ?lga] by (intro decode_rows_Inr) simp
  ultimately have res: "sql_get_last_unique eng s = Inr (map ?rt ?out)"
    using acc by (simp add: sql_get_last_unique_def Let_def)
  have perm': "mset (map ?rt ?out) = mset (map ?rt ?lga)" using perm by simp
  have dist: "distinct (map destination (map ?rt ?lga))"
    using ok sql_invD(1,5) [OF inv] by (intro distinct_destinations) (auto simp: row_ok_def)
  have "mset (map destination (map ?rt ?out)) = mset (map destination (map ?rt ?lga))"
    by (simp only: mset_map [of destination] perm')
  then have "distinct (map destination (map ?rt ?out))" using dist mset_eq_imp_distinct_iff by blast
  moreover have "t \<in> set (map ?rt ?out) \<longleftrightarrow> latest_of s (destination t) = Some t" for t
    using newest_for_distinct [OF dist, of "destination t" t] mset_eq_setD [OF perm']
    by (simp add: latest_of_def)
  ultimately have "latest_answers (latest_of s) (map ?rt ?out)"
    unfolding latest_answers_def by blast
  with res show ?thesis by blast
qed

end
