(* ===== verification/SqlMaintenance.thy ===== *)
theory SqlMaintenance
  imports SqlQuery
begin

text \<open>
  The start of a SQL store (src/knx_telegram_store/backends/base_sql.py): \<open>initialize\<close>, the
  one-off repair of the summaries in \<open>last_ga_telegrams\<close>, the metadata flags, the indexes, and the
  check \<open>needs_migration\<close> that tells a host whether the start has work to do.
\<close>

section \<open>Metadata\<close>

definition metadata_flag_set :: "sql_db \<Rightarrow> string \<Rightarrow> bool" where
  "metadata_flag_set db key \<longleftrightarrow> store_metadata db key = Some (Some ''true'')"

definition set_metadata_value :: "string \<Rightarrow> string \<Rightarrow> sql_db \<Rightarrow> sql_db" where
  "set_metadata_value key v db = db\<lparr>store_metadata := (store_metadata db)(key \<mapsto> Some v)\<rparr>"

definition LAST_GA_RECONCILED_KEY :: string where
  "LAST_GA_RECONCILED_KEY = ''last_ga_newest_reconciled''"

section \<open>The summaries\<close>

definition newer_telegram :: "telegram_row list \<Rightarrow> telegram_row \<Rightarrow> bool" where
  "newer_telegram rows l =
     list_ex (\<lambda>r. r_destination_id r = r_destination_id l \<and> r_timestamp l < r_timestamp r) rows"

text \<open>The rows of a destination with its greatest timestamp.\<close>

definition candidates :: "telegram_row list \<Rightarrow> int \<Rightarrow> telegram_row list" where
  "candidates rows d =
     (let mine = to_destination d rows in
      filter (\<lambda>r. list_all (\<lambda>r'. r_timestamp r' \<le> r_timestamp r) mine) mine)"

definition ranked_first :: "sql_engine \<Rightarrow> telegram_row list \<Rightarrow> telegram_row list" where
  "ranked_first eng rows =
     map (\<lambda>d. candidates rows d ! eng_rank eng (candidates rows d)) (remdups (map r_destination_id rows))"

text \<open>INSERT ... ON CONFLICT DO NOTHING.\<close>

definition insert_missing :: "telegram_row list \<Rightarrow> telegram_row \<Rightarrow> telegram_row list" where
  "insert_missing lga r = (if r_destination_id r \<in> r_destination_id ` set lga then lga else lga @ [r])"

definition reconcile_last_ga_telegrams :: "sql_engine \<Rightarrow> sql_db \<Rightarrow> exc + sql_db" where
  "reconcile_last_ga_telegrams eng db =
     (let lga = last_ga_telegrams db; reconciled = metadata_flag_set db LAST_GA_RECONCILED_KEY in
      if lga \<noteq> [] \<and> reconciled then Inr db
      else
        let kept = filter (\<lambda>l. \<not> newer_telegram (telegrams db) l) lga in
        bind_res (execute eng db DeleteRows) (\<lambda>_.
        bind_res (execute eng db (UpsertLatest (ranked_first eng (telegrams db)))) (\<lambda>_.
        bind_res (execute eng db CommitWork) (\<lambda>_.
          let db' = db\<lparr>last_ga_telegrams := foldl insert_missing kept (ranked_first eng (telegrams db))\<rparr> in
          Inr (if reconciled then db' else set_metadata_value LAST_GA_RECONCILED_KEY ''true'' db')))))"

section \<open>initialize\<close>

definition sql_initialize :: "sql_engine \<Rightarrow> sql_store \<Rightarrow> (exc + unit) \<times> sql_store" where
  "sql_initialize eng s = wrapped
     (case execute eng (sql_db s) (SelectRows []) of
        Inl e \<Rightarrow> (Inl e, s)
      | Inr _ \<Rightarrow>
         (let s = s\<lparr>lookup_cache := warm (lookup_cache s) (string_lookup (sql_db s))\<rparr> in
          if sql_read_only s then (Inr (), s)
          else (case reconcile_last_ga_telegrams eng (sql_db s) of
                  Inl e \<Rightarrow> (Inl e, s)
                | Inr db \<Rightarrow> (Inr (), s\<lparr>sql_db := db\<rparr>))))"

section \<open>Indexes and the start-up check\<close>

text \<open>
  The catalogue of a database: whether there is a table \<open>telegrams\<close>, and the indexes of a table,
  None when they cannot be read.
\<close>

record catalogue =
  has_telegrams :: bool
  indexes_of :: "string \<Rightarrow> string list option"

text \<open>The indexes the model declares, by table: \<open>index=True\<close> gives \<open>ix_<table>_<column>\<close>.\<close>

definition declared_indexes :: "(string \<times> string list) list" where
  "declared_indexes =
     [(''telegrams'', [''ix_telegrams_timestamp'', ''ix_telegrams_source_id'',
         ''ix_telegrams_destination_id'', ''ix_telegrams_dpt'']),
      (''last_ga_telegrams'', []), (''string_lookup'', [])]"

definition OBSOLETE_INDEXES :: "string list" where
  "OBSOLETE_INDEXES = [''ix_telegrams_telegramtype_id'', ''ix_telegrams_direction_id'']"

definition missing_index :: "catalogue \<Rightarrow> string \<times> string list \<Rightarrow> bool" where
  "missing_index cat tix = (case indexes_of cat (fst tix) of
     None \<Rightarrow> False
   | Some existing \<Rightarrow> list_ex (\<lambda>i. i \<notin> set existing) (snd tix))"

definition ensure_table_indexes :: "catalogue \<Rightarrow> string \<times> string list \<Rightarrow> catalogue" where
  "ensure_table_indexes cat tix = (case indexes_of cat (fst tix) of
     None \<Rightarrow> cat
   | Some existing \<Rightarrow> cat\<lparr>indexes_of := (indexes_of cat)
       (fst tix := Some (existing @ filter (\<lambda>i. i \<notin> set existing) (snd tix)))\<rparr>)"

definition ensure_indexes :: "catalogue \<Rightarrow> catalogue" where
  "ensure_indexes cat =
     (let cat = foldl ensure_table_indexes cat declared_indexes in
      cat\<lparr>indexes_of := (\<lambda>t. map_option (filter (\<lambda>i. i \<notin> set OBSOLETE_INDEXES)) (indexes_of cat t))\<rparr>)"

definition pending_startup_work :: "catalogue \<Rightarrow> sql_db \<Rightarrow> bool" where
  "pending_startup_work cat db =
     (if \<not> has_telegrams cat then False
      else if list_ex (missing_index cat) declared_indexes then True
      else if \<not> metadata_flag_set db LAST_GA_RECONCILED_KEY \<or> last_ga_telegrams db = []
      then telegrams db \<noteq> []
      else False)"

section \<open>Every destination has a current summary\<close>

definition current :: "sql_store \<Rightarrow> bool" where
  "current s \<longleftrightarrow> (\<forall>t \<in> set (contents s). \<exists>l. latest_of s (destination t) = Some l \<and> time_of t \<le> time_of l)"

lemma newer_upper:
  "newer f x y = Some z \<Longrightarrow> (\<forall>a. x = Some a \<longrightarrow> f a \<le> f z) \<and> (\<forall>b. y = Some b \<longrightarrow> f b \<le> f z)"
  by (cases x; cases y) (auto split: if_splits)

lemma newer_exists: "x \<noteq> None \<or> y \<noteq> None \<Longrightarrow> \<exists>z. newer f x y = Some z"
  by (cases x; cases y) auto

lemma current_extends:
  assumes "extends s ts s'" and "current s"
  shows "current s'"
  unfolding current_def
proof
  fix t
  assume t: "t \<in> set (contents s')"
  let ?d = "destination t"
  have latest: "latest_of s' ?d = newer time_of (latest_of s ?d) (newest_for (map stored_form ts) ?d)"
    and "contents s' = contents s @ map stored_form ts"
    using assms(1) by (auto simp: extends_def)
  with t consider "t \<in> set (contents s)" | "t \<in> set (map stored_form ts)" by auto
  then show "\<exists>l. latest_of s' ?d = Some l \<and> time_of t \<le> time_of l"
  proof cases
    case 1
    then obtain l where l: "latest_of s ?d = Some l" "time_of t \<le> time_of l"
      using assms(2) by (auto simp: current_def)
    obtain z where z: "latest_of s' ?d = Some z"
      using newer_exists [of "latest_of s ?d"] l(1) latest by auto
    then have "time_of l \<le> time_of z" using newer_upper [of time_of _ _ z] latest l(1) by metis
    with z l(2) show ?thesis by auto
  next
    case 2
    then obtain n where n: "newest_for (map stored_form ts) ?d = Some n"
      using newest_for_None_iff by fastforce
    then have "time_of t \<le> time_of n" using newest_for_upper 2 by blast
    moreover obtain z where z: "latest_of s' ?d = Some z"
      using newer_exists [of "newest_for (map stored_form ts) ?d"] n latest by (metis newer_exists option.distinct(1))
    then have "time_of n \<le> time_of z" using newer_upper [of time_of _ _ z] latest n by metis
    ultimately show ?thesis using z by auto
  qed
qed

lemma candidates_ok:
  assumes "r \<in> set rows"
  shows "\<exists>c \<in> set (candidates rows (r_destination_id r)). r_timestamp r \<le> r_timestamp c"
proof -
  let ?mine = "to_destination (r_destination_id r) rows"
  have "r \<in> set ?mine" using assms by (simp add: to_destination_def)
  then obtain m where m: "first_max r_timestamp ?mine = Some m"
    by (cases "first_max r_timestamp ?mine") auto
  then have "m \<in> set ?mine" "\<forall>u \<in> set ?mine. r_timestamp u \<le> r_timestamp m"
    using first_max_in [OF m] first_max_upper [OF m] by auto
  then show ?thesis
    using \<open>r \<in> set ?mine\<close> by (auto simp: candidates_def Let_def list_all_iff intro!: bexI [of _ m])
qed

lemma candidates_props:
  assumes "c \<in> set (candidates rows d)"
  shows "c \<in> set rows" and "r_destination_id c = d"
    and "r \<in> set rows \<Longrightarrow> r_destination_id r = d \<Longrightarrow> r_timestamp r \<le> r_timestamp c"
  using assms by (auto simp: candidates_def Let_def to_destination_def list_all_iff)

lemma ranked_first_ok:
  assumes wf: "wf_engine eng"
  shows "set (ranked_first eng rows) \<subseteq> set rows"
    and "r \<in> set rows \<Longrightarrow> \<exists>c \<in> set (ranked_first eng rows).
      r_destination_id c = r_destination_id r \<and> r_timestamp r \<le> r_timestamp c"
proof -
  let ?pick = "\<lambda>d. candidates rows d ! eng_rank eng (candidates rows d)"
  have pick: "?pick (r_destination_id r) \<in> set (candidates rows (r_destination_id r))" if r: "r \<in> set rows" for r
  proof -
    have "candidates rows (r_destination_id r) \<noteq> []" using candidates_ok [OF r] by auto
    then have "eng_rank eng (candidates rows (r_destination_id r)) < length (candidates rows (r_destination_id r))"
      using wf by (simp add: wf_engine_def)
    then show ?thesis by (rule nth_mem)
  qed
  show "set (ranked_first eng rows) \<subseteq> set rows"
  proof
    fix x
    assume "x \<in> set (ranked_first eng rows)"
    then obtain r where "r \<in> set rows" "x = ?pick (r_destination_id r)"
      by (auto simp: ranked_first_def)
    then show "x \<in> set rows" using candidates_props(1) [OF pick] by simp
  qed
  assume r: "r \<in> set rows"
  have "?pick (r_destination_id r) \<in> set (ranked_first eng rows)"
    using r by (auto simp: ranked_first_def)
  then show "\<exists>c \<in> set (ranked_first eng rows). r_destination_id c = r_destination_id r \<and> r_timestamp r \<le> r_timestamp c"
    using candidates_props(2,3) [OF pick [OF r]] r by (intro bexI) auto
qed

lemma insert_all_missing:
  assumes "distinct (map r_destination_id lga)"
  shows "distinct (map r_destination_id (foldl insert_missing lga rs)) \<and>
    set lga \<subseteq> set (foldl insert_missing lga rs) \<and> set (foldl insert_missing lga rs) \<subseteq> set lga \<union> set rs \<and>
    (\<forall>r \<in> set rs. r_destination_id r \<in> r_destination_id ` set (foldl insert_missing lga rs))"
  using assms
proof (induction rs arbitrary: lga)
  case Nil
  then show ?case by simp
next
  case (Cons r rs)
  have one: "distinct (map r_destination_id (insert_missing lga r))"
    "set lga \<subseteq> set (insert_missing lga r)" "set (insert_missing lga r) \<subseteq> insert r (set lga)"
    "r_destination_id r \<in> r_destination_id ` set (insert_missing lga r)"
    using Cons.prems by (auto simp: insert_missing_def)
  note rest = Cons.IH [OF one(1)]
  have "r_destination_id r \<in> r_destination_id ` set (foldl insert_missing (insert_missing lga r) rs)"
    using one(4) rest by blast
  then show ?case using rest one(2,3) by auto
qed

text \<open>At the level of rows, and back to telegrams.\<close>

definition rows_current :: "sql_db \<Rightarrow> bool" where
  "rows_current db \<longleftrightarrow> (\<forall>r \<in> set (telegrams db). \<exists>l \<in> set (last_ga_telegrams db).
     r_destination_id l = r_destination_id r \<and> r_timestamp r \<le> r_timestamp l)"

lemma rows_current_current:
  assumes inv: "sql_inv s" and cur: "rows_current (sql_db s)"
  shows "current s"
  unfolding current_def
proof
  fix t
  let ?tb = "string_lookup (sql_db s)" and ?lga = "last_ga_telegrams (sql_db s)"
  assume "t \<in> set (contents s)"
  then obtain r where r: "r \<in> set (telegrams (sql_db s))" "t = row_telegram ?tb r"
    by (auto simp: contents_def)
  with cur obtain l where l: "l \<in> set ?lga" "r_destination_id l = r_destination_id r"
    "r_timestamp r \<le> r_timestamp l"
    by (auto simp: rows_current_def)
  have mem: "row_telegram ?tb l \<in> set (map (row_telegram ?tb) ?lga)" using l(1) by simp
  have dest: "destination (row_telegram ?tb l) = destination t" using l(2) r(2) by (simp add: row_telegram_def)
  then obtain z where z: "latest_of s (destination t) = Some z"
    using newest_for_None_iff [of "map (row_telegram ?tb) ?lga" "destination t"] mem
    unfolding latest_of_def by fastforce
  then have "r_timestamp l \<le> time_of z"
    using newest_for_upper [of "map (row_telegram ?tb) ?lga" "destination t" z, OF _ mem dest]
    by (simp add: latest_of_def)
  with z l(3) r(2) show "\<exists>l. latest_of s (destination t) = Some l \<and> time_of t \<le> time_of l" by auto
qed

text \<open>The repair keeps the newest summaries, replaces the stale ones and adds the missing.\<close>

lemma repaired_rows_current:
  assumes wf: "wf_engine eng" and "distinct (map r_destination_id lga)"
  shows "\<forall>r \<in> set rows. \<exists>l \<in> set (foldl insert_missing (filter (\<lambda>l. \<not> newer_telegram rows l) lga)
    (ranked_first eng rows)). r_destination_id l = r_destination_id r \<and> r_timestamp r \<le> r_timestamp l"
proof
  fix r
  let ?kept = "filter (\<lambda>l. \<not> newer_telegram rows l) lga"
  let ?new = "foldl insert_missing ?kept (ranked_first eng rows)"
  assume r: "r \<in> set rows"
  have "distinct (map r_destination_id ?kept)" using assms(2) by (rule distinct_map_filter)
  note ins = insert_all_missing [OF this, of "ranked_first eng rows"]
  obtain c where c: "c \<in> set (ranked_first eng rows)" "r_destination_id c = r_destination_id r"
    "r_timestamp r \<le> r_timestamp c"
    using ranked_first_ok(2) [OF wf r] by blast
  then obtain l where l: "l \<in> set ?new" "r_destination_id l = r_destination_id r"
    using ins by fastforce
  show "\<exists>l \<in> set ?new. r_destination_id l = r_destination_id r \<and> r_timestamp r \<le> r_timestamp l"
  proof (cases "l \<in> set ?kept")
    case True
    then have "\<not> newer_telegram rows l" by simp
    then have "r_timestamp r \<le> r_timestamp l"
      using r l(2) by (auto simp: newer_telegram_def list_ex_iff not_less)
    with l show ?thesis by blast
  next
    case False
    then have "l \<in> set (ranked_first eng rows)" using ins l(1) by blast
    then obtain r' where r': "r' \<in> set rows"
      "l = candidates rows (r_destination_id r') ! eng_rank eng (candidates rows (r_destination_id r'))"
      by (auto simp: ranked_first_def)
    have "candidates rows (r_destination_id r') \<noteq> []" using candidates_ok [OF r'(1)] by auto
    then have "eng_rank eng (candidates rows (r_destination_id r')) < length (candidates rows (r_destination_id r'))"
      using wf by (simp add: wf_engine_def)
    then have "l \<in> set (candidates rows (r_destination_id r'))" unfolding r'(2) by (rule nth_mem)
    from candidates_props(2,3) [OF this] l r show ?thesis by metis
  qed
qed

lemma set_metadata_simps [simp]:
  "string_lookup (set_metadata_value k v db) = string_lookup db"
  "telegrams (set_metadata_value k v db) = telegrams db"
  "last_ga_telegrams (set_metadata_value k v db) = last_ga_telegrams db"
  "metadata_flag_set (set_metadata_value k ''true'' db) k"
  by (simp_all add: set_metadata_value_def metadata_flag_set_def)

lemma reconcile_ok:
  assumes wf: "wf_engine eng" and acc: "accepting eng" and inv: "sql_inv s"
    and trusted: "last_ga_telegrams (sql_db s) \<noteq> [] \<Longrightarrow>
      metadata_flag_set (sql_db s) LAST_GA_RECONCILED_KEY \<Longrightarrow> rows_current (sql_db s)"
  shows "\<exists>db. reconcile_last_ga_telegrams eng (sql_db s) = Inr db \<and> sql_inv (s\<lparr>sql_db := db\<rparr>) \<and>
    string_lookup db = string_lookup (sql_db s) \<and> telegrams db = telegrams (sql_db s) \<and> rows_current db \<and>
    metadata_flag_set db LAST_GA_RECONCILED_KEY"
proof -
  let ?db = "sql_db s"
  let ?lga = "last_ga_telegrams ?db" and ?rows = "telegrams ?db"
  show ?thesis
  proof (cases "?lga \<noteq> [] \<and> metadata_flag_set ?db LAST_GA_RECONCILED_KEY")
    case True
    then show ?thesis using inv trusted by (simp add: reconcile_last_ga_telegrams_def)
  next
    case False
    let ?kept = "filter (\<lambda>l. \<not> newer_telegram ?rows l) ?lga"
    let ?new = "foldl insert_missing ?kept (ranked_first eng ?rows)"
    let ?db1 = "?db\<lparr>last_ga_telegrams := ?new\<rparr>"
    define db' where "db' = (if metadata_flag_set ?db LAST_GA_RECONCILED_KEY then ?db1
      else set_metadata_value LAST_GA_RECONCILED_KEY ''true'' ?db1)"
    have res: "reconcile_last_ga_telegrams eng ?db = Inr db'"
      using False acc by (auto simp: reconcile_last_ga_telegrams_def Let_def db'_def)
    have fields: "string_lookup db' = string_lookup ?db" "telegrams db' = ?rows" "last_ga_telegrams db' = ?new"
      "metadata_flag_set db' LAST_GA_RECONCILED_KEY"
      by (simp_all add: db'_def metadata_flag_set_def set_metadata_value_def)
    have "distinct (map r_destination_id ?kept)" using sql_invD(5) [OF inv] by (rule distinct_map_filter)
    note ins = insert_all_missing [OF this, of "ranked_first eng ?rows"]
    have "\<forall>r \<in> set ?new. row_ok (string_lookup ?db) r"
      using ins ranked_first_ok(1) [OF wf, of ?rows] sql_invD(3,4) [OF inv] by fastforce
    then have "sql_inv (s\<lparr>sql_db := db'\<rparr>)"
      using inv ins by (simp add: sql_inv_def Let_def fields list_all_iff)
    moreover have "rows_current db'"
      using repaired_rows_current [OF wf sql_invD(5) [OF inv], of ?rows]
      by (simp add: rows_current_def fields)
    ultimately show ?thesis using res fields by blast
  qed
qed

section \<open>After the start nothing is pending\<close>

lemma ensure_table_indexes_has:
  "has_telegrams (ensure_table_indexes cat tix) = has_telegrams cat"
  by (auto simp: ensure_table_indexes_def split: option.split)

lemma ensure_table_indexes_none: "indexes_of (ensure_table_indexes cat (t, [])) = indexes_of cat"
  by (auto simp: ensure_table_indexes_def fun_eq_iff split: option.split)

lemma ensure_indexes_complete:
  assumes "tix \<in> set declared_indexes"
  shows "\<not> missing_index (ensure_indexes cat) tix"
proof (cases "snd tix = []")
  case True
  then show ?thesis by (simp add: missing_index_def split: option.split)
next
  case False
  let ?ixs = "[''ix_telegrams_timestamp'', ''ix_telegrams_source_id'', ''ix_telegrams_destination_id'',
    ''ix_telegrams_dpt'']"
  have tix: "tix = (''telegrams'', ?ixs)" using assms False by (auto simp: declared_indexes_def)
  have "indexes_of (ensure_indexes cat) ''telegrams'' =
    map_option (\<lambda>ex. filter (\<lambda>i. i \<notin> set OBSOLETE_INDEXES) (ex @ filter (\<lambda>i. i \<notin> set ex) ?ixs))
      (indexes_of cat ''telegrams'')"
    unfolding ensure_indexes_def declared_indexes_def Let_def
    by (simp only: foldl.simps ensure_table_indexes_none catalogue.simps)
      (simp add: ensure_table_indexes_def split: option.split)
  then show ?thesis
    by (cases "indexes_of cat ''telegrams''") (simp_all add: tix missing_index_def OBSOLETE_INDEXES_def)
qed

lemma sql_initialize_ok:
  assumes wf: "wf_engine eng" and acc: "accepting eng" and inv: "sql_inv s"
    and trusted: "last_ga_telegrams (sql_db s) \<noteq> [] \<Longrightarrow>
      metadata_flag_set (sql_db s) LAST_GA_RECONCILED_KEY \<Longrightarrow> rows_current (sql_db s)"
  shows "\<exists>s'. sql_initialize eng s = (Inr (), s') \<and> sql_inv s' \<and> contents s' = contents s \<and>
    sql_read_only s' = sql_read_only s \<and> sql_dialect s' = sql_dialect s \<and>
    (\<not> sql_read_only s \<longrightarrow> rows_current (sql_db s') \<and>
       metadata_flag_set (sql_db s') LAST_GA_RECONCILED_KEY)"
proof -
  let ?s = "s\<lparr>lookup_cache := warm (lookup_cache s) (string_lookup (sql_db s))\<rparr>"
  have inv': "sql_inv ?s"
    using inv warm_cache_ok(1) [OF sql_invD(1,2) [OF inv]] by (simp add: sql_inv_def Let_def)
  have base: "sql_db ?s = sql_db s" "sql_read_only ?s = sql_read_only s" by simp_all
  show ?thesis
  proof (cases "sql_read_only s")
    case True
    then show ?thesis
      using inv' acc by (simp add: sql_initialize_def wrapped_def Let_def contents_def)
  next
    case False
    obtain db where db: "reconcile_last_ga_telegrams eng (sql_db s) = Inr db" "sql_inv (?s\<lparr>sql_db := db\<rparr>)"
      "string_lookup db = string_lookup (sql_db s)" "telegrams db = telegrams (sql_db s)" "rows_current db"
      "metadata_flag_set db LAST_GA_RECONCILED_KEY"
      using reconcile_ok [OF wf acc inv'] trusted unfolding base by blast
    then show ?thesis
      using False acc by (simp add: sql_initialize_def wrapped_def Let_def contents_def)
  qed
qed

end
