(* ===== verification/MemoryStore.thy ===== *)
theory MemoryStore
  imports QuerySpec
begin

text \<open>
  The in-memory backend, src/knx_telegram_store/backends/memory.py: a bounded deque of telegrams
  and every operation of \<open>MemoryStore\<close> on it.
\<close>

record memory_store =
  max_telegrams :: nat
  mem_telegrams :: "stored_telegram list"

text \<open>\<open>MemoryStore(max_telegrams)\<close>: a deque rejects a negative \<open>maxlen\<close>.\<close>

definition memory_init :: "int \<Rightarrow> exc + memory_store" where
  "memory_init n =
     (if n < 0 then Inl (raise_exc ValueError)
      else Inr \<lparr>max_telegrams = nat n, mem_telegrams = []\<rparr>)"

definition memory_capabilities :: "memory_store \<Rightarrow> store_capabilities" where
  "memory_capabilities s = store_capabilities\<lparr>supports_time_range := True,
     supports_time_delta := True, supports_pagination := True, supports_count := True,
     max_storage := Some (int (max_telegrams s))\<rparr>"

section \<open>Writing\<close>

definition memory_store :: "memory_store \<Rightarrow> stored_telegram \<Rightarrow> (exc + unit) \<times> memory_store" where
  "memory_store s t = wrapped (Inr (),
     s\<lparr>mem_telegrams := deque_append (max_telegrams s) (mem_telegrams s) t\<rparr>)"

definition memory_store_many ::
  "memory_store \<Rightarrow> stored_telegram list \<Rightarrow> (exc + unit) \<times> memory_store" where
  "memory_store_many s ts = wrapped (Inr (),
     s\<lparr>mem_telegrams := deque_extend (max_telegrams s) (mem_telegrams s) ts\<rparr>)"

definition memory_clear :: "memory_store \<Rightarrow> (exc + unit) \<times> memory_store" where
  "memory_clear s = wrapped (Inr (), s\<lparr>mem_telegrams := []\<rparr>)"

text \<open>The memory store prunes by count only.\<close>

definition memory_evict_older_than ::
  "memory_store \<Rightarrow> datetime \<Rightarrow> bool \<Rightarrow> (exc + int) \<times> memory_store" where
  "memory_evict_older_than s cutoff dry_run = wrapped (Inr 0, s)"

definition memory_evict_expired :: "memory_store \<Rightarrow> bool \<Rightarrow> (exc + int) \<times> memory_store" where
  "memory_evict_expired s dry_run = wrapped (Inr 0, s)"

section \<open>Querying\<close>

definition keep_in :: "'v list \<Rightarrow> (stored_telegram \<Rightarrow> 'v) \<Rightarrow> stored_telegram list \<Rightarrow> stored_telegram list" where
  "keep_in vs f results = (if vs \<noteq> [] then filter (\<lambda>t. f t \<in> set vs) results else results)"

definition dpt_match :: "telegram_query \<Rightarrow> stored_telegram \<Rightarrow> bool" where
  "dpt_match q t =
     (if list_ex (\<lambda>m. dpt_main t = Some m) (dpt_mains q) then True
      else list_ex (\<lambda>(main, sub). dpt_main t = Some main \<and> (sub = None \<or> sub = dpt_sub t)) (dpts q))"

definition keep_from :: "datetime option \<Rightarrow> stored_telegram list \<Rightarrow> exc + stored_telegram list" where
  "keep_from start results = (case start of
     None \<Rightarrow> Inr results
   | Some st \<Rightarrow> filter_res (\<lambda>t. dt_le st (timestamp t)) results)"

definition keep_until :: "datetime option \<Rightarrow> stored_telegram list \<Rightarrow> exc + stored_telegram list" where
  "keep_until end results = (case end of
     None \<Rightarrow> Inr results
   | Some en \<Rightarrow> filter_res (\<lambda>t. dt_le (timestamp t) en) results)"

text \<open>One telegram of the context loop: is some pivot within its window?\<close>

definition context_test ::
  "datetime list \<Rightarrow> int \<Rightarrow> int \<Rightarrow> stored_telegram \<Rightarrow> exc + bool" where
  "context_test pivots delta_before delta_after t =
     bind_res (dt_plus (timestamp t) (- delta_after)) (\<lambda>low.
     bind_res (dt_plus (timestamp t) delta_before) (\<lambda>high.
     bind_res (bisect_left pivots low) (\<lambda>idx.
       if idx < length pivots then dt_le (pivots ! idx) high else Inr False)))"

definition context_window ::
  "telegram_query \<Rightarrow> stored_telegram list \<Rightarrow> stored_telegram list \<Rightarrow> exc + stored_telegram list" where
  "context_window q all_telegrams results =
     (if 0 < delta_before_ms q \<or> 0 < delta_after_ms q then
        bind_res (py_sort id False (map timestamp results)) (\<lambda>pivots.
        bind_res (timedelta_ms (delta_before_ms q)) (\<lambda>delta_before.
        bind_res (timedelta_ms (delta_after_ms q)) (\<lambda>delta_after.
          filter_res (context_test pivots delta_before delta_after) all_telegrams)))
      else Inr results)"

definition memory_query_raw :: "memory_store \<Rightarrow> telegram_query \<Rightarrow> exc + telegram_query_result" where
  "memory_query_raw s q =
     (let results = mem_telegrams s;
          results = keep_in (sources q) source results;
          results = keep_in (destinations q) destination results;
          results = keep_in (telegram_types q) telegramtype results;
          results = keep_in (directions q) direction results;
          results = (if dpt_mains q \<noteq> [] \<or> dpts q \<noteq> [] then filter (dpt_match q) results else results)
      in bind_res (keep_from (start_time q) results) (\<lambda>results.
         bind_res (keep_until (end_time q) results) (\<lambda>results.
         bind_res (context_window q (mem_telegrams s) results) (\<lambda>results.
         bind_res (py_sort timestamp (order_descending q) results) (\<lambda>results.
           let stop = offset q + limit q in
           Inr \<lparr>res_telegrams = py_slice results (offset q) stop,
                total_count = int (length results),
                limit_reached = (int (length results) > stop)\<rparr>)))))"

definition memory_query :: "memory_store \<Rightarrow> telegram_query \<Rightarrow> exc + telegram_query_result" where
  "memory_query s q = wrap_store_errors (memory_query_raw s q)"

definition memory_count :: "memory_store \<Rightarrow> exc + int" where
  "memory_count s = wrap_store_errors (Inr (int (length (mem_telegrams s))))"

text \<open>Python's \<open>min\<close> and \<open>max\<close> over datetimes, keeping the first extreme element.\<close>

fun py_extreme :: "(datetime \<Rightarrow> datetime \<Rightarrow> exc + bool) \<Rightarrow> datetime \<Rightarrow> datetime list \<Rightarrow> exc + datetime" where
  "py_extreme better cur [] = Inr cur"
| "py_extreme better cur (d # ds) =
     bind_res (better d cur) (\<lambda>b. py_extreme better (if b then d else cur) ds)"

definition extreme_opt ::
  "(datetime \<Rightarrow> datetime \<Rightarrow> exc + bool) \<Rightarrow> datetime list \<Rightarrow> exc + datetime option" where
  "extreme_opt better ds = (case ds of
     [] \<Rightarrow> Inr None
   | d # ds' \<Rightarrow> bind_res (py_extreme better d ds') (\<lambda>m. Inr (Some m)))"

definition memory_get_stats :: "memory_store \<Rightarrow> exc + store_stats" where
  "memory_get_stats s = wrap_store_errors
     (let timestamps = map timestamp (mem_telegrams s) in
      bind_res (extreme_opt dt_less timestamps) (\<lambda>oldest.
      bind_res (extreme_opt (\<lambda>a b. dt_less b a) timestamps) (\<lambda>newest.
        Inr \<lparr>telegram_count = int (length (mem_telegrams s)),
             oldest_timestamp = oldest, newest_timestamp = newest, size_bytes = None,
             stats_backend = ''memory'', stats_retention_days = None\<rparr>)))"

text \<open>The dict \<open>last_ga\<close> is its items in insertion order; \<open>AList.update\<close> assigns in place.\<close>

fun last_unique_loop ::
  "(string \<times> stored_telegram) list \<Rightarrow> stored_telegram list \<Rightarrow> exc + (string \<times> stored_telegram) list"
where
  "last_unique_loop last_ga [] = Inr last_ga"
| "last_unique_loop last_ga (t # ts) =
     (case map_of last_ga (destination t) of
        None \<Rightarrow> last_unique_loop (AList.update (destination t) t last_ga) ts
      | Some current \<Rightarrow>
          bind_res (dt_less (timestamp current) (timestamp t)) (\<lambda>newer.
            last_unique_loop
              (if newer then AList.update (destination t) t last_ga else last_ga) ts))"

definition memory_get_last_unique :: "memory_store \<Rightarrow> exc + stored_telegram list" where
  "memory_get_last_unique s = wrap_store_errors
     (bind_res (last_unique_loop [] (mem_telegrams s)) (\<lambda>last_ga. Inr (map snd last_ga)))"

section \<open>The bound is kept\<close>

definition memory_inv :: "memory_store \<Rightarrow> bool" where
  "memory_inv s \<longleftrightarrow> length (mem_telegrams s) \<le> max_telegrams s"

lemma memory_init_inv: "memory_init n = Inr s \<Longrightarrow> memory_inv s"
  by (auto simp: memory_init_def memory_inv_def split: if_splits)

lemma memory_store_many_ok:
  assumes "memory_inv s"
  shows "memory_store_many s ts =
    (Inr (), s\<lparr>mem_telegrams := take_last (max_telegrams s) (mem_telegrams s @ ts)\<rparr>)"
  using assms by (simp add: memory_store_many_def wrapped_def memory_inv_def deque_extend_take_last)

lemma memory_store_is_store_many: "memory_store s t = memory_store_many s [t]"
  by (simp add: memory_store_def memory_store_many_def)

lemma memory_write_inv:
  "memory_inv s \<Longrightarrow> memory_inv (snd (memory_store_many s ts))"
  "memory_inv s \<Longrightarrow> memory_inv (snd (memory_store s t))"
  "memory_inv s \<Longrightarrow> memory_inv (snd (memory_clear s))"
  "memory_inv s \<Longrightarrow> memory_inv (snd (memory_evict_older_than s c dry))"
  by (simp_all add: memory_store_is_store_many memory_store_many_ok)
    (simp_all add: memory_inv_def memory_clear_def memory_evict_older_than_def wrapped_def)

section \<open>The query meets the contract\<close>

text \<open>
  When a query cannot raise: every time is aware, and the window's bounds stay within the years
  a datetime can hold.
\<close>

definition bounds_aware :: "telegram_query \<Rightarrow> bool" where
  "bounds_aware q \<longleftrightarrow> (case start_time q of None \<Rightarrow> True | Some d \<Rightarrow> is_aware d) \<and>
     (case end_time q of None \<Rightarrow> True | Some d \<Rightarrow> is_aware d)"

definition shifts_ok :: "telegram_query \<Rightarrow> datetime \<Rightarrow> bool" where
  "shifts_ok q d \<longleftrightarrow> in_range (wall d - delta_after_ms q * 1000) \<and>
     in_range (wall d + delta_before_ms q * 1000)"

definition memory_queryable :: "memory_store \<Rightarrow> telegram_query \<Rightarrow> bool" where
  "memory_queryable s q \<longleftrightarrow> bounds_aware q \<and>
     list_all (\<lambda>t. is_aware (timestamp t)) (mem_telegrams s) \<and>
     (window_on q \<longrightarrow> in_range (delta_before_ms q * 1000) \<and> in_range (delta_after_ms q * 1000) \<and>
        list_all (\<lambda>t. shifts_ok q (timestamp t)) (mem_telegrams s))"

lemma keep_in_filter: "keep_in vs f ts = filter (\<lambda>t. passes vs (f t)) ts"
  by (simp add: keep_in_def passes_def)

lemma dpt_match_group: "dpt_match q t = dpt_group q t"
  by (auto simp: dpt_match_def dpt_group_def list_ex_iff)

lemma keep_from_Inr [res_simps]:
  "bounds_aware q \<Longrightarrow> (\<And>t. t \<in> set ts \<Longrightarrow> is_aware (timestamp t)) \<Longrightarrow>
   keep_from (start_time q) ts = Inr (filter
     (\<lambda>t. case start_time q of None \<Rightarrow> True | Some st \<Rightarrow> instant st \<le> time_of t) ts)"
  by (auto simp: keep_from_def bounds_aware_def res_simps comparable_aware split: option.splits)

lemma keep_until_Inr [res_simps]:
  "bounds_aware q \<Longrightarrow> (\<And>t. t \<in> set ts \<Longrightarrow> is_aware (timestamp t)) \<Longrightarrow>
   keep_until (end_time q) ts = Inr (filter
     (\<lambda>t. case end_time q of None \<Rightarrow> True | Some en \<Rightarrow> time_of t \<le> instant en) ts)"
  by (auto simp: keep_until_def bounds_aware_def res_simps comparable_aware split: option.splits)

text \<open>The bisection finds a pivot in the window exactly when there is one.\<close>

text \<open>Of sorted pivots, the first not before \<open>lo\<close> decides whether any lies between \<open>lo\<close> and \<open>hi\<close>.\<close>

lemma first_pivot:
  assumes sorted: "sorted (map instant pivots)" and "k < length pivots"
    and before: "\<forall>i < k. instant (pivots ! i) < lo" and "lo \<le> instant (pivots ! k)"
  shows "instant (pivots ! k) \<le> hi \<longleftrightarrow> (\<exists>p \<in> set pivots. lo \<le> instant p \<and> instant p \<le> hi)"
proof
  assume "instant (pivots ! k) \<le> hi"
  then show "\<exists>p \<in> set pivots. lo \<le> instant p \<and> instant p \<le> hi"
    using assms(2,4) nth_mem by blast
next
  assume "\<exists>p \<in> set pivots. lo \<le> instant p \<and> instant p \<le> hi"
  then obtain i where i: "i < length pivots" "lo \<le> instant (pivots ! i)" "instant (pivots ! i) \<le> hi"
    by (auto simp: in_set_conv_nth)
  then have "k \<le> i" using before by (meson leD leI)
  then have "instant (pivots ! k) \<le> instant (pivots ! i)"
    using sorted_nth_mono [OF sorted, of k i] i(1) by simp
  with i(3) show "instant (pivots ! k) \<le> hi" by simp
qed

lemma context_test_Inr:
  assumes aware: "is_aware (timestamp t)" "\<forall>p \<in> set pivots. is_aware p"
    and sorted: "sorted (map instant pivots)"
    and range: "in_range (wall (timestamp t) - after)" "in_range (wall (timestamp t) + before)"
  shows "context_test pivots before after t =
    Inr (\<exists>p \<in> set pivots. time_of t - after \<le> instant p \<and> instant p \<le> time_of t + before)"
proof -
  let ?low = "Datetime (wall (timestamp t) - after) (utcoffset (timestamp t))"
  let ?high = "Datetime (wall (timestamp t) + before) (utcoffset (timestamp t))"
  have low: "instant ?low = time_of t - after" "is_aware ?low"
    using aware(1) instant_shift [of "timestamp t" "- after"] by (simp_all add: is_aware_def)
  have high: "instant ?high = time_of t + before" "is_aware ?high"
    using aware(1) instant_shift [of "timestamp t" before] by (simp_all add: is_aware_def)
  have plus: "dt_plus (timestamp t) (- after) = Inr ?low" "dt_plus (timestamp t) before = Inr ?high"
    using range dt_plus_Inr [of "timestamp t" "- after"] by (simp_all add: dt_plus_def)
  have "\<forall>p \<in> set pivots. comparable p ?low" using aware(2) low(2) by (simp add: comparable_aware)
  from bisect_left_split [OF sorted this] obtain k where
    k: "bisect_left pivots ?low = Inr k" "k \<le> length pivots"
      "\<forall>i < k. instant (pivots ! i) < instant ?low"
      "\<forall>i. k \<le> i \<longrightarrow> i < length pivots \<longrightarrow> instant ?low \<le> instant (pivots ! i)" .
  show ?thesis
  proof (cases "k < length pivots")
    case True
    then have le: "dt_le (pivots ! k) ?high = Inr (instant (pivots ! k) \<le> instant ?high)"
      using aware(2) high(2) by (simp add: dt_compare comparable_aware)
    have "instant (pivots ! k) \<le> instant ?high \<longleftrightarrow>
      (\<exists>p \<in> set pivots. instant ?low \<le> instant p \<and> instant p \<le> instant ?high)"
      using first_pivot [OF sorted True k(3)] k(4) True by blast
    then show ?thesis using True by (simp add: context_test_def plus k(1) le low(1) high(1))
  next
    case False
    then have "\<not> (\<exists>p \<in> set pivots. instant ?low \<le> instant p)"
      using k(2,3) by (auto simp: in_set_conv_nth not_le)
    with False show ?thesis by (auto simp: context_test_def plus k(1) low(1))
  qed
qed

lemma context_window_Inr:
  assumes aware: "\<forall>t \<in> set ts. is_aware (timestamp t)" and sub: "set results \<subseteq> set ts"
    and range: "window_on q \<longrightarrow> in_range (delta_before_ms q * 1000) \<and>
      in_range (delta_after_ms q * 1000) \<and> list_all (\<lambda>t. shifts_ok q (timestamp t)) ts"
  shows "context_window q ts results = Inr
    (if window_on q then filter (\<lambda>t. \<exists>p \<in> set results. near q (time_of p) (time_of t)) ts else results)"
proof (cases "window_on q")
  case False
  then show ?thesis by (auto simp: context_window_def window_on_def)
next
  case True
  let ?pivots = "sort_key instant (map timestamp results)"
  have pivots: "py_sort id False (map timestamp results) = Inr ?pivots"
    using aware sub by (subst py_sort_Inr) (auto simp: id_def)
  have times: "timedelta_ms (delta_before_ms q) = Inr (delta_before_ms q * 1000)"
    "timedelta_ms (delta_after_ms q) = Inr (delta_after_ms q * 1000)"
    using range True by (simp_all add: timedelta_ms_def in_range_timedelta)
  have "context_test ?pivots (delta_before_ms q * 1000) (delta_after_ms q * 1000) t =
    Inr (\<exists>p \<in> set results. near q (time_of p) (time_of t))" if "t \<in> set ts" for t
  proof -
    have "shifts_ok q (timestamp t)" using range True that by (simp add: list_all_iff)
    then have "context_test ?pivots (delta_before_ms q * 1000) (delta_after_ms q * 1000) t =
      Inr (\<exists>p \<in> set ?pivots. time_of t - delta_after_ms q * 1000 \<le> instant p \<and>
        instant p \<le> time_of t + delta_before_ms q * 1000)"
      using aware sub that by (intro context_test_Inr) (auto simp: shifts_ok_def)
    then show ?thesis by (auto simp: near_def algebra_simps)
  qed
  then have "filter_res (context_test ?pivots (delta_before_ms q * 1000) (delta_after_ms q * 1000)) ts =
    Inr (filter (\<lambda>t. \<exists>p \<in> set results. near q (time_of p) (time_of t)) ts)"
    by (rule filter_res_Inr)
  with True show ?thesis by (simp add: context_window_def window_on_def pivots times)
qed

lemma filter_matches:
  "filter (\<lambda>t. case end_time q of None \<Rightarrow> True | Some en \<Rightarrow> time_of t \<le> instant en)
    (filter (\<lambda>t. case start_time q of None \<Rightarrow> True | Some st \<Rightarrow> instant st \<le> time_of t)
      (let results = ts;
           results = keep_in (sources q) source results;
           results = keep_in (destinations q) destination results;
           results = keep_in (telegram_types q) telegramtype results;
           results = keep_in (directions q) direction results
       in if dpt_mains q \<noteq> [] \<or> dpts q \<noteq> [] then filter (dpt_match q) results else results))
   = filter (matches q) ts"
  by (auto simp: keep_in_filter dpt_match_group matches_def in_time_range_def Let_def
      intro!: filter_cong)

lemma sort_key_time_key:
  "sort_key (\<lambda>t. if desc then - time_of t else time_of t) = sort_key (time_key desc)"
  by (simp add: time_key_def [abs_def])

lemma memory_query_eval:
  assumes q: "memory_queryable s q" and "0 \<le> limit q" "0 \<le> offset q"
  shows "memory_query s q = Inr
    (let os = sort_key (time_key (order_descending q)) (selection q (mem_telegrams s)) in
     \<lparr>res_telegrams = page q os, total_count = int (length os),
      limit_reached = (int (length os) > offset q + limit q)\<rparr>)"
proof -
  let ?ts = "mem_telegrams s"
  let ?r1 = "let results = ?ts;
           results = keep_in (sources q) source results;
           results = keep_in (destinations q) destination results;
           results = keep_in (telegram_types q) telegramtype results;
           results = keep_in (directions q) direction results
       in if dpt_mains q \<noteq> [] \<or> dpts q \<noteq> [] then filter (dpt_match q) results else results"
  let ?r2 = "filter (\<lambda>t. case start_time q of None \<Rightarrow> True | Some st \<Rightarrow> instant st \<le> time_of t) ?r1"
  have aware: "\<forall>t \<in> set ?ts. is_aware (timestamp t)" and bounds: "bounds_aware q"
    using q by (simp_all add: memory_queryable_def list_all_iff)
  have sub: "set ?r1 \<subseteq> set ?ts" by (auto simp: keep_in_filter Let_def)
  have from1: "keep_from (start_time q) ?r1 = Inr ?r2"
    using aware sub bounds by (intro keep_from_Inr) auto
  have "keep_until (end_time q) ?r2 = Inr (filter
      (\<lambda>t. case end_time q of None \<Rightarrow> True | Some en \<Rightarrow> time_of t \<le> instant en) ?r2)"
    using aware sub bounds by (intro keep_until_Inr) auto
  then have until2: "keep_until (end_time q) ?r2 = Inr (filter (matches q) ?ts)"
    by (simp only: filter_matches)
  have window: "context_window q ?ts (filter (matches q) ?ts) = Inr (selection q ?ts)"
    using q aware by (subst context_window_Inr)
      (auto simp: memory_queryable_def selection_def selects_def list_ex_iff intro!: filter_cong)
  have sort: "py_sort timestamp (order_descending q) (selection q ?ts) =
    Inr (sort_key (time_key (order_descending q)) (selection q ?ts))"
    using aware by (subst py_sort_Inr) (auto simp: selection_def sort_key_time_key)
  have raw: "memory_query_raw s q = bind_res (keep_from (start_time q) ?r1) (\<lambda>results.
         bind_res (keep_until (end_time q) results) (\<lambda>results.
         bind_res (context_window q ?ts results) (\<lambda>results.
         bind_res (py_sort timestamp (order_descending q) results) (\<lambda>results.
           Inr \<lparr>res_telegrams = py_slice results (offset q) (offset q + limit q),
                total_count = int (length results),
                limit_reached = (int (length results) > offset q + limit q)\<rparr>))))"
    by (simp add: memory_query_raw_def Let_def)
  show ?thesis
    unfolding memory_query_def raw from1 bind_res_simps until2 window sort
    using assms(2,3) by (simp add: py_slice_nonneg page_def Let_def)
qed

lemma memory_query_answers:
  assumes "memory_queryable s q" and "0 \<le> limit q" and "0 \<le> offset q"
  shows "\<exists>r. memory_query s q = Inr r \<and> answers q (mem_telegrams s) r"
  unfolding memory_query_eval [OF assms] answers_def
  by (auto simp: Let_def intro!: exI [of _ "sort_key (time_key (order_descending q)) (selection q (mem_telegrams s))"])

section \<open>The latest telegram of each destination\<close>

definition last_ga_ok :: "(string \<times> stored_telegram) list \<Rightarrow> bool" where
  "last_ga_ok acc \<longleftrightarrow> distinct (map fst acc) \<and>
     list_all (\<lambda>kt. destination (snd kt) = fst kt \<and> is_aware (timestamp (snd kt))) acc"

lemma in_set_AList_update: "kv \<in> set (AList.update k v al) \<Longrightarrow> kv = (k, v) \<or> kv \<in> set al"
  by (induction al) (auto split: if_splits)

lemma last_ga_ok_update:
  "last_ga_ok acc \<Longrightarrow> is_aware (timestamp t) \<Longrightarrow> last_ga_ok (AList.update (destination t) t acc)"
  by (auto simp: last_ga_ok_def list_all_iff distinct_update dest!: in_set_AList_update)

lemma last_unique_loop_Inr:
  assumes "\<forall>t \<in> set ts. is_aware (timestamp t)" and "last_ga_ok acc"
  shows "\<exists>acc'. last_unique_loop acc ts = Inr acc' \<and> last_ga_ok acc' \<and>
    (\<forall>d. map_of acc' d = newer time_of (map_of acc d) (newest_for ts d))"
  using assms
proof (induction ts arbitrary: acc)
  case Nil
  then show ?case by simp
next
  case (Cons t ts)
  let ?upd = "AList.update (destination t) t acc"
  have upd: "last_ga_ok ?upd" using Cons.prems by (simp add: last_ga_ok_update)
  show ?case
  proof (cases "map_of acc (destination t)")
    case None
    with Cons.IH [OF _ upd] Cons.prems(1) show ?thesis
      by (auto simp: update_conv' newer_assoc [symmetric])
  next
    case (Some c)
    then have "(destination t, c) \<in> set acc" by (rule map_of_SomeD)
    with Cons.prems(2) have "is_aware (timestamp c)" by (auto simp: last_ga_ok_def list_all_iff)
    then have less: "dt_less (timestamp c) (timestamp t) = Inr (time_of c < time_of t)"
      using Cons.prems(1) by (simp add: dt_compare comparable_aware)
    let ?acc = "if time_of c < time_of t then ?upd else acc"
    have "last_ga_ok ?acc" using upd Cons.prems(2) by simp
    with Cons.IH [of ?acc] Cons.prems(1) obtain acc' where
      acc': "last_unique_loop ?acc ts = Inr acc'" "last_ga_ok acc'"
        "\<forall>d. map_of acc' d = newer time_of (map_of ?acc d) (newest_for ts d)" by auto
    have "newer time_of (map_of ?acc d) (newest_for ts d) =
      newer time_of (map_of acc d) (newest_for (t # ts) d)" for d
      using Some by (auto simp: update_conv' newer_assoc [symmetric])
    with acc' Some less show ?thesis by simp
  qed
qed

lemma memory_get_last_unique_spec:
  assumes "list_all (\<lambda>t. is_aware (timestamp t)) (mem_telegrams s)"
  shows "\<exists>r. memory_get_last_unique s = Inr r \<and> latest_answers (newest_for (mem_telegrams s)) r"
proof -
  have "last_ga_ok []" by (simp add: last_ga_ok_def)
  with last_unique_loop_Inr [of "mem_telegrams s" "[]"] assms obtain acc where
    acc: "last_unique_loop [] (mem_telegrams s) = Inr acc" "last_ga_ok acc"
      "\<forall>d. map_of acc d = newest_for (mem_telegrams s) d"
    by (auto simp: list_all_iff)
  have keys: "map destination (map snd acc) = map fst acc"
    using acc(2) by (auto simp: last_ga_ok_def list_all_iff)
  have "distinct (map destination (map snd acc))" using acc(2) by (simp only: keys) (simp add: last_ga_ok_def)
  moreover have "t \<in> set (map snd acc) \<longleftrightarrow> newest_for (mem_telegrams s) (destination t) = Some t" for t
  proof -
    have "t \<in> set (map snd acc) \<longleftrightarrow> (destination t, t) \<in> set acc"
      using acc(2) by (force simp: last_ga_ok_def list_all_iff)
    also have "\<dots> \<longleftrightarrow> map_of acc (destination t) = Some t"
      using acc(2) by (simp add: last_ga_ok_def)
    finally show ?thesis using acc(3) by simp
  qed
  ultimately have "latest_answers (newest_for (mem_telegrams s)) (map snd acc)"
    by (simp add: latest_answers_def)
  with acc(1) show ?thesis by (simp add: memory_get_last_unique_def)
qed

end
