(* ===== verification/StoreInterface.thy ===== *)
theory StoreInterface
  imports MemoryStore SqlQuery
begin

text \<open>
  The contracts between the store and its clients: what the write buffer relies on of the store
  behind it, and what a reader relies on of any backend. Both backends satisfy them, the SQL
  store for every engine that behaves as documented and refuses no statement.
\<close>

section \<open>Writers\<close>

definition keep_newest :: "nat option \<Rightarrow> 'a list \<Rightarrow> 'a list" where
  "keep_newest capacity xs = (case capacity of None \<Rightarrow> xs | Some n \<Rightarrow> take_last n xs)"

lemma keep_newest_simps [simp]:
  "keep_newest None xs = xs"
  "keep_newest (Some n) xs = take_last n xs"
  by (simp_all add: keep_newest_def)

lemma keep_newest_append [simp]: "keep_newest c (keep_newest c xs @ ys) = keep_newest c (xs @ ys)"
  by (cases c) (simp_all add: take_last_append_take_last)

text \<open>
  Whatever the database does: a batch that succeeds is appended in its stored form, and a batch
  that fails leaves the store as it was.
\<close>

locale atomic_writer =
  fixes held :: "'s \<Rightarrow> stored_telegram list"
    and ready :: "'s \<Rightarrow> bool"
    and capacity :: "'s \<Rightarrow> nat option"
    and sane :: "stored_telegram \<Rightarrow> bool"
    and stored :: "stored_telegram \<Rightarrow> stored_telegram"
    and store_many :: "'s \<Rightarrow> stored_telegram list \<Rightarrow> (exc + unit) \<times> 's"
  assumes store_many_success: "ready s \<Longrightarrow> list_all sane ts \<Longrightarrow> store_many s ts = (Inr (), s') \<Longrightarrow>
      ready s' \<and> capacity s' = capacity s \<and> held s' = keep_newest (capacity s) (held s @ map stored ts)"
    and store_many_failure: "fst (store_many s ts) = Inl e \<Longrightarrow> snd (store_many s ts) = s"
    and held_bounded: "ready s \<Longrightarrow> keep_newest (capacity s) (held s) = held s"

text \<open>
  A database in order stores every batch, but for those with a poisoned telegram, which can never
  be stored: they fail with a data error.
\<close>

locale telegram_writer = atomic_writer +
  fixes poisoned :: "stored_telegram \<Rightarrow> bool"
  assumes store_many_accepts: "ready s \<Longrightarrow> list_all sane ts \<Longrightarrow> \<not> list_ex poisoned ts \<Longrightarrow>
      fst (store_many s ts) = Inr ()"
    and store_many_poisoned: "ready s \<Longrightarrow> list_all sane ts \<Longrightarrow> list_ex poisoned ts \<Longrightarrow>
      \<exists>e. fst (store_many s ts) = Inl e \<and> wf_exc e \<and> is_exception e \<and> data_error_cause True e \<noteq> None"
begin

lemma store_many_ok:
  assumes "ready s" and "list_all sane ts" and "\<not> list_ex poisoned ts"
  shows "\<exists>s'. store_many s ts = (Inr (), s') \<and> ready s' \<and> capacity s' = capacity s \<and>
    held s' = keep_newest (capacity s) (held s @ map stored ts)"
  using store_many_accepts [OF assms] store_many_success [OF assms(1,2)]
  by (cases "store_many s ts") auto

lemma store_many_poisoned_unchanged:
  assumes "ready s" and "list_all sane ts" and "list_ex poisoned ts"
  shows "\<exists>e. store_many s ts = (Inl e, s) \<and> wf_exc e \<and> is_exception e \<and> data_error_cause True e \<noteq> None"
  using store_many_poisoned [OF assms] store_many_failure [of s ts] by (metis prod.collapse)

text \<open>How a sequence of telegrams is cut into batches does not matter.\<close>

lemma store_many_batches:
  assumes "ready s" and "\<forall>ts \<in> set tss. list_all sane ts \<and> \<not> list_ex poisoned ts"
  shows "\<exists>s'. foldl (\<lambda>s ts. snd (store_many s ts)) s tss = s' \<and> ready s' \<and> capacity s' = capacity s \<and>
    held s' = keep_newest (capacity s) (held s @ map stored (concat tss))"
  using assms
proof (induction tss arbitrary: s)
  case Nil
  then show ?case by (simp add: held_bounded)
next
  case (Cons ts tss)
  obtain s1 where s1: "store_many s ts = (Inr (), s1)" "ready s1" "capacity s1 = capacity s"
    "held s1 = keep_newest (capacity s) (held s @ map stored ts)"
    using store_many_ok [OF Cons.prems(1), of ts] Cons.prems(2) by auto
  from Cons.IH [OF s1(2)] Cons.prems(2) s1 show ?case by simp
qed

end

section \<open>Backends\<close>

text \<open>Reading: \<open>answerable\<close> says when a query cannot raise.\<close>

locale telegram_backend = telegram_writer +
  fixes answerable :: "'s \<Rightarrow> telegram_query \<Rightarrow> bool"
    and query :: "'s \<Rightarrow> telegram_query \<Rightarrow> exc + telegram_query_result"
    and count_all :: "'s \<Rightarrow> exc + int"
  assumes query_ok: "ready s \<Longrightarrow> wf_query q \<Longrightarrow> answerable s q \<Longrightarrow>
      \<exists>r. query s q = Inr r \<and> answers q (held s) r"
    and count_ok: "ready s \<Longrightarrow> count_all s = Inr (int (length (held s)))"
begin

text \<open>Read your writes: a query after a batch sees the batch.\<close>

lemma query_after_store:
  assumes "ready s" and "list_all sane ts" and "\<not> list_ex poisoned ts" and "wf_query q"
    and "\<And>s'. held s' = keep_newest (capacity s) (held s @ map stored ts) \<Longrightarrow> answerable s' q"
  shows "\<exists>r. query (snd (store_many s ts)) q = Inr r \<and>
    answers q (keep_newest (capacity s) (held s @ map stored ts)) r"
proof -
  obtain s' where s': "store_many s ts = (Inr (), s')" "ready s'"
    "held s' = keep_newest (capacity s) (held s @ map stored ts)"
    using store_many_ok [OF assms(1-3)] by blast
  with query_ok [OF s'(2) assms(4) assms(5) [OF s'(3)]] show ?thesis by simp
qed

end

section \<open>The memory store\<close>

definition memory_capacity :: "memory_store \<Rightarrow> nat option" where
  "memory_capacity s = Some (max_telegrams s)"

lemma memory_query_ok:
  assumes "memory_inv s" and "wf_query q" and "memory_queryable s q"
  shows "\<exists>r. memory_query s q = Inr r \<and> answers q (mem_telegrams s) r"
  using memory_query_answers [of s q] assms by (simp add: wf_query_def)

interpretation mem: telegram_backend mem_telegrams memory_inv memory_capacity "\<lambda>_. True" "\<lambda>t. t"
  memory_store_many "\<lambda>_. False" memory_queryable memory_query memory_count
proof unfold_locales
  show "memory_inv s \<Longrightarrow> list_all (\<lambda>_. True) ts \<Longrightarrow> memory_store_many s ts = (Inr (), s') \<Longrightarrow>
    memory_inv s' \<and> memory_capacity s' = memory_capacity s \<and>
    mem_telegrams s' = keep_newest (memory_capacity s) (mem_telegrams s @ map (\<lambda>t. t) ts)" for s ts s'
    using memory_store_many_ok [of s ts] by (auto simp: memory_capacity_def memory_inv_def)
  show "fst (memory_store_many s ts) = Inl e \<Longrightarrow> snd (memory_store_many s ts) = s" for s ts e
    by (simp add: memory_store_many_def wrapped_def)
  show "memory_inv s \<Longrightarrow> keep_newest (memory_capacity s) (mem_telegrams s) = mem_telegrams s" for s
    by (simp add: memory_capacity_def memory_inv_def)
  show "list_ex (\<lambda>_. False) ts \<Longrightarrow>
    \<exists>e. fst (memory_store_many s ts) = Inl e \<and> wf_exc e \<and> is_exception e \<and> data_error_cause True e \<noteq> None" for s ts
    by (simp add: list_ex_iff)
qed (auto simp: memory_query_ok memory_count_def memory_store_many_def)

section \<open>The SQL store\<close>

definition sql_ready :: "sql_store \<Rightarrow> bool" where
  "sql_ready s \<longleftrightarrow> sql_inv s \<and> \<not> sql_read_only s"

definition sql_sane :: "stored_telegram \<Rightarrow> bool" where
  "sql_sane t \<longleftrightarrow> is_aware (timestamp t) \<and> in_range (time_of t) \<and>
     (case value_numeric t of None \<Rightarrow> True | Some f \<Rightarrow> \<not> is_nan f)"

text \<open>A telegram no JSON column can hold.\<close>

definition sql_poisoned :: "stored_telegram \<Rightarrow> bool" where
  "sql_poisoned t \<longleftrightarrow> \<not> (json_ok (payload t) \<and> json_ok (telegram_value t))"

lemma storable_iff: "storable t \<longleftrightarrow> sql_sane t \<and> \<not> sql_poisoned t"
  by (auto simp: storable_def sql_sane_def sql_poisoned_def)

lemma json_dumps_cases: "json_dumps v = Inl e \<Longrightarrow> e = raise_exc TypeError"
proof (induction v arbitrary: e rule: json_dumps.induct)
  case (6 vs)
  have "map_res json_dumps us = Inl e' \<Longrightarrow> set us \<subseteq> set vs \<Longrightarrow> e' = raise_exc TypeError" for us e'
    by (induction us arbitrary: e') (use 6(1) in \<open>auto simp: bind_res_Inl_conv\<close>)
  with 6(2) show ?case by (auto simp: bind_res_Inl_conv)
next
  case (7 vs)
  have "map_res json_dumps us = Inl e' \<Longrightarrow> set us \<subseteq> set vs \<Longrightarrow> e' = raise_exc TypeError" for us e'
    by (induction us arbitrary: e') (use 7(1) in \<open>auto simp: bind_res_Inl_conv\<close>)
  with 7(2) show ?case by (auto simp: bind_res_Inl_conv)
next
  case (8 kvs)
  have "map_res (\<lambda>kv. bind_res (json_dumps (snd kv)) (\<lambda>j. Inr (fst kv, j))) us = Inl e' \<Longrightarrow>
    set us \<subseteq> set kvs \<Longrightarrow> e' = raise_exc TypeError" for us e'
    by (induction us arbitrary: e') (use 8(1) in \<open>auto simp: bind_res_Inl_conv\<close>)
  with 8(2) show ?case by (auto simp: bind_res_Inl_conv)
qed auto

lemma json_dumps_Inl: "\<not> json_ok v \<Longrightarrow> json_dumps v = Inl (raise_exc TypeError)"
  using json_dumps_cases [of v] json_dumps_ok [of v] by (cases "json_dumps v") auto

lemma bind_row_poisoned:
  assumes "sql_sane t" and "sql_poisoned t" and "values_for table t v"
  shows "bind_row eng dialect v = Inl (eng_bind_error eng (raise_exc TypeError))"
proof -
  have "r_payload v = payload t" "r_value v = telegram_value t" "r_timestamp v = timestamp t"
    using assms(3) by (auto simp: values_for_def)
  then show ?thesis
    using assms(1,2) json_dumps_Inl [of "payload t"] json_dumps_Inl [of "telegram_value t"]
      json_dumps_Inr [of "payload t"]
    by (cases "json_ok (payload t)")
      (auto simp: bind_row_def bind_json_def sql_poisoned_def sql_sane_def bind_time_Inr)
qed

lemma map_res_first_error:
  assumes "\<forall>x \<in> set xs. (\<exists>y. f x = Inr y) \<or> f x = Inl e" and "\<exists>x \<in> set xs. f x = Inl e"
  shows "map_res f xs = Inl e"
  using assms by (induction xs) (auto simp: bind_res_Inl_conv)

lemma write_batch_poisoned:
  assumes wf: "wf_engine eng" and acc: "accepting eng" and inv: "sql_inv s"
    and ts: "\<forall>t \<in> set ts. sql_sane t" and bad: "\<exists>t \<in> set ts. sql_poisoned t"
  shows "write_batch eng s ts = Inl (eng_bind_error eng (raise_exc TypeError))"
proof -
  let ?pairs = "eng_set_order eng (concat (map telegram_pairs ts))"
  obtain ids table where res: "get_or_create_ids (sql_dialect s) (eng_new_id eng) (lookup_cache s)
      (string_lookup (sql_db s)) ?pairs = (ids, table)"
    by (cases "get_or_create_ids (sql_dialect s) (eng_new_id eng) (lookup_cache s)
      (string_lookup (sql_db s)) ?pairs")
  have fresh: "fresh_ids (eng_new_id eng)" using wf by (simp add: wf_engine_def)
  note got = get_or_create_ids_ok [OF sql_invD(1,2) [OF inv] fresh res]
  have "set ?pairs = set (concat (map telegram_pairs ts))" using wf by (simp add: wf_engine_def)
  then have "\<forall>t \<in> set ts. \<exists>v. make_values ids t = Inr v \<and> values_for table t v"
    using got(3) by (auto intro!: make_values_ok)
  from map_res_exists [OF this] obtain mk where
    mk: "map_res (make_values ids) ts = Inr (map mk ts)" "\<forall>t \<in> set ts. values_for table t (mk t)" by blast
  have "map_res (bind_row eng (sql_dialect s)) (map mk ts) = Inl (eng_bind_error eng (raise_exc TypeError))"
  proof (rule map_res_first_error)
    show "\<forall>v \<in> set (map mk ts). (\<exists>r. bind_row eng (sql_dialect s) v = Inr r) \<or>
      bind_row eng (sql_dialect s) v = Inl (eng_bind_error eng (raise_exc TypeError))"
    proof
      fix v
      assume "v \<in> set (map mk ts)"
      then obtain t where t: "t \<in> set ts" "v = mk t" by auto
      show "(\<exists>r. bind_row eng (sql_dialect s) v = Inr r) \<or>
        bind_row eng (sql_dialect s) v = Inl (eng_bind_error eng (raise_exc TypeError))"
        using bind_row_ok [OF wf got(1), of t v] bind_row_poisoned [of t table v] mk(2) ts t storable_iff by blast
    qed
    show "\<exists>v \<in> set (map mk ts). bind_row eng (sql_dialect s) v = Inl (eng_bind_error eng (raise_exc TypeError))"
      using bad bind_row_poisoned mk(2) ts by (metis imageI list.set_map)
  qed
  with mk(1) show ?thesis using acc by (simp add: write_batch_def Let_def res)
qed

lemma data_error_TypeError: "data_error_cause True (raise_exc TypeError) \<noteq> None"
  by (simp add: data_error_cause_def raise_exc_def data_error_types_def isinstance_def)

lemma wrapped_data_error:
  assumes "wf_exc e" and "is_exception e" and "data_error_cause True e \<noteq> None"
  shows "\<exists>e'. wrap_store_errors (Inl e) = Inl e' \<and> wf_exc e' \<and> is_exception e' \<and> data_error_cause True e' \<noteq> None"
proof (cases "isinstance (class_of e) [KnxTelegramStoreException]")
  case True
  with assms show ?thesis by simp
next
  case False
  have "\<not> isinstance KnxTelegramStoreException (data_error_types True)"
    by (simp add: isinstance_def data_error_types_def)
  then have "data_error_cause True (raise_from KnxTelegramStoreException e) \<noteq> None"
    using data_error_cause_raise_from [OF assms(1)] assms(3) by blast
  moreover have "is_exception (raise_from KnxTelegramStoreException e)"
    by (simp add: is_exception_def isinstance_def)
  ultimately show ?thesis using False assms(1,2) by (simp add: wrap_store_errors_def)
qed

lemma wf_engine_bind:
  assumes "wf_engine eng" and "wf_exc e"
  shows "wf_exc (eng_bind_error eng e)" and "is_exception (eng_bind_error eng e)"
    and "data_error_cause True e \<noteq> None \<Longrightarrow> data_error_cause True (eng_bind_error eng e) \<noteq> None"
  using assms unfolding wf_engine_def by blast+

lemma sql_store_many_poisoned:
  assumes wf: "wf_engine eng" and "accepting eng" and "sql_ready s"
    and "list_all sql_sane ts" and "list_ex sql_poisoned ts"
  shows "\<exists>e. fst (sql_store_many eng s ts) = Inl e \<and> wf_exc e \<and> is_exception e \<and> data_error_cause True e \<noteq> None"
proof -
  let ?e = "eng_bind_error eng (raise_exc TypeError)"
  have "wf_exc ?e" "is_exception ?e" "data_error_cause True ?e \<noteq> None"
    using wf_engine_bind [OF wf wf_raise(1)] data_error_TypeError by blast+
  from wrapped_data_error [OF this] obtain e where
    e: "wrap_store_errors (Inl ?e :: exc + unit) = Inl e" "wf_exc e" "is_exception e" "data_error_cause True e \<noteq> None"
    by blast
  have "write_batch eng s ts = Inl ?e"
    using assms by (intro write_batch_poisoned) (auto simp: list_all_iff list_ex_iff sql_ready_def)
  moreover have "ts \<noteq> []" using assms(5) by auto
  ultimately have "fst (sql_store_many eng s ts) = wrap_store_errors (Inl ?e)"
    using assms(3) by (simp add: sql_store_many_def ensure_writable_def sql_ready_def)
  with e show ?thesis by simp
qed

text \<open>A batch that an engine lets through, an engine that refuses nothing lets through alike.\<close>

definition unrefusing :: "sql_engine \<Rightarrow> sql_engine" where
  "unrefusing eng = eng\<lparr>eng_fail := \<lambda>_ _. None\<rparr>"

lemma unrefusing_fields [simp]:
  "accepting (unrefusing eng)"
  "wf_engine (unrefusing eng) = wf_engine eng"
  "execute (unrefusing eng) db st = Inr ()"
  "eng_set_order (unrefusing eng) = eng_set_order eng"
  "eng_new_id (unrefusing eng) = eng_new_id eng"
  "eng_bind_error (unrefusing eng) = eng_bind_error eng"
  "eng_double (unrefusing eng) = eng_double eng"
  by (simp_all add: unrefusing_def accepting_def wf_engine_def execute_def)

lemma unrefusing_bind [simp]:
  "bind_time (unrefusing eng) dialect d = bind_time eng dialect d"
  "bind_json (unrefusing eng) v = bind_json eng v"
  "bind_row (unrefusing eng) = bind_row eng"
proof -
  show time: "bind_time (unrefusing eng) dialect d = bind_time eng dialect d" for dialect d
    by (simp add: bind_time_def split: sum.split)
  show json: "bind_json (unrefusing eng) v = bind_json eng v" for v
    by (simp add: bind_json_def split: sum.split)
  show "bind_row (unrefusing eng) = bind_row eng"
    by (intro ext) (simp add: bind_row_def time json)
qed

lemma write_batch_unrefusing: "write_batch eng s ts = Inr x \<Longrightarrow> write_batch (unrefusing eng) s ts = Inr x"
  by (auto simp: write_batch_def Let_def bind_res_Inr_conv split: prod.splits)

lemma sql_store_many_extends:
  assumes wf: "wf_engine eng" and inv: "sql_inv s" and rw: "\<not> sql_read_only s" and ts: "list_all sql_sane ts"
    and ok: "sql_store_many eng s ts = (Inr (), s')"
  shows "extends s ts s'"
proof (cases "ts = []")
  case True
  with inv rw ok show ?thesis by (simp add: sql_store_many_def ensure_writable_def wrapped_def extends_refl)
next
  case False
  from ok rw False obtain ids db where batch: "write_batch eng s ts = Inr (ids, db)"
    and s': "s' = s\<lparr>sql_db := db, lookup_cache := publish (lookup_cache s) ids\<rparr>"
    by (auto simp: sql_store_many_def ensure_writable_def wrapped_def split: sum.splits)
  have free: "write_batch (unrefusing eng) s ts = Inr (ids, db)" by (rule write_batch_unrefusing [OF batch])
  have wf': "wf_engine (unrefusing eng)" using wf by simp
  have "\<forall>t \<in> set ts. storable t"
    using write_batch_poisoned [OF wf' _ inv, of ts] free ts by (auto simp: storable_iff list_all_iff)
  from write_batch_ok [OF wf' _ inv this] free s' show ?thesis by simp
qed

lemma sql_store_many_success:
  assumes "wf_engine eng" and "sql_ready s" and "list_all sql_sane ts" and "sql_store_many eng s ts = (Inr (), s')"
  shows "sql_ready s' \<and> contents s' = contents s @ map stored_form ts"
  using sql_store_many_extends [OF assms(1) _ _ assms(3,4)] assms(2) by (simp add: sql_ready_def extends_def)

locale documented_engine =
  fixes eng :: sql_engine
  assumes wf: "wf_engine eng"

locale healthy_engine = documented_engine +
  assumes accepting: "accepting eng"
begin

lemma store_many_holds:
  assumes "sql_ready s" and "list_all storable ts"
  shows "\<exists>s'. sql_store_many eng s ts = (Inr (), s') \<and> sql_ready s' \<and>
    contents s' = contents s @ map stored_form ts"
  using sql_store_many_ok [OF wf accepting, of s ts] assms
  by (auto simp: sql_ready_def list_all_iff extends_def)

end

sublocale documented_engine \<subseteq> atomic_writer contents sql_ready "\<lambda>_. None" sql_sane stored_form
  "sql_store_many eng"
proof unfold_locales
  show "sql_ready s \<Longrightarrow> list_all sql_sane ts \<Longrightarrow> sql_store_many eng s ts = (Inr (), s') \<Longrightarrow>
    sql_ready s' \<and> None = None \<and> contents s' = keep_newest None (contents s @ map stored_form ts)" for s ts s'
    using sql_store_many_success [OF wf] by simp
  show "fst (sql_store_many eng s ts) = Inl e \<Longrightarrow> snd (sql_store_many eng s ts) = s" for s ts e
    by (rule sql_store_many_atomic)
qed simp

sublocale healthy_engine \<subseteq> telegram_backend contents sql_ready "\<lambda>_. None" sql_sane stored_form
  "sql_store_many eng" sql_poisoned "\<lambda>_. sql_queryable" "sql_query eng" "sql_count eng"
proof unfold_locales
  show "sql_ready s \<Longrightarrow> list_all sql_sane ts \<Longrightarrow> \<not> list_ex sql_poisoned ts \<Longrightarrow>
    fst (sql_store_many eng s ts) = Inr ()" for s ts
    using store_many_holds [of s ts] by (auto simp: storable_iff list_all_iff list_ex_iff)
  show "sql_ready s \<Longrightarrow> list_all sql_sane ts \<Longrightarrow> list_ex sql_poisoned ts \<Longrightarrow>
    \<exists>e. fst (sql_store_many eng s ts) = Inl e \<and> wf_exc e \<and> is_exception e \<and> data_error_cause True e \<noteq> None" for s ts
    by (rule sql_store_many_poisoned [OF wf accepting])
  show "sql_ready s \<Longrightarrow> wf_query q \<Longrightarrow> sql_queryable q \<Longrightarrow>
    \<exists>r. sql_query eng s q = Inr r \<and> answers q (contents s) r" for s q
    using sql_query_answers [OF wf accepting] by (simp add: sql_ready_def)
  show "sql_ready s \<Longrightarrow> sql_count eng s = Inr (int (length (contents s)))" for s
    by (rule sql_count_ok [OF accepting])
qed

section \<open>A reference engine\<close>

text \<open>
  An engine as the databases behave: SQLite's next rowid, a Python set in insertion order, a
  stable sort, SQLAlchemy's StatementError with the original exception in \<open>orig\<close>.
\<close>

definition next_rowid :: "lookup_row list \<Rightarrow> int" where
  "next_rowid table = foldr max (map lk_id table) 0 + 1"

definition statement_error :: "exc \<Rightarrow> exc" where
  "statement_error e = (case e of (nodes, r) \<Rightarrow>
     (nodes @ [\<lparr>exc_class = StatementError, exc_cause = Some r, exc_context = Some r, exc_orig = Some r\<rparr>],
      length nodes))"

definition stable_order :: "int list \<Rightarrow> nat list" where
  "stable_order keys = sort_key (\<lambda>i. keys ! i) [0..<length keys]"

definition reference_engine :: sql_engine where
  "reference_engine =
     \<lparr>eng_new_id = next_rowid, eng_set_order = (\<lambda>ps. rev (remdups (rev ps))),
      eng_order = stable_order, eng_fail = (\<lambda>_ _. None), eng_bind_error = statement_error,
      eng_double = (\<lambda>f. case f of None \<Rightarrow> None | Some x \<Rightarrow> if is_nan x then None else Some x),
      eng_rank = (\<lambda>_. 0)\<rparr>"

lemma next_rowid_fresh: "fresh_ids next_rowid"
proof -
  have "r \<in> set table \<Longrightarrow> lk_id r < next_rowid table" for r table
    by (induction table) (auto simp: next_rowid_def)
  then show ?thesis by (force simp: fresh_ids_def)
qed

lemma stable_order_ok: "is_order keys (stable_order keys)"
  unfolding is_order_def stable_order_def by (simp add: sorted_sort_key)

lemma statement_error_ok:
  assumes "wf_exc e"
  shows "wf_exc (statement_error e)" and "is_exception (statement_error e)"
    and "data_error_cause True e \<noteq> None \<Longrightarrow> data_error_cause True (statement_error e) \<noteq> None"
proof -
  obtain nodes r where e: "e = (nodes, r)" by (cases e)
  let ?w = "\<lparr>exc_class = StatementError, exc_cause = Some r, exc_context = Some r, exc_orig = Some r\<rparr>"
  have w: "statement_error e = (nodes @ [?w], length nodes)" by (simp add: e statement_error_def)
  have r: "r < length nodes" using assms by (simp add: e wf_exc_def)
  show "wf_exc (statement_error e)"
    unfolding w using assms r unfolding e by (fastforce simp: wf_exc_def links_def)
  show "is_exception (statement_error e)"
    by (simp add: w is_exception_def class_of_def isinstance_def nth_append)
  assume "data_error_cause True e \<noteq> None"
  then obtain i where i: "exc_reach nodes r i" "isinstance (exc_class (nodes ! i)) (data_error_types True)"
    unfolding e data_error_cause_pair by blast
  have "exc_reach (nodes @ [?w]) (length nodes) (length nodes)" by (rule exc_reach.here) simp
  then have "exc_reach (nodes @ [?w]) (length nodes) r"
    by (rule exc_reach.link) (use r in \<open>simp_all add: links_def\<close>)
  moreover have "exc_reach (nodes @ [?w]) r i"
    using exc_reach_append [of nodes r ?w i] assms i(1) by (simp add: e)
  ultimately have "exc_reach (nodes @ [?w]) (length nodes) i" by (rule exc_reach_trans [rotated])
  moreover have "(nodes @ [?w]) ! i = nodes ! i" using exc_reach_bounds [OF i(1)] by (simp add: nth_append)
  ultimately show "data_error_cause True (statement_error e) \<noteq> None"
    unfolding w data_error_cause_pair using i(2) by metis
qed

lemma wf_reference_engine: "wf_engine reference_engine"
  using statement_error_ok
  by (simp add: wf_engine_def reference_engine_def next_rowid_fresh stable_order_ok)

lemma accepting_reference_engine: "accepting reference_engine"
  by (simp add: accepting_def reference_engine_def)

interpretation ref: healthy_engine reference_engine
  by unfold_locales (rule wf_reference_engine accepting_reference_engine)+

end
