(* ===== verification/Samples.thy ===== *)
theory Samples
  imports StoreInterface
begin

text \<open>
  Concrete telegrams, queries and stores, small enough to evaluate, for the statements that show
  each property at work on an input.
\<close>

text \<open>A write to the group address \<open>dst\<close>, \<open>n\<close> seconds after 2023-11-14 22:13:20 UTC.\<close>

definition sample :: "int \<Rightarrow> string \<Rightarrow> stored_telegram" where
  "sample n dst = (stored_telegram (Datetime (1700000000000000 + n * 1000000) (Some 0))
     ''1.1.1'' dst ''GroupValueWrite'' ''Incoming'')\<lparr>payload := PyTuple [PyInt 12, PyInt 84]\<rparr>"

text \<open>A telegram whose value no JSON column can hold.\<close>

definition poison_sample :: stored_telegram where
  "poison_sample = (sample 3 ''1/2/3'')\<lparr>telegram_value := PyObject\<rparr>"

definition fresh_store :: sql_store where
  "fresh_store = sql_init empty_db Sqlite (Some 30) False"

lemma sample_fields [simp]:
  "timestamp (sample n dst) = Datetime (1700000000000000 + n * 1000000) (Some 0)"
  "source (sample n dst) = ''1.1.1''"
  "destination (sample n dst) = dst"
  "telegramtype (sample n dst) = ''GroupValueWrite''"
  "direction (sample n dst) = ''Incoming''"
  "payload (sample n dst) = PyTuple [PyInt 12, PyInt 84]"
  "telegram_value (sample n dst) = PyNone"
  "value_numeric (sample n dst) = None"
  "dpt_main (sample n dst) = None"
  "dpt_sub (sample n dst) = None"
  by (simp_all add: sample_def stored_telegram_def)

lemma sample_in_range [simp]: "\<bar>n\<bar> \<le> 1000000 \<Longrightarrow> in_range (1700000000000000 + n * 1000000)"
  unfolding in_range_def min_wall_def max_wall_def by linarith

lemma sample_storable [simp]: "\<bar>n\<bar> \<le> 1000000 \<Longrightarrow> storable (sample n dst)"
  by (simp add: storable_def)

lemma sample_sane [simp]: "\<bar>n\<bar> \<le> 1000000 \<Longrightarrow> sql_sane (sample n dst)" "\<not> sql_poisoned (sample n dst)"
  by (simp_all add: sql_sane_def sql_poisoned_def)

lemma poison_sample_simps [simp]:
  "sql_sane poison_sample" "sql_poisoned poison_sample" "destination poison_sample = ''1/2/3''"
  by (simp_all add: poison_sample_def sql_sane_def sql_poisoned_def in_range_def min_wall_def max_wall_def)

lemma fresh_store_simps [simp]:
  "sql_inv fresh_store" "\<not> sql_read_only fresh_store" "sql_ready fresh_store"
  "contents fresh_store = []" "latest_of fresh_store = (\<lambda>_. None)" "sql_retention_days fresh_store = Some 30"
  using sql_inv_init [of Sqlite "Some 30" False]
  by (auto simp: fresh_store_def sql_ready_def contents_def latest_of_def sql_init_def empty_db_def)

text \<open>Queries no bound of which is out of range.\<close>

lemma plain_queryable [simp]: "sql_queryable telegram_query" "wf_query telegram_query"
  by (simp_all add: sql_queryable_def wf_query_def bounds_ok_def telegram_query_def in_range_def
      min_wall_def max_wall_def)

definition window_query :: telegram_query where
  "window_query = telegram_query\<lparr>destinations := [''1/2/3''], delta_before_ms := 1500, limit := 10\<rparr>"

lemma window_queryable [simp]: "sql_queryable window_query" "wf_query window_query"
  by (simp_all add: window_query_def sql_queryable_def wf_query_def bounds_ok_def telegram_query_def
      in_range_def min_wall_def max_wall_def)

definition full_memory :: memory_store where
  "full_memory = \<lparr>max_telegrams = 3, mem_telegrams = [sample 0 ''1/2/3'', sample 1 ''4/5/6'', sample 5 ''1/2/3'']\<rparr>"

lemma full_memory_simps [simp]:
  "memory_inv full_memory"
  "mem_telegrams full_memory = [sample 0 ''1/2/3'', sample 1 ''4/5/6'', sample 5 ''1/2/3'']"
  "max_telegrams full_memory = 3"
  by (simp_all add: memory_inv_def full_memory_def)

lemma full_memory_queryable [simp]:
  "memory_queryable full_memory telegram_query" "memory_queryable full_memory window_query"
  by (simp_all add: memory_queryable_def bounds_aware_def window_on_def window_query_def
      telegram_query_def shifts_ok_def in_range_def min_wall_def max_wall_def)

text \<open>The same telegrams in a SQL store.\<close>

definition full_store :: sql_store where
  "full_store = snd (sql_store_many reference_engine fresh_store (mem_telegrams full_memory))"

lemma full_store_stored:
  "sql_store_many reference_engine fresh_store (mem_telegrams full_memory) = (Inr (), full_store) \<and>
   extends fresh_store (mem_telegrams full_memory) full_store"
  using sql_store_many_ok [OF wf_reference_engine accepting_reference_engine, of fresh_store "mem_telegrams full_memory"]
  by (auto simp: full_store_def)

lemma full_store_simps [simp]:
  "sql_inv full_store" "\<not> sql_read_only full_store" "sql_ready full_store"
  "contents full_store = map stored_form (mem_telegrams full_memory)"
  "latest_of full_store = newest_for (contents full_store)"
  "sql_retention_days full_store = Some 30"
proof -
  have full: "extends fresh_store (mem_telegrams full_memory) full_store" using full_store_stored by blast
  then show "sql_inv full_store" "\<not> sql_read_only full_store" "sql_ready full_store"
    "contents full_store = map stored_form (mem_telegrams full_memory)" "sql_retention_days full_store = Some 30"
    by (simp_all add: extends_def sql_ready_def)
  show "latest_of full_store = newest_for (contents full_store)"
    using full by (simp add: extends_def fun_eq_iff)
qed

end
