(* ===== verification/StoreProperties.thy ===== *)
theory StoreProperties
  imports SqlMaintenance Samples
begin

text \<open>
  What the stores guarantee: the properties of the SQL store and of the memory store, and their
  equivalence, each with an input to which it applies.
\<close>

section \<open>Stored telegrams keep what queries look at\<close>

lemma stored_form_fields [simp]:
  "source (stored_form t) = source t" "telegramtype (stored_form t) = telegramtype t"
  "direction (stored_form t) = direction t" "dpt_main (stored_form t) = dpt_main t"
  "dpt_sub (stored_form t) = dpt_sub t"
  by (simp_all add: stored_form_def)

lemma matches_stored_form [simp]: "matches q (stored_form t) = matches q t"
  by (simp add: matches_def dpt_group_def)

lemma selects_stored_form: "selects q (map stored_form ts) (stored_form t) = selects q ts t"
  by (simp add: selects_def list_ex_iff)

lemma selection_stored_form: "selection q (map stored_form ts) = map stored_form (selection q ts)"
  by (simp add: selection_def filter_map comp_def selects_stored_form)

lemma time_key_stored_form [simp]: "time_key d (stored_form t) = time_key d t"
  by (cases d) (simp_all add: time_key_def)

lemma answers_stored_form:
  assumes "answers q ts r"
  shows "answers q (map stored_form ts) (r\<lparr>res_telegrams := map stored_form (res_telegrams r)\<rparr>)"
proof -
  obtain os where os: "mset os = mset (selection q ts)" "sorted (map (time_key (order_descending q)) os)"
    "res_telegrams r = page q os"
    using assms by (auto simp: answers_def)
  have "sorted (map (time_key (order_descending q)) (map stored_form os))"
    using os(2) by (simp add: comp_def)
  moreover have "mset (map stored_form os) = mset (selection q (map stored_form ts))"
    using os(1) by (simp add: selection_stored_form)
  moreover have "map stored_form (res_telegrams r) = page q (map stored_form os)"
    using os(3) by (simp add: page_map)
  moreover have "total_count r = int (length (selection q (map stored_form ts)))" "limit_reached r = (total_count r > offset q + limit q)"
    using assms by (simp_all add: answers_def selection_stored_form)
  ultimately show ?thesis
    unfolding answers_def by (auto intro!: exI [of _ "map stored_form os"])
qed

lemma newest_for_stored_form: "newest_for (map stored_form ts) d = map_option stored_form (newest_for ts d)"
  by (simp add: newest_for_def filter_map comp_def first_max_map)

lemma latest_answers_stored_form:
  assumes "latest_answers (newest_for ts) r"
  shows "latest_answers (newest_for (map stored_form ts)) (map stored_form r)"
  unfolding latest_answers_def
proof (intro conjI allI)
  show "distinct (map destination (map stored_form r))" using assms by (simp add: latest_answers_def comp_def)
  fix t
  have r: "u \<in> set r \<longleftrightarrow> newest_for ts (destination u) = Some u" for u
    using assms by (simp add: latest_answers_def)
  show "t \<in> set (map stored_form r) \<longleftrightarrow> newest_for (map stored_form ts) (destination t) = Some t"
  proof
    assume "t \<in> set (map stored_form r)"
    then obtain u where "u \<in> set r" "t = stored_form u" by auto
    with r show "newest_for (map stored_form ts) (destination t) = Some t" by (simp add: newest_for_stored_form)
  next
    assume "newest_for (map stored_form ts) (destination t) = Some t"
    then obtain u where u: "newest_for ts (destination t) = Some u" "t = stored_form u"
      by (auto simp: newest_for_stored_form)
    with newest_for_destination [OF u(1)] r show "t \<in> set (map stored_form r)" by auto
  qed
qed

text \<open>A store whose summary table agrees with its telegrams goes on doing so.\<close>

definition summary_exact :: "sql_store \<Rightarrow> bool" where
  "summary_exact s \<longleftrightarrow> latest_of s = newest_for (contents s)"

lemma summary_exact_extends: "extends s ts s' \<Longrightarrow> summary_exact s \<Longrightarrow> summary_exact s'"
  by (simp add: summary_exact_def extends_def newest_for_append fun_eq_iff)

lemma sql_batches_ok:
  assumes "wf_engine eng" and "accepting eng" and "\<forall>ts \<in> set tss. \<forall>t \<in> set ts. storable t"
    and "sql_inv s" and "\<not> sql_read_only s"
  shows "extends s (concat tss) (foldl (\<lambda>s ts. snd (sql_store_many eng s ts)) s tss)"
  using assms(3-5)
proof (induction tss arbitrary: s)
  case Nil
  then show ?case by (simp add: extends_refl)
next
  case (Cons ts tss)
  obtain s1 where s1: "sql_store_many eng s ts = (Inr (), s1)" "extends s ts s1"
    using sql_store_many_ok [OF assms(1,2) Cons.prems(2,3), of ts] Cons.prems(1) by auto
  then have "extends s1 (concat tss) (foldl (\<lambda>s ts. snd (sql_store_many eng s ts)) s1 tss)"
    using Cons.prems by (intro Cons.IH) (simp_all add: extends_def)
  with s1 show ?case by (auto simp: extends_def newest_for_append newer_assoc)
qed

section \<open>The SQL store\<close>

text \<open>
  C1: Whatever is stored in a batch is there for the next query: on a database in order, a store
  in a valid state takes every batch of storable telegrams, and a query then answers the query
  contract (filters, time range, context window, order, page, total, limit flag) over what the
  store held and the batch, each telegram in its stored form.
\<close>

theorem sql_query_after_store:
  assumes "wf_engine eng" and "accepting eng" and "sql_inv s" and "\<not> sql_read_only s"
    and "\<forall>t \<in> set ts. storable t" and "sql_queryable q"
  shows "\<exists>s' r. sql_store_many eng s ts = (Inr (), s') \<and> sql_query eng s' q = Inr r \<and>
    answers q (contents s @ map stored_form ts) r"
proof -
  obtain s' where s': "sql_store_many eng s ts = (Inr (), s')" "extends s ts s'"
    using sql_store_many_ok [OF assms(1-5)] by blast
  then have "sql_inv s'" "contents s' = contents s @ map stored_form ts" by (simp_all add: extends_def)
  with s'(1) sql_query_answers [OF assms(1,2) _ assms(6), of s'] show ?thesis by auto
qed

theorem sql_query_after_store_witness:
  "\<exists>s' r. sql_store_many reference_engine full_store [sample 6 ''1/2/3''] = (Inr (), s') \<and>
    sql_query reference_engine s' window_query = Inr r \<and>
    answers window_query (contents full_store @ map stored_form [sample 6 ''1/2/3'']) r"
  by (rule sql_query_after_store [OF wf_reference_engine accepting_reference_engine]) simp_all

text \<open>
  C2: A batch is appended as a whole, in its order and in its stored form, and the summary of each
  group address becomes the newer of what it was and the first newest telegram of the batch; the
  tables stay consistent.
\<close>

theorem sql_store_many_appends:
  assumes "wf_engine eng" and "accepting eng" and "sql_inv s" and "\<not> sql_read_only s"
    and "\<forall>t \<in> set ts. storable t"
  shows "\<exists>s'. sql_store_many eng s ts = (Inr (), s') \<and> sql_inv s' \<and>
    contents s' = contents s @ map stored_form ts \<and>
    (\<forall>d. latest_of s' d = newer time_of (latest_of s d) (newest_for (map stored_form ts) d))"
  using sql_store_many_ok [OF assms] by (auto simp: extends_def)

theorem sql_store_many_appends_witness:
  "\<exists>s'. sql_store_many reference_engine fresh_store [sample 1 ''1/2/3'', sample 0 ''1/2/3''] = (Inr (), s') \<and>
    sql_inv s' \<and>
    contents s' = contents fresh_store @ map stored_form [sample 1 ''1/2/3'', sample 0 ''1/2/3''] \<and>
    (\<forall>d. latest_of s' d = newer time_of (latest_of fresh_store d)
      (newest_for (map stored_form [sample 1 ''1/2/3'', sample 0 ''1/2/3'']) d))"
  by (rule sql_store_many_appends [OF wf_reference_engine accepting_reference_engine]) simp_all

text \<open>
  C5: A batch is stored in full or not at all: whichever statement of it the database refuses, a
  call that raises leaves tables and cache as they were, and one that returns has appended it.
\<close>

theorem sql_store_many_all_or_nothing:
  assumes "wf_engine eng" and "sql_ready s" and "list_all sql_sane ts"
  shows "case sql_store_many eng s ts of
      (Inl e, s') \<Rightarrow> s' = s
    | (Inr _, s') \<Rightarrow> sql_ready s' \<and> contents s' = contents s @ map stored_form ts"
proof -
  obtain r s' where "sql_store_many eng s ts = (r, s')" by (cases "sql_store_many eng s ts")
  with sql_store_many_success [OF assms, of s'] sql_store_many_atomic [of eng s ts] show ?thesis
    by (cases r) auto
qed

theorem sql_store_many_all_or_nothing_witness:
  "case sql_store_many (reference_engine\<lparr>eng_fail := \<lambda>_ st. if st = CommitWork then Some (raise_exc OperationalError) else None\<rparr>)
      full_store [sample 6 ''1/2/3''] of
      (Inl e, s') \<Rightarrow> s' = full_store
    | (Inr _, s') \<Rightarrow> sql_ready s' \<and> contents s' = contents full_store @ map stored_form [sample 6 ''1/2/3'']"
proof (rule sql_store_many_all_or_nothing)
  show "wf_engine (reference_engine\<lparr>eng_fail := \<lambda>_ st. if st = CommitWork then Some (raise_exc OperationalError) else None\<rparr>)"
    using wf_reference_engine by (simp add: wf_engine_def)
qed simp_all

text \<open>
  C25: The summary table of an initially empty store is exact: after any sequence of batches, the
  newest value of each group address is that of the telegrams stored, whatever the order of their
  timestamps and however they were cut into batches.
\<close>

theorem sql_batches_summary:
  assumes "wf_engine eng" and "accepting eng" and "\<forall>ts \<in> set tss. \<forall>t \<in> set ts. storable t"
  shows "let s = foldl (\<lambda>s ts. snd (sql_store_many eng s ts)) (sql_init empty_db dialect days False) tss in
    sql_inv s \<and> contents s = map stored_form (concat tss) \<and>
    latest_of s = newest_for (map stored_form (concat tss))"
  using sql_batches_ok [OF assms sql_inv_init]
  by (auto simp: extends_def contents_def latest_of_def sql_init_def empty_db_def Let_def fun_eq_iff)

theorem sql_batches_summary_witness:
  "let s = foldl (\<lambda>s ts. snd (sql_store_many reference_engine s ts)) (sql_init empty_db Postgresql None False)
      [[sample 5 ''1/2/3'', sample 1 ''4/5/6''], [sample 2 ''1/2/3'']] in
    sql_inv s \<and> contents s = map stored_form (concat [[sample 5 ''1/2/3'', sample 1 ''4/5/6''], [sample 2 ''1/2/3'']]) \<and>
    latest_of s = newest_for (map stored_form (concat [[sample 5 ''1/2/3'', sample 1 ''4/5/6''], [sample 2 ''1/2/3'']]))"
  by (rule sql_batches_summary [OF wf_reference_engine accepting_reference_engine]) simp

text \<open>
  The latest values: in a valid store, \<open>get_last_unique_telegrams\<close> returns one telegram for
  each group address of the summary table, the one recorded there; the inner joins lose no row.
\<close>

lemma sql_last_unique_complete:
  assumes "wf_engine eng" and "accepting eng" and "sql_inv s"
  shows "\<exists>r. sql_get_last_unique eng s = Inr r \<and> distinct (map destination r) \<and>
    (\<forall>t. t \<in> set r \<longleftrightarrow> latest_of s (destination t) = Some t)"
  using sql_get_last_unique_ok [OF assms] by (auto simp: latest_answers_def)

text \<open>
  A telegram that cannot be encoded fails its whole batch with a data error, which the write
  buffer recognises through the store's own exception, and the store is unchanged.
\<close>

lemma sql_poisoned_batch:
  assumes "wf_engine eng" and "accepting eng" and "sql_ready s"
    and "list_all sql_sane ts" and "list_ex sql_poisoned ts"
  shows "\<exists>e. sql_store_many eng s ts = (Inl e, s) \<and> is_exception e \<and> data_error_cause True e \<noteq> None"
  using sql_store_many_poisoned [OF assms] sql_store_many_atomic [of eng s ts] by (metis prod.collapse)

section \<open>Retention\<close>

text \<open>
  Retention deletes exactly the expired telegrams: with \<open>n\<close> retention days, the telegrams more
  than \<open>n\<close> days older than now are counted and, unless it is a dry run, removed; the latest
  values stay, also those of group addresses no telegram is left of.
\<close>

lemma sql_evict_expired_exact:
  assumes "accepting eng" and "sql_inv s" and "\<not> sql_read_only s" and "sql_retention_days s = Some n"
    and "is_aware now" and "in_range (n * micros_per_day)" and "in_range (wall now - n * micros_per_day)"
    and "in_range (instant now - n * micros_per_day)"
  shows "\<exists>s'. sql_evict_expired eng now s dry_run = (Inr (int (length (filter
      (\<lambda>t. time_of t < instant now - n * micros_per_day) (contents s)))), s') \<and> sql_inv s' \<and>
    contents s' = (if dry_run then contents s
      else filter (\<lambda>t. instant now - n * micros_per_day \<le> time_of t) (contents s)) \<and>
    latest_of s' = latest_of s"
proof -
  let ?cutoff = "Datetime (wall now - n * micros_per_day) (utcoffset now)"
  have inst: "instant ?cutoff = instant now - n * micros_per_day" by (simp add: instant_def)
  have "sql_expiry_cutoff now s = Inr (Some ?cutoff)"
    using assms(4,6,7) in_range_timedelta [OF assms(6)] by (simp add: sql_expiry_cutoff_def dt_plus_def)
  moreover obtain s' where "sql_evict_older_than eng s ?cutoff dry_run =
      (Inr (int (length (filter (\<lambda>t. time_of t < instant ?cutoff) (contents s)))), s')" "sql_inv s'"
    "contents s' = (if dry_run then contents s else filter (\<lambda>t. \<not> time_of t < instant ?cutoff) (contents s))"
    "latest_of s' = latest_of s"
    using sql_evict_older_than_ok [OF assms(1-3), of ?cutoff dry_run] assms(8) inst by auto
  ultimately show ?thesis using inst by (simp add: sql_evict_expired_def wrapped_def not_less)
qed



section \<open>Startup\<close>

text \<open>What the flag of an earlier reconciliation promises.\<close>

definition summary_trusted :: "sql_db \<Rightarrow> bool" where
  "summary_trusted db \<longleftrightarrow>
     (last_ga_telegrams db \<noteq> [] \<longrightarrow> metadata_flag_set db LAST_GA_RECONCILED_KEY \<longrightarrow> rows_current db)"

lemma rows_current_nonempty: "rows_current db \<Longrightarrow> telegrams db \<noteq> [] \<Longrightarrow> last_ga_telegrams db \<noteq> []"
  by (cases "telegrams db") (auto simp: rows_current_def)

lemma nothing_missing: "\<not> list_ex (missing_index (ensure_indexes cat)) declared_indexes"
  using ensure_indexes_complete by (auto simp: list_ex_iff)

text \<open>
  C23: Starting a store repairs its summary once and for all: afterwards every stored telegram has
  an entry for its group address that is at least as new, no telegram was touched, and the check
  for pending startup work, with the indexes created as well, reports none.
\<close>

theorem sql_startup_complete:
  assumes "wf_engine eng" and "accepting eng" and "sql_inv s" and "\<not> sql_read_only s"
    and "summary_trusted (sql_db s)"
  shows "\<exists>s'. sql_initialize eng s = (Inr (), s') \<and> sql_inv s' \<and> contents s' = contents s \<and>
    (\<forall>t \<in> set (contents s'). \<exists>l. latest_of s' (destination t) = Some l \<and> time_of t \<le> time_of l) \<and>
    \<not> pending_startup_work (ensure_indexes cat) (sql_db s')"
proof -
  obtain s' where s': "sql_initialize eng s = (Inr (), s')" "sql_inv s'" "contents s' = contents s"
    "rows_current (sql_db s')" "metadata_flag_set (sql_db s') LAST_GA_RECONCILED_KEY"
    using sql_initialize_ok [OF assms(1-3)] assms(4,5) by (auto simp: summary_trusted_def)
  have "current s'" by (rule rows_current_current [OF s'(2,4)])
  moreover have "\<not> pending_startup_work (ensure_indexes cat) (sql_db s')"
    using nothing_missing rows_current_nonempty [OF s'(4)] s'(5) by (auto simp: pending_startup_work_def)
  ultimately show ?thesis using s'(1-3) by (auto simp: current_def)
qed

text \<open>A summary that lost an entry: the store of the samples with an empty summary table.\<close>

definition damaged_store :: sql_store where
  "damaged_store = full_store\<lparr>sql_db := (sql_db full_store)\<lparr>last_ga_telegrams := []\<rparr>\<rparr>"

lemma damaged_store_simps [simp]: "sql_inv damaged_store" "\<not> sql_read_only damaged_store"
  using full_store_simps(1,2) by (simp_all add: damaged_store_def sql_inv_def Let_def)

theorem sql_startup_complete_witness:
  "\<exists>s'. sql_initialize reference_engine damaged_store = (Inr (), s') \<and> sql_inv s' \<and>
    contents s' = contents damaged_store \<and>
    (\<forall>t \<in> set (contents s'). \<exists>l. latest_of s' (destination t) = Some l \<and> time_of t \<le> time_of l) \<and>
    \<not> pending_startup_work (ensure_indexes \<lparr>has_telegrams = True, indexes_of = \<lambda>_. Some []\<rparr>) (sql_db s')"
  by (rule sql_startup_complete [OF wf_reference_engine accepting_reference_engine])
    (simp_all add: summary_trusted_def, simp add: damaged_store_def)

section \<open>Interned strings\<close>

text \<open>
  C27: Every string of a batch is interned once: each pair of category and value asked for gets the
  id of its row, ids and pairs stay unique, the table only grows, and after the commit the cache
  names rows of the table only, for every dialect.
\<close>

theorem lookup_interns:
  assumes "lookup_ok table" and "cache_ok c table" and "fresh_ids new_id"
  shows "case get_or_create_ids dialect new_id c table pairs of (resolved, table') \<Rightarrow>
    lookup_ok table' \<and> (\<exists>new. table' = table @ new) \<and> cache_ok (publish c resolved) table' \<and>
    (\<forall>p. p \<in> set pairs \<longrightarrow> (\<exists>i. resolved p = Some i \<and> has_id table' p i))"
proof -
  obtain resolved table' where res: "get_or_create_ids dialect new_id c table pairs = (resolved, table')"
    by (cases "get_or_create_ids dialect new_id c table pairs")
  note got = get_or_create_ids_ok [OF assms res]
  obtain new where new: "table' = table @ new" using got(2) by blast
  have "cache_ok (publish c resolved) table'"
    unfolding new by (rule publish_ok [OF assms(2)]) (use got(4) in \<open>simp add: new\<close>)
  with got(1-3) res show ?thesis by (simp del: split_paired_All)
qed

theorem lookup_interns_witness:
  "case get_or_create_ids Sqlite next_rowid lookup_cache_init
      [\<lparr>lk_id = 4, lk_category = ''source'', lk_value = ''1.1.1''\<rparr>]
      [(''source'', ''1.1.1''), (''direction'', ''Incoming'')] of (resolved, table') \<Rightarrow>
    lookup_ok table' \<and> (\<exists>new. table' = [\<lparr>lk_id = 4, lk_category = ''source'', lk_value = ''1.1.1''\<rparr>] @ new) \<and>
    cache_ok (publish lookup_cache_init resolved) table' \<and>
    (\<forall>p. p \<in> set [(''source'', ''1.1.1''), (''direction'', ''Incoming'')] \<longrightarrow>
      (\<exists>i. resolved p = Some i \<and> has_id table' p i))"
  by (rule lookup_interns)
    (simp_all add: lookup_ok_def cache_ok_def lookup_cache_init_def next_rowid_fresh)

section \<open>The memory store\<close>

text \<open>
  C9: A query of the memory store, with its chain of filters and the bisected context window,
  is the contract's selection, sorted by time (stably, also when descending) and cut to the page.
\<close>

theorem memory_query_exact:
  assumes "memory_queryable s q" and "wf_query q"
  shows "memory_query s q = Inr
    (let os = sort_key (time_key (order_descending q)) (selection q (mem_telegrams s)) in
     \<lparr>res_telegrams = page q os, total_count = int (length os),
      limit_reached = (int (length os) > offset q + limit q)\<rparr>)"
  using assms by (intro memory_query_eval) (simp_all add: wf_query_def)

theorem memory_query_exact_witness:
  "memory_query full_memory window_query = Inr
    (let os = sort_key (time_key (order_descending window_query)) (selection window_query (mem_telegrams full_memory)) in
     \<lparr>res_telegrams = page window_query os, total_count = int (length os),
      limit_reached = (int (length os) > offset window_query + limit window_query)\<rparr>)"
  by (rule memory_query_exact) simp_all

text \<open>
  C29: The memory store keeps the newest \<open>n\<close> telegrams stored, in their order, whether they come
  one by one or in batches.
\<close>

theorem memory_keeps_newest:
  assumes "memory_init n = Inr s"
  shows "mem_telegrams (foldl (\<lambda>s ts. snd (memory_store_many s ts)) s tss) = take_last (nat n) (concat tss) \<and>
    mem_telegrams (foldl (\<lambda>s t. snd (memory_store s t)) s ts) = take_last (nat n) ts"
proof -
  have s: "memory_inv s" "max_telegrams s = nat n" "mem_telegrams s = []"
    using assms by (auto simp: memory_init_def memory_inv_def split: if_splits)
  have batches: "mem_telegrams (foldl (\<lambda>s ts. snd (memory_store_many s ts)) s tss) = take_last (nat n) (concat tss)" for tss
    using mem.store_many_batches [OF s(1), of tss] s by (simp add: memory_capacity_def list_all_iff list_ex_iff)
  have "foldl (\<lambda>s t. snd (memory_store s t)) s ts = foldl (\<lambda>s ts. snd (memory_store_many s ts)) s (map (\<lambda>t. [t]) ts)"
    by (simp add: foldl_map memory_store_is_store_many)
  with batches [of tss] batches [of "map (\<lambda>t. [t]) ts"] show ?thesis by simp
qed

theorem memory_keeps_newest_witness:
  "mem_telegrams (foldl (\<lambda>s ts. snd (memory_store_many s ts)) \<lparr>max_telegrams = 2, mem_telegrams = []\<rparr>
      [[sample 0 ''1/2/3'', sample 1 ''1/2/3''], [sample 2 ''1/2/3'']]) =
    take_last (nat 2) (concat [[sample 0 ''1/2/3'', sample 1 ''1/2/3''], [sample 2 ''1/2/3'']]) \<and>
    mem_telegrams (foldl (\<lambda>s t. snd (memory_store s t)) \<lparr>max_telegrams = 2, mem_telegrams = []\<rparr>
      [sample 0 ''1/2/3'', sample 1 ''1/2/3'', sample 2 ''1/2/3'']) =
    take_last (nat 2) [sample 0 ''1/2/3'', sample 1 ''1/2/3'', sample 2 ''1/2/3'']"
  by (rule memory_keeps_newest) (simp add: memory_init_def)

section \<open>The backends agree\<close>

text \<open>The telegrams of one time, when the page has all of the selection.\<close>

definition at_time :: "int \<Rightarrow> stored_telegram list \<Rightarrow> stored_telegram list" where
  "at_time x ts = filter (\<lambda>t. time_of t = x) ts"

lemma at_time_stored_form: "at_time x (map stored_form ts) = map stored_form (at_time x ts)"
  by (simp add: at_time_def filter_map comp_def)

lemma answers_at_time:
  assumes "answers q ts r" and "length (at_time x (res_telegrams r)) = length (at_time x (selection q ts))"
  shows "mset (at_time x (res_telegrams r)) = mset (at_time x (selection q ts))"
proof -
  obtain os where os: "mset os = mset (selection q ts)" "res_telegrams r = page q os"
    using assms(1) by (auto simp: answers_def)
  have "mset (page q os) \<subseteq># mset os"
    using page_split [of os q] by (metis mset_append mset_subset_eq_add_left mset_subset_eq_add_right subset_mset.trans)
  then have "filter_mset (\<lambda>t. time_of t = x) (mset (page q os)) \<subseteq># filter_mset (\<lambda>t. time_of t = x) (mset os)"
    by (rule multiset_filter_mono)
  then have sub: "mset (at_time x (res_telegrams r)) \<subseteq># mset (at_time x (selection q ts))"
    by (simp add: at_time_def os)
  moreover have "size (mset (at_time x (res_telegrams r))) = size (mset (at_time x (selection q ts)))"
    using assms(2) by simp
  ultimately show ?thesis
    by (metis mset_subset_size nat_less_le subset_mset.le_imp_less_or_eq)
qed

lemma length_at_time: "length (at_time x ts) = length (filter (\<lambda>y. y = x) (map time_of ts))"
  by (simp add: at_time_def filter_map comp_def)

text \<open>
  C8: A memory store and a SQL store with the same telegrams give the same answer to a query: the
  same total and limit flag, the same times in the same order; at every time of which the page has
  all selected telegrams, so at all but those its borders cut, the same telegrams in their stored
  form in whatever order; and, where no two telegrams share a time, the same list.
\<close>

theorem backends_agree:
  assumes "wf_engine eng" and "accepting eng" and "sql_inv s"
    and same: "contents s = map stored_form (mem_telegrams m)"
    and "sql_queryable q" and "memory_queryable m q"
  shows "\<exists>r r'. memory_query m q = Inr r \<and> sql_query eng s q = Inr r' \<and>
    total_count r' = total_count r \<and> limit_reached r' = limit_reached r \<and>
    map time_of (res_telegrams r') = map time_of (res_telegrams r) \<and>
    (\<forall>x. length (at_time x (res_telegrams r)) = length (at_time x (selection q (mem_telegrams m))) \<longrightarrow>
       mset (at_time x (res_telegrams r')) = mset (map stored_form (at_time x (res_telegrams r)))) \<and>
    (inj_on time_of (set (mem_telegrams m)) \<longrightarrow> res_telegrams r' = map stored_form (res_telegrams r))"
proof -
  have "wf_query q" using assms(5) by (simp add: sql_queryable_def)
  then obtain r where r: "memory_query m q = Inr r" "answers q (mem_telegrams m) r"
    using memory_query_answers [OF assms(6)] by (auto simp: wf_query_def)
  obtain r' where r': "sql_query eng s q = Inr r'" "answers q (contents s) r'"
    using sql_query_answers [OF assms(1-3,5)] by blast
  let ?r = "r\<lparr>res_telegrams := map stored_form (res_telegrams r)\<rparr>"
  have ans: "answers q (contents s) ?r" unfolding same by (rule answers_stored_form [OF r(2)])
  have distinct: "r' = ?r" if "inj_on time_of (set (mem_telegrams m))"
  proof (rule answers_unique [OF ans r'(2)])
    have "inj_on time_of (set (contents s))" using that by (auto simp: same inj_on_def)
    then show "inj_on time_of (set (selection q (contents s)))"
      by (rule inj_on_subset) (auto simp: selection_def)
  qed
  note agree = answers_agree [OF ans r'(2)]
  then have times: "map time_of (res_telegrams r') = map time_of (res_telegrams r)" by (auto simp: comp_def)
  have whole: "mset (at_time x (res_telegrams r')) = mset (map stored_form (at_time x (res_telegrams r)))"
    if all: "length (at_time x (res_telegrams r)) = length (at_time x (selection q (mem_telegrams m)))" for x
  proof -
    have sel: "at_time x (selection q (contents s)) = map stored_form (at_time x (selection q (mem_telegrams m)))"
      by (simp add: same selection_stored_form at_time_stored_form)
    have "length (at_time x (res_telegrams r')) = length (at_time x (selection q (contents s)))"
      using all times by (simp add: length_at_time [of x "res_telegrams r'"] length_at_time [of x "res_telegrams r"] sel)
    then show ?thesis
      using answers_at_time [OF r'(2)] answers_at_time [OF r(2) all] by (simp add: sel)
  qed
  show ?thesis using agree times whole distinct r(1) r'(1) by auto
qed

theorem backends_agree_witness:
  "\<exists>r r'. memory_query full_memory window_query = Inr r \<and> sql_query reference_engine full_store window_query = Inr r' \<and>
    total_count r' = total_count r \<and> limit_reached r' = limit_reached r \<and>
    map time_of (res_telegrams r') = map time_of (res_telegrams r) \<and>
    (\<forall>x. length (at_time x (res_telegrams r)) = length (at_time x (selection window_query (mem_telegrams full_memory))) \<longrightarrow>
       mset (at_time x (res_telegrams r')) = mset (map stored_form (at_time x (res_telegrams r)))) \<and>
    (inj_on time_of (set (mem_telegrams full_memory)) \<longrightarrow> res_telegrams r' = map stored_form (res_telegrams r))"
  by (rule backends_agree [OF wf_reference_engine accepting_reference_engine]) simp_all

text \<open>
  C26: So do the latest values: for the same telegrams, with an exact summary table, both backends
  return the same telegrams as the newest of each group address, in whatever order.
\<close>

theorem last_values_agree:
  assumes "wf_engine eng" and "accepting eng" and "sql_inv s"
    and same: "contents s = map stored_form (mem_telegrams m)" and exact: "summary_exact s"
    and "list_all (\<lambda>t. is_aware (timestamp t)) (mem_telegrams m)"
  shows "\<exists>r r'. memory_get_last_unique m = Inr r \<and> sql_get_last_unique eng s = Inr r' \<and>
    mset r' = mset (map stored_form r)"
proof -
  obtain r where r: "memory_get_last_unique m = Inr r" "latest_answers (newest_for (mem_telegrams m)) r"
    using memory_get_last_unique_spec [OF assms(6)] by blast
  obtain r' where r': "sql_get_last_unique eng s = Inr r'" "latest_answers (latest_of s) r'"
    using sql_get_last_unique_ok [OF assms(1-3)] by blast
  have "latest_answers (latest_of s) (map stored_form r)"
    using latest_answers_stored_form [OF r(2)] exact same by (simp add: summary_exact_def)
  from latest_answers_unique [OF this r'(2)] r(1) r'(1) show ?thesis by blast
qed

theorem last_values_agree_witness:
  "\<exists>r r'. memory_get_last_unique full_memory = Inr r \<and> sql_get_last_unique reference_engine full_store = Inr r' \<and>
    mset r' = mset (map stored_form r)"
  by (rule last_values_agree [OF wf_reference_engine accepting_reference_engine])
    (simp_all add: summary_exact_def)

end
