(* ===== verification/StoreRuns.thy ===== *)
theory StoreRuns
  imports StoreProperties
begin

text \<open>
  A SQL store over its life: any sequence of operations and restarts, on a database that may refuse
  any statement, as a step relation; and what holds of every store such a run leads to.
\<close>

section \<open>The runs\<close>

text \<open>\<open>reopen\<close> is a process that constructs a store on the same database, with an empty cache.\<close>

inductive sql_step :: "sql_store \<Rightarrow> sql_store \<Rightarrow> bool" where
  batch: "wf_engine eng \<Longrightarrow> list_all sql_sane ts \<Longrightarrow> sql_step s (snd (sql_store_many eng s ts))"
| single: "wf_engine eng \<Longrightarrow> sql_sane t \<Longrightarrow> sql_step s (snd (sql_store_one eng s t))"
| evict: "sql_step s (snd (sql_evict_older_than eng s cutoff dry_run))"
| expire: "sql_step s (snd (sql_evict_expired eng now s dry_run))"
| clear: "sql_step s (snd (sql_clear eng s))"
| start: "wf_engine eng \<Longrightarrow> sql_step s (snd (sql_initialize eng s))"
| reopen: "sql_step s (sql_init (sql_db s) (sql_dialect s) days ro)"

text \<open>What every step keeps: the tables are consistent and no summary lags behind the telegrams.\<close>

definition sql_valid :: "sql_store \<Rightarrow> bool" where
  "sql_valid s \<longleftrightarrow> sql_inv s \<and> current s"

section \<open>Each step keeps it\<close>

lemma store_many_valid:
  assumes "wf_engine eng" and "list_all sql_sane ts" and valid: "sql_valid s"
  shows "sql_valid (snd (sql_store_many eng s ts))"
proof (cases "sql_read_only s")
  case True
  then show ?thesis using valid by (simp add: sql_read_only_unchanged)
next
  case rw: False
  show ?thesis
  proof (cases "fst (sql_store_many eng s ts)")
    case (Inl e)
    then show ?thesis using valid by (simp add: sql_store_many_atomic)
  next
    case (Inr u)
    then obtain s' where s': "sql_store_many eng s ts = (Inr (), s')" by (cases "sql_store_many eng s ts") auto
    have inv: "sql_inv s" using valid by (simp add: sql_valid_def)
    have "extends s ts s'" using sql_store_many_extends [OF assms(1) inv rw assms(2) s'] .
    then show ?thesis using valid current_extends s' by (auto simp: sql_valid_def extends_def)
  qed
qed

text \<open>Deleting telegrams, and a repair of the summaries.\<close>

lemma delete_valid:
  assumes "sql_valid s"
  shows "sql_valid (s\<lparr>sql_db := (sql_db s)\<lparr>telegrams := filter P (telegrams (sql_db s))\<rparr>\<rparr>)"
  using assms by (auto simp: sql_valid_def sql_inv_def Let_def list_all_iff current_def contents_def latest_of_def)

lemma evict_valid: "sql_valid s \<Longrightarrow> sql_valid (snd (sql_evict_older_than eng s cutoff dry_run))"
  using delete_valid [of s]
  by (auto simp: sql_evict_older_than_def wrapped_def Let_def split: sum.split)

lemma clear_valid: "sql_valid s \<Longrightarrow> sql_valid (snd (sql_clear eng s))"
  by (auto simp: sql_clear_def wrapped_def Let_def sql_valid_def sql_inv_def current_def contents_def split: sum.split)

lemma reconcile_unrefusing:
  "reconcile_last_ga_telegrams eng db = Inr db' \<Longrightarrow> reconcile_last_ga_telegrams (unrefusing eng) db = Inr db'"
  by (auto simp: reconcile_last_ga_telegrams_def Let_def bind_res_Inr_conv ranked_first_def unrefusing_def
      execute_def split: if_splits)

lemma reconcile_valid:
  assumes "wf_engine eng" and valid: "sql_valid s" and db: "reconcile_last_ga_telegrams eng (sql_db s) = Inr db"
  shows "sql_valid (s\<lparr>sql_db := db\<rparr>)"
proof (cases "last_ga_telegrams (sql_db s) \<noteq> [] \<and> metadata_flag_set (sql_db s) LAST_GA_RECONCILED_KEY")
  case True
  with db have "db = sql_db s" by (simp add: reconcile_last_ga_telegrams_def)
  then show ?thesis using valid by simp
next
  case False
  have "sql_inv (s\<lparr>sql_db := db\<rparr>) \<and> rows_current db"
    using reconcile_ok [of "unrefusing eng" s] reconcile_unrefusing [OF db] valid assms(1) False
    by (auto simp: sql_valid_def)
  then show ?thesis using rows_current_current [of "s\<lparr>sql_db := db\<rparr>"] by (simp add: sql_valid_def)
qed

lemma warm_valid:
  assumes "sql_valid s"
  shows "sql_valid (s\<lparr>lookup_cache := warm (lookup_cache s) (string_lookup (sql_db s))\<rparr>)"
  using assms warm_cache_ok(1) [OF sql_invD(1,2)]
  by (simp add: sql_valid_def sql_inv_def Let_def current_def contents_def latest_of_def)

lemma initialize_valid:
  assumes "wf_engine eng" and "sql_valid s"
  shows "sql_valid (snd (sql_initialize eng s))"
  using assms warm_valid [OF assms(2)] reconcile_valid [OF assms(1) warm_valid [OF assms(2)]]
  by (auto simp: sql_initialize_def wrapped_def Let_def split: sum.split)

lemma reopen_valid: "sql_valid s \<Longrightarrow> sql_valid (sql_init (sql_db s) d days ro)"
  by (simp add: sql_valid_def sql_init_def sql_inv_def Let_def cache_ok_def lookup_cache_init_def current_def
      contents_def latest_of_def)

lemma sql_step_valid: "sql_step s s' \<Longrightarrow> sql_valid s \<Longrightarrow> sql_valid s'"
proof (induction rule: sql_step.induct)
  case (expire s eng now dry_run)
  then show ?case
    using evict_valid by (auto simp: sql_evict_expired_def wrapped_def split: sum.split option.split)
qed (auto simp: sql_store_one_many store_many_valid evict_valid clear_valid initialize_valid reopen_valid)

lemma sql_steps_valid: "rtranclp sql_step s s' \<Longrightarrow> sql_valid s \<Longrightarrow> sql_valid s'"
  by (induction rule: rtranclp_induct) (auto intro: sql_step_valid)

section \<open>Every store can be read\<close>

text \<open>
  C24: The types of the tables hold in every reachable state: whatever sequence of batches, single
  telegrams, evictions, clears, starts and reopenings an empty database goes through, and whichever
  statements it refuses on the way, every row of both tables refers to strings that are there, has
  a time Python can express and is read back without an error, no summary is older than a telegram
  of its address, and every later query answers the contract.
\<close>

theorem sql_reachable_typed:
  assumes "rtranclp sql_step (sql_init empty_db dialect days ro) s"
  shows "sql_inv s \<and> current s \<and>
    (\<forall>r \<in> set (telegrams (sql_db s)) \<union> set (last_ga_telegrams (sql_db s)).
       \<exists>t. decode_row (sql_dialect s) (string_lookup (sql_db s)) r = Inr t) \<and>
    (\<forall>eng q. wf_engine eng \<longrightarrow> accepting eng \<longrightarrow> sql_queryable q \<longrightarrow>
       (\<exists>res. sql_query eng s q = Inr res \<and> answers q (contents s) res))"
proof -
  have "sql_valid (sql_init empty_db dialect days ro)"
    using sql_inv_init by (simp add: sql_valid_def current_def contents_def sql_init_def empty_db_def)
  with assms have valid: "sql_valid s" by (rule sql_steps_valid)
  then show ?thesis
    using sql_invD(3,4) [of s] sql_query_answers [of _ s] decode_row_Inr by (fastforce simp: sql_valid_def)
qed

theorem sql_reachable_typed_witness:
  "\<exists>s. sql_inv s \<and> current s \<and> contents s = map stored_form [sample 1 ''1/2/3''] \<and>
    (\<forall>r \<in> set (telegrams (sql_db s)) \<union> set (last_ga_telegrams (sql_db s)).
       \<exists>t. decode_row (sql_dialect s) (string_lookup (sql_db s)) r = Inr t)"
proof -
  let ?s0 = "sql_init empty_db Sqlite (Some 30) False"
  obtain s where s: "sql_store_many reference_engine ?s0 [sample 1 ''1/2/3''] = (Inr (), s)"
    "contents s = map stored_form [sample 1 ''1/2/3'']"
    using sql_store_many_ok [OF wf_reference_engine accepting_reference_engine, of fresh_store "[sample 1 ''1/2/3'']"]
    by (auto simp: extends_def fresh_store_def [symmetric])
  then have "sql_step ?s0 s"
    using sql_step.batch [OF wf_reference_engine, of "[sample 1 ''1/2/3'']" ?s0] by simp
  then have "rtranclp sql_step ?s0 s" by simp
  from sql_reachable_typed [OF this] s(2) show ?thesis by blast
qed

end
