(* ===== verification/Buffered.thy ===== *)
theory Buffered
  imports StoreInterface
begin

text \<open>
  The write buffer \<open>_BufferMixin\<close> of src/knx_telegram_store/buffered.py over any backing store.

  The two asyncio locks make every operation but \<open>store\<close>, \<open>store_sync\<close> and the start of \<open>close\<close>
  atomic with respect to the others, so an operation is a function of the state. What can happen
  while a flush or an eviction awaits the backing store is that other tasks store telegrams: each
  such operation has an argument that gives, per awaited call, the telegrams that arrive meanwhile.
  An operation behind the write gate has an argument that gives what the other tasks do while it
  waits; one that still waits has the result None.
\<close>

record 's buffered =
  buffer :: "stored_telegram list"
  flush_task :: "nat option"
  writes_allowed :: bool
  closing :: bool
  initialized :: bool
  max_buffer_size :: int
  buffer_full_warned :: bool
  backing :: 's

text \<open>The operations of the class after the mixin in the method resolution order.\<close>

record 's store_ops =
  op_initialize :: "'s \<Rightarrow> (exc + unit) \<times> 's"
  op_close :: "'s \<Rightarrow> (exc + unit) \<times> 's"
  op_store_many :: "'s \<Rightarrow> stored_telegram list \<Rightarrow> (exc + unit) \<times> 's"
  op_query :: "'s \<Rightarrow> telegram_query \<Rightarrow> exc + telegram_query_result"
  op_get_last_unique :: "'s \<Rightarrow> exc + stored_telegram list"
  op_get_stats :: "'s \<Rightarrow> exc + store_stats"
  op_optimize :: "'s \<Rightarrow> (exc + unit) \<times> 's"
  op_begin_backup :: "'s \<Rightarrow> (exc + unit) \<times> 's"
  op_end_backup :: "'s \<Rightarrow> (exc + unit) \<times> 's"
  op_evict_older_than :: "'s \<Rightarrow> datetime \<Rightarrow> bool \<Rightarrow> (exc + int) \<times> 's"
  op_expiry_cutoff :: "'s \<Rightarrow> exc + datetime option"
  op_clear :: "'s \<Rightarrow> (exc + unit) \<times> 's"

definition buffered_init :: "'s \<Rightarrow> int \<Rightarrow> 's buffered" where
  "buffered_init s max_size =
     \<lparr>buffer = [], flush_task = None, writes_allowed = True, closing = False,
      initialized = False, max_buffer_size = max_size, buffer_full_warned = False, backing = s\<rparr>"

text \<open>Run an operation of the backing store.\<close>

definition on_backing :: "('s \<Rightarrow> (exc + 'a) \<times> 's) \<Rightarrow> 's buffered \<Rightarrow> (exc + 'a) \<times> 's buffered" where
  "on_backing f b = (case f (backing b) of (r, s) \<Rightarrow> (r, b\<lparr>backing := s\<rparr>))"

text \<open>Sequencing of operations that may raise: on an exception the rest is skipped.\<close>

definition andthen ::
  "(exc + 'a) \<times> 't \<Rightarrow> ('a \<Rightarrow> 't \<Rightarrow> (exc + 'b) \<times> 't) \<Rightarrow> (exc + 'b) \<times> 't" where
  "andthen rs k = (case rs of (Inl e, b) \<Rightarrow> (Inl e, b) | (Inr v, b) \<Rightarrow> k v b)"

lemma andthen_simps [simp]:
  "andthen (Inl e, b) k = (Inl e, b)"
  "andthen (Inr v, b) k = k v b"
  by (simp_all add: andthen_def)

section \<open>store\<close>

definition buf_store_sync :: "'s buffered \<Rightarrow> stored_telegram \<Rightarrow> (exc + unit) \<times> 's buffered" where
  "buf_store_sync b t =
     (if closing b then (Inr (), b)
      else if max_buffer_size b \<le> int (length (buffer b)) then
        let b = b\<lparr>buffer_full_warned := True\<rparr> in
        (case buffer b of
           [] \<Rightarrow> (Inl (raise_exc IndexError), b)
         | _ # rest \<Rightarrow> (Inr (), b\<lparr>buffer := rest @ [t]\<rparr>))
      else (Inr (), b\<lparr>buffer := buffer b @ [t]\<rparr>))"

definition buf_store :: "'s buffered \<Rightarrow> stored_telegram \<Rightarrow> (exc + unit) \<times> 's buffered" where
  "buf_store b t = wrapped (buf_store_sync b t)"

section \<open>Flushing\<close>

definition requeue :: "'s buffered \<Rightarrow> stored_telegram list \<Rightarrow> 's buffered" where
  "requeue b ts =
     (let buf = ts @ buffer b in
      if max_buffer_size b < int (length buf)
      then b\<lparr>buffer_full_warned := True, buffer := py_slice_from buf (- max_buffer_size b)\<rparr>
      else b\<lparr>buffer := buf\<rparr>)"

text \<open>Other tasks store telegrams while a call of the backing store is awaited.\<close>

definition arrive :: "'s buffered \<Rightarrow> stored_telegram list \<Rightarrow> 's buffered" where
  "arrive b ts = foldl (\<lambda>b t. snd (buf_store_sync b t)) b ts"

fun next_arrivals :: "stored_telegram list list \<Rightarrow> stored_telegram list" where
  "next_arrivals [] = []"
| "next_arrivals (ts # arr) = ts"

definition await_store_many ::
  "('s \<Rightarrow> stored_telegram list \<Rightarrow> (exc + unit) \<times> 's) \<Rightarrow> 's buffered \<Rightarrow> stored_telegram list \<Rightarrow>
   stored_telegram list \<Rightarrow> (exc + unit) \<times> 's buffered"
where
  "await_store_many store_many b batch arriving =
     (case wrapped (on_backing (\<lambda>s. store_many s batch) b) of (r, b) \<Rightarrow> (r, arrive b arriving))"

text \<open>\<open>_data_error_cause\<close> with SQLAlchemy installed, which every backing database needs.\<close>

definition is_data_error :: "exc \<Rightarrow> bool" where
  "is_data_error e \<longleftrightarrow> is_exception e \<and> data_error_cause True e \<noteq> None"

definition flush_outcome :: "bool \<Rightarrow> exc \<Rightarrow> 's buffered \<Rightarrow> (exc + unit) \<times> 's buffered" where
  "flush_outcome raise_on_error e b =
     (if \<not> is_exception e \<or> raise_on_error then (Inl e, b) else (Inr (), b))"

text \<open>The loop that stores the telegrams of a failed batch one by one.\<close>

fun store_one_by_one ::
  "('s \<Rightarrow> stored_telegram list \<Rightarrow> (exc + unit) \<times> 's) \<Rightarrow> bool \<Rightarrow> 's buffered \<Rightarrow>
   stored_telegram list \<Rightarrow> stored_telegram list list \<Rightarrow> (exc + unit) \<times> 's buffered"
where
  "store_one_by_one store_many raise_on_error b [] arr = (Inr (), b\<lparr>buffer_full_warned := False\<rparr>)"
| "store_one_by_one store_many raise_on_error b (t # ts) arr =
     (case await_store_many store_many b [t] (next_arrivals arr) of
        (Inr _, b) \<Rightarrow> store_one_by_one store_many raise_on_error b ts (tl arr)
      | (Inl e, b) \<Rightarrow>
          if is_data_error e then store_one_by_one store_many raise_on_error b ts (tl arr)
          else flush_outcome raise_on_error e (requeue b (t # ts)))"

text \<open>\<open>_flush\<close> inside the mutation lock.\<close>

definition flush_locked ::
  "('s \<Rightarrow> stored_telegram list \<Rightarrow> (exc + unit) \<times> 's) \<Rightarrow> bool \<Rightarrow> stored_telegram list list \<Rightarrow>
   's buffered \<Rightarrow> (exc + unit) \<times> 's buffered"
where
  "flush_locked store_many raise_on_error arr b =
     (if \<not> writes_allowed b then (Inr (), b)
      else if buffer b = [] then (Inr (), b)
      else
        let batch = buffer b in
        (case await_store_many store_many (b\<lparr>buffer := []\<rparr>) batch (next_arrivals arr) of
           (Inr _, b) \<Rightarrow> (Inr (), b\<lparr>buffer_full_warned := False\<rparr>)
         | (Inl e, b) \<Rightarrow>
             if \<not> is_data_error e then flush_outcome raise_on_error e (requeue b batch)
             else store_one_by_one store_many raise_on_error b batch (tl arr)))"

text \<open>\<open>_mutation()\<close> for a task that does not hold the lock yet.\<close>

definition mutation ::
  "('s buffered \<Rightarrow> (exc + 'a) \<times> 's buffered) \<Rightarrow> 's buffered \<Rightarrow> (exc + 'a) \<times> 's buffered" where
  "mutation k b = (if closing b then (Inl (raise_exc RuntimeError), b) else k b)"

definition buf_flush_private ::
  "('s \<Rightarrow> stored_telegram list \<Rightarrow> (exc + unit) \<times> 's) \<Rightarrow> bool \<Rightarrow> stored_telegram list list \<Rightarrow>
   's buffered \<Rightarrow> (exc + unit) \<times> 's buffered"
where
  "buf_flush_private store_many raise_on_error arr b =
     mutation (flush_locked store_many raise_on_error arr) b"

text \<open>The periodic task is cancelled and created anew: a task with the next number.\<close>

definition restart_timer :: "'s buffered \<Rightarrow> 's buffered" where
  "restart_timer b =
     (if flush_task b \<noteq> None \<and> \<not> closing b then b\<lparr>flush_task := map_option Suc (flush_task b)\<rparr> else b)"

text \<open>\<open>flush()\<close>; with \<open>locked\<close> the task holds the mutation lock already.\<close>

definition buf_flush ::
  "'s store_ops \<Rightarrow> bool \<Rightarrow> stored_telegram list list \<Rightarrow> 's buffered \<Rightarrow> (exc + unit) \<times> 's buffered"
where
  "buf_flush ops locked arr b = wrapped
     (andthen
       (if locked then flush_locked (op_store_many ops) True arr b
        else buf_flush_private (op_store_many ops) True arr b)
       (\<lambda>_ b. (Inr (), restart_timer b)))"

text \<open>One turn of \<open>_flush_loop\<close>: whether the loop goes on, or the exception that ends the task.\<close>

definition flush_loop_turn ::
  "'s store_ops \<Rightarrow> stored_telegram list list \<Rightarrow> 's buffered \<Rightarrow> (exc + bool) \<times> 's buffered" where
  "flush_loop_turn ops arr b =
     (if closing b then (Inr False, b)
      else (case buf_flush_private (op_store_many ops) False arr b of
              (Inr _, b) \<Rightarrow> (Inr True, b)
            | (Inl e, b) \<Rightarrow>
                if isinstance (class_of e) [CancelledError] then (Inr False, b)
                else if is_exception e then (Inr True, b)
                else (Inl e, b)))"

section \<open>Lifecycle\<close>

text \<open>Telegrams arrive while an operation of the backing store is awaited, whether it raises or not.\<close>

definition await_backing ::
  "('s \<Rightarrow> (exc + 'a) \<times> 's) \<Rightarrow> stored_telegram list \<Rightarrow> 's buffered \<Rightarrow> (exc + 'a) \<times> 's buffered" where
  "await_backing f arriving b = (case on_backing f b of (r, b) \<Rightarrow> (r, arrive b arriving))"

definition buf_initialize ::
  "'s store_ops \<Rightarrow> stored_telegram list \<Rightarrow> 's buffered \<Rightarrow> (exc + unit) \<times> 's buffered" where
  "buf_initialize ops arriving b = wrapped
     (andthen (await_backing (op_initialize ops) arriving b) (\<lambda>_ b. (Inr (), b\<lparr>initialized := True\<rparr>)))"

definition buf_start :: "'s buffered \<Rightarrow> 's buffered" where
  "buf_start b = (if closing b \<or> flush_task b \<noteq> None then b else b\<lparr>flush_task := Some 0\<rparr>)"

text \<open>The finally clause lets writes resume whatever the backing store answers.\<close>

definition buf_end_backup ::
  "'s store_ops \<Rightarrow> stored_telegram list \<Rightarrow> 's buffered \<Rightarrow> (exc + unit) \<times> 's buffered" where
  "buf_end_backup ops arriving b = wrapped
     (if writes_allowed b then (Inl (raise_exc KnxTelegramStoreException), b)
      else (case await_backing (op_end_backup ops) arriving b of (r, b) \<Rightarrow> (r, b\<lparr>writes_allowed := True\<rparr>)))"

definition buf_begin_backup ::
  "'s store_ops \<Rightarrow> stored_telegram list list \<Rightarrow> stored_telegram list \<Rightarrow> 's buffered \<Rightarrow> (exc + unit) \<times> 's buffered"
where
  "buf_begin_backup ops arr arriving b = wrapped (mutation (\<lambda>b.
     if \<not> writes_allowed b then (Inl (raise_exc KnxTelegramStoreException), b)
     else andthen (flush_locked (op_store_many ops) True arr b) (\<lambda>_ b.
          andthen (await_backing (op_begin_backup ops) arriving b) (\<lambda>_ b.
            (Inr (), b\<lparr>writes_allowed := False\<rparr>)))) b)"

text \<open>
  \<open>close()\<close>. Telegrams stored while it flushes are dropped, since \<open>closing\<close> is set, so there
  are no arrivals. \<open>close_locked\<close> is what it does once it has the mutation lock.
\<close>

definition close_locked :: "'s store_ops \<Rightarrow> 's buffered \<Rightarrow> (exc + unit) \<times> 's buffered" where
  "close_locked ops b =
     andthen
       (if initialized b then flush_locked (op_store_many ops) True [] b
        else (Inr (), b\<lparr>buffer := []\<rparr>)) (\<lambda>_ b.
     on_backing (op_close ops) b)"

definition buf_close :: "'s store_ops \<Rightarrow> 's buffered \<Rightarrow> (exc + unit) \<times> 's buffered" where
  "buf_close ops b = wrapped
     (let b = b\<lparr>closing := True\<rparr> in
      andthen (if \<not> writes_allowed b then buf_end_backup ops [] b else (Inr (), b)) (\<lambda>_ b.
      close_locked ops (b\<lparr>flush_task := None\<rparr>)))"

section \<open>Operations behind the write gate\<close>

text \<open>
  \<open>_write_gate\<close>: each turn of its loop waits for the flag \<open>_writes_allowed\<close> and then for the mutation
  lock; a task that has the lock fails on a store that is closing and looks at the flag again.
\<close>

definition gate_check :: "'s buffered \<Rightarrow> exc + bool" where
  "gate_check b = fst (mutation (\<lambda>b. (Inr (writes_allowed b), b)) b)"

text \<open>
  \<open>waits\<close> gives, per turn, what the other tasks do to the state before the lock is had: a backup may
  begin, so that the flag is cleared again, or end.
\<close>

fun write_gate ::
  "('s buffered \<Rightarrow> (exc + 'a) \<times> 's buffered) \<Rightarrow> ('s buffered \<Rightarrow> 's buffered) list \<Rightarrow> 's buffered \<Rightarrow>
   (exc + 'a) option \<times> 's buffered"
where
  "write_gate k [] b = (None, b)"
| "write_gate k (others # waits) b =
     (let b = others b in
      case gate_check b of
        Inl e \<Rightarrow> (case wrapped (Inl e, b) of (r, b) \<Rightarrow> (Some r, b))
      | Inr allowed \<Rightarrow>
          if allowed then (case wrapped (k b) of (r, b) \<Rightarrow> (Some r, b)) else write_gate k waits b)"

definition buf_store_many ::
  "'s store_ops \<Rightarrow> stored_telegram list \<Rightarrow> stored_telegram list \<Rightarrow> ('s buffered \<Rightarrow> 's buffered) list \<Rightarrow>
   's buffered \<Rightarrow> (exc + unit) option \<times> 's buffered"
where
  "buf_store_many ops ts arriving waits b =
     write_gate (await_backing (\<lambda>s. op_store_many ops s ts) arriving) waits b"

definition optimize_locked ::
  "'s store_ops \<Rightarrow> stored_telegram list list \<Rightarrow> stored_telegram list \<Rightarrow> 's buffered \<Rightarrow> (exc + unit) \<times> 's buffered"
where
  "optimize_locked ops arr arriving b =
     andthen (buf_flush ops True arr b) (\<lambda>_ b. await_backing (op_optimize ops) arriving b)"

definition buf_optimize ::
  "'s store_ops \<Rightarrow> stored_telegram list list \<Rightarrow> stored_telegram list \<Rightarrow> ('s buffered \<Rightarrow> 's buffered) list \<Rightarrow>
   's buffered \<Rightarrow> (exc + unit) option \<times> 's buffered"
where
  "buf_optimize ops arr arriving waits b = write_gate (optimize_locked ops arr arriving) waits b"

text \<open>\<open>_evict_older_than\<close>: telegrams may arrive while the backing store deletes.\<close>

definition evict_locked ::
  "'s store_ops \<Rightarrow> datetime \<Rightarrow> bool \<Rightarrow> stored_telegram list \<Rightarrow> 's buffered \<Rightarrow> (exc + int) \<times> 's buffered"
where
  "evict_locked ops cutoff dry_run arriving b =
     andthen (await_backing (\<lambda>s. op_evict_older_than ops s cutoff dry_run) arriving b) (\<lambda>backend_deleted b.
       (case filter_res (\<lambda>t. dt_less (timestamp t) cutoff) (buffer b) of
          Inl e \<Rightarrow> (Inl e, b)
        | Inr old \<Rightarrow>
            if dry_run then (Inr (backend_deleted + int (length old)), b)
            else (case filter_res (\<lambda>t. dt_le cutoff (timestamp t)) (buffer b) of
                    Inl e \<Rightarrow> (Inl e, b)
                  | Inr kept \<Rightarrow> (Inr (backend_deleted + int (length old)), b\<lparr>buffer := kept\<rparr>))))"

definition buf_evict_older_than ::
  "'s store_ops \<Rightarrow> datetime \<Rightarrow> bool \<Rightarrow> stored_telegram list \<Rightarrow> ('s buffered \<Rightarrow> 's buffered) list \<Rightarrow>
   's buffered \<Rightarrow> (exc + int) option \<times> 's buffered"
where
  "buf_evict_older_than ops cutoff dry_run arriving waits b =
     write_gate (evict_locked ops cutoff dry_run arriving) waits b"

text \<open>\<open>BufferedMemoryStore.evict_older_than\<close> leaves the buffer alone.\<close>

definition buffered_memory_evict_older_than ::
  "'s store_ops \<Rightarrow> datetime \<Rightarrow> bool \<Rightarrow> ('s buffered \<Rightarrow> 's buffered) list \<Rightarrow> 's buffered \<Rightarrow>
   (exc + int) option \<times> 's buffered"
where
  "buffered_memory_evict_older_than ops cutoff dry_run waits b =
     write_gate (on_backing (\<lambda>s. op_evict_older_than ops s cutoff dry_run)) waits b"

text \<open>
  \<open>evict_expired\<close>: the backing store computes its cutoff and calls \<open>self.evict_older_than\<close>, which
  is the method above of the mixin, so the buffer is pruned too.
\<close>

definition expire_locked ::
  "'s store_ops \<Rightarrow> bool \<Rightarrow> stored_telegram list \<Rightarrow> 's buffered \<Rightarrow> (exc + int) \<times> 's buffered"
where
  "expire_locked ops dry_run arriving b = (case op_expiry_cutoff ops (backing b) of
       Inl e \<Rightarrow> (Inl e, b)
     | Inr None \<Rightarrow> (Inr 0, b)
     | Inr (Some cutoff) \<Rightarrow> wrapped (evict_locked ops cutoff dry_run arriving b))"

definition buf_evict_expired ::
  "'s store_ops \<Rightarrow> bool \<Rightarrow> stored_telegram list \<Rightarrow> ('s buffered \<Rightarrow> 's buffered) list \<Rightarrow> 's buffered \<Rightarrow>
   (exc + int) option \<times> 's buffered"
where
  "buf_evict_expired ops dry_run arriving waits b = write_gate (expire_locked ops dry_run arriving) waits b"

definition clear_locked ::
  "'s store_ops \<Rightarrow> stored_telegram list \<Rightarrow> 's buffered \<Rightarrow> (exc + unit) \<times> 's buffered" where
  "clear_locked ops arriving b = await_backing (op_clear ops) arriving (b\<lparr>buffer := []\<rparr>)"

definition buf_clear ::
  "'s store_ops \<Rightarrow> stored_telegram list \<Rightarrow> ('s buffered \<Rightarrow> 's buffered) list \<Rightarrow> 's buffered \<Rightarrow>
   (exc + unit) option \<times> 's buffered"
where
  "buf_clear ops arriving waits b = write_gate (clear_locked ops arriving) waits b"

section \<open>Reading\<close>

definition buf_query ::
  "'s store_ops \<Rightarrow> telegram_query \<Rightarrow> bool \<Rightarrow> stored_telegram list list \<Rightarrow> 's buffered \<Rightarrow>
   (exc + telegram_query_result) \<times> 's buffered"
where
  "buf_query ops q flush_first arr b = wrapped
     (andthen (if flush_first then buf_flush ops False arr b else (Inr (), b)) (\<lambda>_ b.
        (op_query ops (backing b) q, b)))"

definition buf_get_last_unique ::
  "'s store_ops \<Rightarrow> stored_telegram list list \<Rightarrow> 's buffered \<Rightarrow> (exc + stored_telegram list) \<times> 's buffered"
where
  "buf_get_last_unique ops arr b = wrapped
     (andthen (buf_flush ops False arr b) (\<lambda>_ b. (op_get_last_unique ops (backing b), b)))"

definition buf_get_stats ::
  "'s store_ops \<Rightarrow> stored_telegram list list \<Rightarrow> 's buffered \<Rightarrow> (exc + store_stats) \<times> 's buffered"
where
  "buf_get_stats ops arr b = wrapped
     (andthen (buf_flush ops False arr b) (\<lambda>_ b. (op_get_stats ops (backing b), b)))"

end
