(* ===== verification/BufferedLaws.thy ===== *)
theory BufferedLaws
  imports Buffered "HOL-Library.Sublist"
begin

text \<open>
  Correctness of the write buffer over any store that keeps the contract \<open>atomic_writer\<close> or
  \<open>telegram_writer\<close>: the buffer stays bounded, a flush moves the batch into the store or gives it
  back, a telegram that can never be stored does not hold up the others, a backup sees no write,
  and, whatever the interleaving, the telegrams in the store and in the buffer are those accepted,
  in their order and without duplicates, but for the ones dropped on overflow or as undeliverable.
\<close>

section \<open>The buffer alone\<close>

text \<open>The parameters of the store that no buffer operation changes.\<close>

definition same_frame :: "'s buffered \<Rightarrow> 's buffered \<Rightarrow> bool" where
  "same_frame b b' \<longleftrightarrow> flush_task b' = flush_task b \<and> writes_allowed b' = writes_allowed b \<and>
     closing b' = closing b \<and> initialized b' = initialized b \<and> max_buffer_size b' = max_buffer_size b"

lemma same_frame_refl [simp]: "same_frame b b"
  by (simp add: same_frame_def)

lemma same_frame_trans: "same_frame a b \<Longrightarrow> same_frame b c \<Longrightarrow> same_frame a c"
  by (simp add: same_frame_def)

lemma same_frame_update [simp]:
  "same_frame a (b\<lparr>buffer := x\<rparr>) = same_frame a b"
  "same_frame a (b\<lparr>backing := s\<rparr>) = same_frame a b"
  "same_frame a (b\<lparr>buffer_full_warned := w\<rparr>) = same_frame a b"
  "same_frame (b\<lparr>buffer := x\<rparr>) c = same_frame b c"
  "same_frame (b\<lparr>backing := s\<rparr>) c = same_frame b c"
  by (simp_all add: same_frame_def)

definition bounded :: "'s buffered \<Rightarrow> bool" where
  "bounded b \<longleftrightarrow> 1 \<le> max_buffer_size b \<and> int (length (buffer b)) \<le> max_buffer_size b"

abbreviation room :: "'s buffered \<Rightarrow> nat" where
  "room b \<equiv> nat (max_buffer_size b)"

lemma bounded_keeps [simp]: "bounded b \<Longrightarrow> take_last (room b) (buffer b) = buffer b"
  by (rule take_last_id) (auto simp: bounded_def)

lemma buf_store_sync_closing: "closing b \<Longrightarrow> buf_store_sync b t = (Inr (), b)"
  by (simp add: buf_store_sync_def)

lemma buf_store_sync_ok:
  assumes "bounded b" and "\<not> closing b"
  shows "\<exists>b'. buf_store_sync b t = (Inr (), b') \<and> buffer b' = take_last (room b) (buffer b @ [t]) \<and>
    backing b' = backing b \<and> same_frame b b' \<and> bounded b'"
proof (cases "max_buffer_size b \<le> int (length (buffer b))")
  case True
  with assms(1) have len: "length (buffer b) = room b" and ne: "buffer b \<noteq> []"
    by (auto simp: bounded_def)
  then obtain x rest where buf: "buffer b = x # rest" by (cases "buffer b") auto
  then have "take_last (room b) (buffer b @ [t]) = rest @ [t]" using len by (simp add: take_last_def)
  with True assms buf len show ?thesis
    by (auto simp: buf_store_sync_def Let_def bounded_def same_frame_def)
next
  case False
  with assms show ?thesis by (simp add: buf_store_sync_def bounded_def same_frame_def)
qed

lemma arrive_ok:
  assumes "bounded b"
  shows "buffer (arrive b ts) = (if closing b then buffer b else take_last (room b) (buffer b @ ts)) \<and>
    backing (arrive b ts) = backing b \<and> same_frame b (arrive b ts) \<and> bounded (arrive b ts)"
  using assms
proof (induction ts arbitrary: b)
  case Nil
  then show ?case by (simp add: arrive_def)
next
  case (Cons t ts)
  show ?case
  proof (cases "closing b")
    case True
    then have "arrive b (t # ts) = arrive b ts" by (simp add: arrive_def buf_store_sync_closing)
    with Cons True show ?thesis by simp
  next
    case False
    obtain b' where b': "buf_store_sync b t = (Inr (), b')" "buffer b' = take_last (room b) (buffer b @ [t])"
      "backing b' = backing b" "same_frame b b'" "bounded b'"
      using buf_store_sync_ok [OF Cons.prems False] by blast
    then have "arrive b (t # ts) = arrive b' ts" by (simp add: arrive_def)
    moreover have "room b' = room b" "closing b' = closing b" using b'(4) by (simp_all add: same_frame_def)
    moreover have "take_last (room b) (take_last (room b) (buffer b @ [t]) @ ts) =
      take_last (room b) (buffer b @ t # ts)"
      using take_last_append_take_last [of "room b" "buffer b @ [t]" ts] by simp
    ultimately show ?thesis
      using Cons.IH [OF b'(5)] b'(2-4) False by (auto intro: same_frame_trans)
  qed
qed

lemma requeue_ok:
  assumes "1 \<le> max_buffer_size b"
  shows "buffer (requeue b ts) = take_last (room b) (ts @ buffer b) \<and>
    backing (requeue b ts) = backing b \<and> same_frame b (requeue b ts) \<and> bounded (requeue b ts)"
proof (cases "max_buffer_size b < int (length (ts @ buffer b))")
  case True
  then have "py_slice_from (ts @ buffer b) (- max_buffer_size b) = take_last (room b) (ts @ buffer b)"
    using assms by (intro py_slice_from_last) auto
  with True assms show ?thesis
    by (simp add: requeue_def Let_def bounded_def same_frame_def)
next
  case False
  with assms show ?thesis by (simp add: requeue_def Let_def bounded_def same_frame_def)
qed

text \<open>The telegrams that arrive during the first \<open>n\<close> awaited calls.\<close>

definition arrivals :: "nat \<Rightarrow> stored_telegram list list \<Rightarrow> stored_telegram list" where
  "arrivals n arr = concat (take n arr)"

lemma arrivals_simps [simp]:
  "arrivals 0 arr = []"
  "arrivals (Suc n) arr = next_arrivals arr @ arrivals n (tl arr)"
  by (cases arr; simp add: arrivals_def)+

lemma await_store_many_ok:
  assumes "bounded b" and "store_many (backing b) batch = (r, s)"
    and "await_store_many store_many b batch ts = (r', b')"
  shows "r' = wrap_store_errors r" and "backing b' = s" and "same_frame b b'" and "bounded b'"
    and "buffer b' = (if closing b then buffer b else take_last (room b) (buffer b @ ts))"
proof -
  have "bounded (b\<lparr>backing := s\<rparr>)" using assms(1) by (simp add: bounded_def)
  from arrive_ok [OF this, of ts] assms(2,3)
  show "r' = wrap_store_errors r" "backing b' = s" "same_frame b b'" "bounded b'"
    "buffer b' = (if closing b then buffer b else take_last (room b) (buffer b @ ts))"
    by (auto simp: await_store_many_def on_backing_def wrapped_def)
qed

lemma take_last_append_cong:
  "take_last n xs = take_last n ys \<Longrightarrow> take_last n (xs @ zs) = take_last n (ys @ zs)"
  by (metis take_last_append_take_last)

section \<open>Flushing into a database in order\<close>

text \<open>How many calls of \<open>store_many\<close> a flush awaits.\<close>

definition flush_awaits :: "(stored_telegram \<Rightarrow> bool) \<Rightarrow> 's buffered \<Rightarrow> nat" where
  "flush_awaits poisoned b =
     (if buffer b = [] then 0 else if list_ex poisoned (buffer b) then Suc (length (buffer b)) else 1)"

context telegram_writer
begin

lemma await_accepted:
  assumes "bounded b" and "ready (backing b)" and "list_all sane ts" and "\<not> list_ex poisoned ts"
  shows "\<exists>b'. await_store_many store_many b ts arriving = (Inr (), b') \<and> ready (backing b') \<and>
    capacity (backing b') = capacity (backing b) \<and>
    held (backing b') = keep_newest (capacity (backing b)) (held (backing b) @ map stored ts) \<and>
    same_frame b b' \<and> bounded b' \<and>
    buffer b' = (if closing b then buffer b else take_last (room b) (buffer b @ arriving))"
proof -
  obtain s' where s': "store_many (backing b) ts = (Inr (), s')" "ready s'"
    "capacity s' = capacity (backing b)"
    "held s' = keep_newest (capacity (backing b)) (held (backing b) @ map stored ts)"
    using store_many_ok [OF assms(2-4)] by blast
  obtain r' b' where aw: "await_store_many store_many b ts arriving = (r', b')"
    by (cases "await_store_many store_many b ts arriving")
  from await_store_many_ok [OF assms(1) s'(1) aw] s' aw show ?thesis by simp
qed

lemma await_poisoned:
  assumes "bounded b" and "ready (backing b)" and "list_all sane ts" and "list_ex poisoned ts"
  shows "\<exists>e b'. await_store_many store_many b ts arriving = (Inl e, b') \<and> is_data_error e \<and>
    backing b' = backing b \<and> same_frame b b' \<and> bounded b' \<and>
    buffer b' = (if closing b then buffer b else take_last (room b) (buffer b @ arriving))"
proof -
  obtain e where e: "store_many (backing b) ts = (Inl e, backing b)" "wf_exc e" "is_exception e"
    "data_error_cause True e \<noteq> None"
    using store_many_poisoned_unchanged [OF assms(2-4)] by blast
  obtain e' where e': "wrap_store_errors (Inl e :: exc + unit) = Inl e'" "is_data_error e'"
    using wrapped_data_error [OF e(2-4)] by (auto simp: is_data_error_def)
  obtain r' b' where aw: "await_store_many store_many b ts arriving = (r', b')"
    by (cases "await_store_many store_many b ts arriving")
  from await_store_many_ok [OF assms(1) e(1) aw] e' aw show ?thesis by simp
qed

text \<open>One by one: exactly the poisoned telegrams are left out.\<close>

lemma store_one_by_one_ok:
  assumes "bounded b" and "ready (backing b)" and "list_all sane ts"
  shows "\<exists>b'. store_one_by_one store_many raising b ts arr = (Inr (), b') \<and> ready (backing b') \<and>
    held (backing b') = keep_newest (capacity (backing b))
      (held (backing b) @ map stored (filter (\<lambda>t. \<not> poisoned t) ts)) \<and>
    capacity (backing b') = capacity (backing b) \<and> same_frame b b' \<and> bounded b' \<and>
    buffer b' = (if closing b then buffer b
      else take_last (room b) (buffer b @ arrivals (length ts) arr))"
  using assms
proof (induction ts arbitrary: b arr)
  case Nil
  then have "bounded (b\<lparr>buffer_full_warned := False\<rparr>)" by (simp add: bounded_def)
  with Nil show ?case by (simp add: held_bounded)
next
  case (Cons t ts)
  have sane: "list_all sane [t]" "list_all sane ts" using Cons.prems(3) by simp_all
  have buf: "take_last (room b) (take_last (room b) (buffer b @ next_arrivals arr) @ arrivals (length ts) (tl arr)) =
    take_last (room b) (buffer b @ arrivals (length (t # ts)) arr)"
    using take_last_append_take_last [of "room b" "buffer b @ next_arrivals arr"] by simp
  show ?case
  proof (cases "poisoned t")
    case True
    obtain e b1 where b1: "await_store_many store_many b [t] (next_arrivals arr) = (Inl e, b1)"
      "is_data_error e" "backing b1 = backing b" "same_frame b b1" "bounded b1"
      "buffer b1 = (if closing b then buffer b else take_last (room b) (buffer b @ next_arrivals arr))"
      using await_poisoned [OF Cons.prems(1,2) sane(1)] True by fastforce
    have "ready (backing b1)" using b1(3) Cons.prems(2) by simp
    from Cons.IH [OF b1(5) this sane(2), of "tl arr"] b1 True buf show ?thesis
      by (auto simp: same_frame_def)
  next
    case False
    then have np: "\<not> list_ex poisoned [t]" by simp
    obtain b1 where b1: "await_store_many store_many b [t] (next_arrivals arr) = (Inr (), b1)"
      "ready (backing b1)" "capacity (backing b1) = capacity (backing b)"
      "held (backing b1) = keep_newest (capacity (backing b)) (held (backing b) @ map stored [t])"
      "same_frame b b1" "bounded b1"
      "buffer b1 = (if closing b then buffer b else take_last (room b) (buffer b @ next_arrivals arr))"
      using await_accepted [OF Cons.prems(1,2) sane(1) np] by blast
    from Cons.IH [OF b1(6,2) sane(2), of "tl arr"] b1 False buf show ?thesis
      by (auto simp: same_frame_def)
  qed
qed

lemma flush_locked_ok:
  assumes "bounded b" and "ready (backing b)" and "list_all sane (buffer b)" and "writes_allowed b"
  shows "\<exists>b'. flush_locked store_many raising arr b = (Inr (), b') \<and> ready (backing b') \<and>
    held (backing b') = keep_newest (capacity (backing b))
      (held (backing b) @ map stored (filter (\<lambda>t. \<not> poisoned t) (buffer b))) \<and>
    capacity (backing b') = capacity (backing b) \<and> same_frame b b' \<and> bounded b' \<and>
    buffer b' = (if closing b then [] else take_last (room b) (arrivals (flush_awaits poisoned b) arr))"
proof (cases "buffer b = []")
  case True
  then show ?thesis
    using assms by (simp add: flush_locked_def held_bounded flush_awaits_def)
next
  case False
  let ?b = "b\<lparr>buffer := []\<rparr>"
  have pre: "bounded ?b" "ready (backing ?b)" using assms(1,2) by (simp_all add: bounded_def)
  show ?thesis
  proof (cases "list_ex poisoned (buffer b)")
    case True
    obtain e b1 where b1: "await_store_many store_many ?b (buffer b) (next_arrivals arr) = (Inl e, b1)"
      "is_data_error e" "backing b1 = backing b" "same_frame b b1" "bounded b1"
      "buffer b1 = (if closing b then [] else take_last (room b) (next_arrivals arr))"
      using await_poisoned [OF pre assms(3) True, of "next_arrivals arr"] by auto
    have ready: "ready (backing b1)" using b1(3) assms(2) by simp
    have frame: "closing b1 = closing b" "room b1 = room b" using b1(4) by (simp_all add: same_frame_def)
    have buf: "take_last (room b) (take_last (room b) (next_arrivals arr) @ arrivals (length (buffer b)) (tl arr)) =
      take_last (room b) (arrivals (flush_awaits poisoned b) arr)"
      using True False by (simp add: take_last_append_take_last flush_awaits_def)
    obtain b' where b': "store_one_by_one store_many raising b1 (buffer b) (tl arr) = (Inr (), b')"
      "ready (backing b')"
      "held (backing b') = keep_newest (capacity (backing b))
         (held (backing b) @ map stored (filter (\<lambda>t. \<not> poisoned t) (buffer b)))"
      "capacity (backing b') = capacity (backing b)" "same_frame b1 b'" "bounded b'"
      "buffer b' = (if closing b then buffer b1
         else take_last (room b) (buffer b1 @ arrivals (length (buffer b)) (tl arr)))"
      using store_one_by_one_ok [OF b1(5) ready assms(3), of raising "tl arr"] b1(3) frame by auto
    then have "flush_locked store_many raising arr b = (Inr (), b')"
      using False assms(4) b1(1,2) by (simp add: flush_locked_def Let_def)
    moreover have "buffer b' = (if closing b then [] else take_last (room b) (arrivals (flush_awaits poisoned b) arr))"
      using b'(7) b1(6) buf by simp
    moreover have "same_frame b b'" using b1(4) b'(5) by (rule same_frame_trans)
    ultimately show ?thesis using b' by blast
  next
    case np: False
    obtain b1 where b1: "await_store_many store_many ?b (buffer b) (next_arrivals arr) = (Inr (), b1)"
      "ready (backing b1)" "capacity (backing b1) = capacity (backing b)"
      "held (backing b1) = keep_newest (capacity (backing b)) (held (backing b) @ map stored (buffer b))"
      "same_frame b b1" "bounded b1"
      "buffer b1 = (if closing b then [] else take_last (room b) (next_arrivals arr))"
      using await_accepted [OF pre assms(3) np, of "next_arrivals arr"] by auto
    have "filter (\<lambda>t. \<not> poisoned t) (buffer b) = buffer b"
      using np by (intro filter_True) (simp add: list_ex_iff)
    with b1 False np assms(4) show ?thesis
      by (auto simp: flush_locked_def Let_def flush_awaits_def bounded_def same_frame_def)
  qed
qed

end

section \<open>Flushing into a database that fails\<close>

context atomic_writer
begin

text \<open>A transient failure gives the whole batch back, in front of what arrived meanwhile.\<close>

lemma flush_locked_gives_back:
  assumes "bounded b" and "writes_allowed b" and "buffer b \<noteq> []"
    and fails: "wrap_store_errors (fst (store_many (backing b) (buffer b))) = Inl e"
    and "\<not> is_data_error e"
  shows "\<exists>b'. flush_locked store_many raising arr b =
      (if \<not> is_exception e \<or> raising then Inl e else Inr (), b') \<and>
    backing b' = backing b \<and> same_frame b b' \<and> bounded b' \<and>
    buffer b' = take_last (room b) (buffer b @ (if closing b then [] else
      take_last (room b) (next_arrivals arr)))"
proof -
  let ?b = "b\<lparr>buffer := []\<rparr>"
  have pre: "bounded ?b" using assms(1) by (simp add: bounded_def)
  obtain e0 where e0: "fst (store_many (backing b) (buffer b)) = Inl e0"
    using fails by (cases "fst (store_many (backing b) (buffer b))") auto
  have sm: "store_many (backing ?b) (buffer b) = (Inl e0, backing b)"
    using e0 store_many_failure [OF e0] by (metis prod.collapse buffered.select_convs(8) buffered.update_convs(1) buffered.surjective)
  obtain r b1 where aw: "await_store_many store_many ?b (buffer b) (next_arrivals arr) = (r, b1)"
    by (cases "await_store_many store_many ?b (buffer b) (next_arrivals arr)")
  note b1 = await_store_many_ok [OF pre sm aw]
  have r: "r = Inl e" using b1(1) fails e0 by simp
  have "1 \<le> max_buffer_size b1" "room b1 = room b" using b1(3,4) by (simp_all add: same_frame_def bounded_def)
  note requeued = requeue_ok [OF this(1), of "buffer b"]
  have "flush_locked store_many raising arr b = flush_outcome raising e (requeue b1 (buffer b))"
    using assms(2,3,5) aw r by (simp add: flush_locked_def Let_def)
  moreover have "same_frame b (requeue b1 (buffer b))"
    using b1(3) requeued by (auto intro: same_frame_trans)
  ultimately show ?thesis
    using requeued b1 \<open>room b1 = room b\<close> by (auto simp: flush_outcome_def)
qed

end

end
