(* ===== verification/BufferRuns.thy ===== *)
theory BufferRuns
  imports BufferedLaws
begin

text \<open>
  The write buffer as a state machine: telegrams are accepted at any moment, also while a batch
  is in flight, and the batch is written as a whole or one by one, given back, or loses a telegram
  the store can never take. The flush of Buffered is a sequence of these steps, whatever arrives
  between its awaited calls, and an invariant of the reachable states says where every accepted
  telegram is.
\<close>

section \<open>The steps\<close>

text \<open>
  Besides the store and its buffer: the batch taken out of the buffer and not dealt with yet, all
  telegrams accepted so far, and those given up, on overflow or as undeliverable.
\<close>

record 's run =
  base :: "'s buffered"
  in_flight :: "stored_telegram list"
  accepted :: "stored_telegram list"
  overflowed :: "stored_telegram list"
  undeliverable :: "stored_telegram list"

definition run_init :: "'s \<Rightarrow> int \<Rightarrow> 's run" where
  "run_init s max_size =
     \<lparr>base = buffered_init s max_size, in_flight = [], accepted = [], overflowed = [],
      undeliverable = []\<rparr>"

text \<open>What \<open>take_last n\<close> gives up.\<close>

definition excess :: "nat \<Rightarrow> 'a list \<Rightarrow> 'a list" where
  "excess n xs = take (length xs - n) xs"

lemma excess_take_last [simp]: "excess n xs @ take_last n xs = xs"
  by (simp add: excess_def take_last_def)

lemma mset_excess: "mset xs = mset (excess n xs) + mset (take_last n xs)"
  by (metis excess_take_last mset_append)

lemma subseq_take_last: "subseq (take_last n xs) xs"
  unfolding take_last_def by (metis append_take_drop_id list_emb_append2 subseq_order.order_refl)

inductive buf_step ::
  "('s \<Rightarrow> stored_telegram list \<Rightarrow> (exc + unit) \<times> 's) \<Rightarrow> 's run \<Rightarrow> 's run \<Rightarrow> bool"
  for store_many where
  accept: "\<not> closing (base r) \<Longrightarrow> buf_store_sync (base r) t = (Inr (), b) \<Longrightarrow>
    buf_step store_many r (r\<lparr>base := b, accepted := accepted r @ [t],
      overflowed := overflowed r @ excess (room (base r)) (buffer (base r) @ [t])\<rparr>)"
| take: "in_flight r = [] \<Longrightarrow> writes_allowed (base r) \<Longrightarrow>
    buf_step store_many r (r\<lparr>base := (base r)\<lparr>buffer := []\<rparr>, in_flight := buffer (base r)\<rparr>)"
| written: "in_flight r = xs @ ys \<Longrightarrow> store_many (backing (base r)) xs = (Inr (), s) \<Longrightarrow>
    buf_step store_many r (r\<lparr>base := (base r)\<lparr>backing := s\<rparr>, in_flight := ys\<rparr>)"
| failed: "in_flight r = xs @ ys \<Longrightarrow> store_many (backing (base r)) xs = (Inl e, s) \<Longrightarrow>
    buf_step store_many r (r\<lparr>base := (base r)\<lparr>backing := s\<rparr>\<rparr>)"
| dropped: "in_flight r = t # ys \<Longrightarrow> store_many (backing (base r)) [t] = (Inl e, s) \<Longrightarrow>
    wrap_store_errors (Inl e :: exc + unit) = Inl e' \<Longrightarrow> is_data_error e' \<Longrightarrow>
    buf_step store_many r (r\<lparr>base := (base r)\<lparr>backing := s\<rparr>, in_flight := ys,
      undeliverable := undeliverable r @ [t]\<rparr>)"
| given_back:
    "buf_step store_many r (r\<lparr>base := requeue (base r) (in_flight r), in_flight := [],
      overflowed := overflowed r @ excess (room (base r)) (in_flight r @ buffer (base r))\<rparr>)"
| bookkeeping: "buf_step store_many r (r\<lparr>base := (base r)\<lparr>buffer_full_warned := w\<rparr>\<rparr>)"
| closes: "buf_step store_many r (r\<lparr>base := (base r)\<lparr>closing := True\<rparr>\<rparr>)"

abbreviation buf_steps ::
  "('s \<Rightarrow> stored_telegram list \<Rightarrow> (exc + unit) \<times> 's) \<Rightarrow> 's run \<Rightarrow> 's run \<Rightarrow> bool" where
  "buf_steps store_many \<equiv> (buf_step store_many)\<^sup>*\<^sup>*"

inductive_cases buf_stepE [consumes 1, case_names accept take written failed dropped given_back bookkeeping closes]:
  "buf_step store_many r r'"

lemmas buf_steps_trans = rtranclp_trans [of "buf_step store_many" for store_many]
lemmas buf_steps_step = rtranclp.rtrancl_into_rtrancl [of "buf_step store_many" for store_many]

section \<open>Where every accepted telegram is\<close>

text \<open>
  \<open>w\<close> is written, \<open>fl\<close> in flight and \<open>bu\<close> buffered: a subsequence of the accepted telegrams. The
  missing ones are accounted for: nothing overflows unless more telegrams were accepted than the
  buffer has room for, and what is undeliverable was refused.
\<close>

definition accounted ::
  "nat \<Rightarrow> ('t \<Rightarrow> bool) \<Rightarrow> 't list \<Rightarrow> 't list \<Rightarrow> 't list \<Rightarrow> 't list \<Rightarrow> 't list \<Rightarrow> 't list \<Rightarrow> bool" where
  "accounted n refused w fl bu acc ov un \<longleftrightarrow>
     subseq (w @ fl @ bu) acc \<and> mset acc = mset (w @ fl @ bu) + mset ov + mset un \<and>
     (length acc \<le> n \<longrightarrow> ov = []) \<and> (\<forall>t \<in> set un. refused t)"

lemma accountedD:
  assumes "accounted n refused w fl bu acc ov un"
  shows "subseq (w @ fl @ bu) acc" and "length acc = length (w @ fl @ bu) + length ov + length un"
    and "length acc \<le> n \<Longrightarrow> ov = []"
proof -
  have "size (mset acc) = size (mset (w @ fl @ bu) + mset ov + mset un)" using assms by (simp add: accounted_def)
  then show "length acc = length (w @ fl @ bu) + length ov + length un" by simp
qed (use assms in \<open>simp_all add: accounted_def\<close>)

lemma accounted_accept:
  assumes acc: "accounted n refused w fl bu acc ov un"
  shows "accounted n refused w fl (take_last n (bu @ [t])) (acc @ [t]) (ov @ excess n (bu @ [t])) un"
proof -
  note acc' = accountedD [OF acc]
  have "subseq ((w @ fl) @ take_last n (bu @ [t])) ((w @ fl) @ (bu @ [t]))"
    by (intro list_emb_append_mono subseq_take_last) simp_all
  also have "subseq ((w @ fl @ bu) @ [t]) (acc @ [t])"
    using acc'(1) by (intro list_emb_append_mono) simp_all
  then have "subseq ((w @ fl) @ (bu @ [t])) (acc @ [t])" by simp
  finally have "subseq ((w @ fl) @ take_last n (bu @ [t])) (acc @ [t])" .
  moreover have "length (acc @ [t]) \<le> n \<longrightarrow> ov @ excess n (bu @ [t]) = []"
    using acc'(2,3) by (auto simp: excess_def)
  ultimately show ?thesis using acc mset_excess [of "bu @ [t]" n] by (simp add: accounted_def)
qed

lemma accounted_give_back:
  assumes acc: "accounted n refused w fl bu acc ov un"
  shows "accounted n refused w [] (take_last n (fl @ bu)) acc (ov @ excess n (fl @ bu)) un"
proof -
  note acc' = accountedD [OF acc]
  have "subseq (w @ take_last n (fl @ bu)) (w @ (fl @ bu))"
    by (intro list_emb_append_mono subseq_take_last) simp_all
  also have "subseq (w @ (fl @ bu)) acc" using acc'(1) by simp
  finally have "subseq (w @ take_last n (fl @ bu)) acc" .
  moreover have "length acc \<le> n \<longrightarrow> ov @ excess n (fl @ bu) = []"
    using acc'(2,3) by (auto simp: excess_def)
  ultimately show ?thesis using acc mset_excess [of "fl @ bu" n] by (simp add: accounted_def)
qed

lemma accounted_drop:
  assumes "accounted n refused w (t # fl) bu acc ov un" and "refused t"
  shows "accounted n refused w fl bu acc ov (un @ [t])"
proof -
  have "subseq (w @ fl @ bu) (w @ (t # fl) @ bu)"
    by (intro list_emb_append_mono) (auto intro: list_emb_Cons)
  also have "subseq (w @ (t # fl) @ bu) acc" using assms by (simp add: accounted_def)
  finally show ?thesis using assms by (simp add: accounted_def)
qed

lemma accounted_moves:
  "accounted n refused w [] bu acc ov un \<Longrightarrow> accounted n refused w bu [] acc ov un"
  "accounted n refused w (xs @ ys) bu acc ov un \<Longrightarrow> accounted n refused (w @ xs) ys bu acc ov un"
  by (simp_all add: accounted_def)

text \<open>A telegram that a valid store may refuse on its own, with a data error.\<close>

definition refused ::
  "('s \<Rightarrow> bool) \<Rightarrow> ('s \<Rightarrow> stored_telegram list \<Rightarrow> (exc + unit) \<times> 's) \<Rightarrow> stored_telegram \<Rightarrow> bool" where
  "refused valid store_many t \<longleftrightarrow>
     (\<exists>s e. valid s \<and> fst (wrapped (store_many s [t])) = Inl e \<and> is_data_error e)"

context atomic_writer
begin

text \<open>The store holds some \<open>w\<close> on top of what it held at first, and all else is accounted for.\<close>

definition run_inv :: "stored_telegram list \<Rightarrow> nat option \<Rightarrow> 's run \<Rightarrow> bool" where
  "run_inv h0 c r \<longleftrightarrow> bounded (base r) \<and> ready (backing (base r)) \<and> capacity (backing (base r)) = c \<and>
     (\<exists>w. held (backing (base r)) = keep_newest c (h0 @ map stored w) \<and>
        accounted (room (base r)) (refused ready store_many) w (in_flight r) (buffer (base r)) (accepted r)
          (overflowed r) (undeliverable r))"

lemma run_inv_init:
  assumes "ready s" and "1 \<le> n"
  shows "run_inv (held s) (capacity s) (run_init s n)"
  using assms
  by (auto simp: run_inv_def run_init_def buffered_init_def bounded_def held_bounded accounted_def intro!: exI [of _ "[]"])

lemma run_invI:
  assumes "bounded b" and "ready (backing b)" and "capacity (backing b) = c"
    and "held (backing b) = keep_newest c (h0 @ map stored w)" and "accounted (room b) (refused ready store_many) w fl (buffer b) acc ov un"
  shows "run_inv h0 c \<lparr>base = b, in_flight = fl, accepted = acc, overflowed = ov, undeliverable = un\<rparr>"
  using assms unfolding run_inv_def by auto

lemma run_inv_step:
  assumes step: "buf_step store_many r r'" and inv: "run_inv h0 c r" and sane: "list_all sane (accepted r)"
  shows "run_inv h0 c r'"
proof -
  obtain b0 fl acc ov un where r: "r = \<lparr>base = b0, in_flight = fl, accepted = acc, overflowed = ov, undeliverable = un\<rparr>"
    by (cases r)
  from inv obtain w where b: "bounded b0" "ready (backing b0)" "capacity (backing b0) = c"
    and w: "held (backing b0) = keep_newest c (h0 @ map stored w)"
    and cnt: "accounted (room b0) (refused ready store_many) w fl (buffer b0) acc ov un"
    by (auto simp: run_inv_def r)
  have "set fl \<subseteq> set acc"
    using cnt by (auto simp: accounted_def dest: arg_cong [where f = set_mset])
  then have insane: "list_all sane fl" using sane by (auto simp: r list_all_iff)
  from step show ?thesis
  proof (cases rule: buf_stepE)
    case (accept t b)
    then have nc: "\<not> closing b0" and st: "buf_store_sync b0 t = (Inr (), b)" by (simp_all add: r)
    have "buffer b = take_last (room b0) (buffer b0 @ [t])" "backing b = backing b0" "bounded b" "room b = room b0"
      using buf_store_sync_ok [OF b(1) nc, of t] st by (auto simp: same_frame_def)
    then show ?thesis
      unfolding accept(1) r using b w accounted_accept [OF cnt] by (simp add: run_invI)
  next
    case take
    then have "accounted (room b0) (refused ready store_many) w (buffer b0) [] acc ov un" using cnt by (simp add: r accounted_moves)
    then show ?thesis
      unfolding take(1) r using b w by (simp add: run_invI bounded_def)
  next
    case (written xs ys s)
    then have fl: "fl = xs @ ys" and st: "store_many (backing b0) xs = (Inr (), s)" by (simp_all add: r)
    have "list_all sane xs" using insane fl by simp
    from store_many_success [OF b(2) this st] w b(3)
    have "ready s" "capacity s = c" "held s = keep_newest c (h0 @ map stored (w @ xs))" by auto
    then show ?thesis
      unfolding written(1) r using b accounted_moves(2) [OF cnt [unfolded fl]]
      by (auto intro!: run_invI [where w = "w @ xs"] simp: bounded_def)
  next
    case (failed xs ys e s)
    then have "s = backing b0" using store_many_failure [of "backing b0" xs e] by (simp add: r)
    then show ?thesis unfolding failed(1) r using b w cnt by (simp add: run_invI bounded_def)
  next
    case (dropped t ys e s e')
    then have fl: "fl = t # ys" and s: "s = backing b0"
      using store_many_failure [of "backing b0" "[t]" e] by (simp_all add: r)
    have "refused ready store_many t"
      unfolding refused_def using dropped(3-5) b(2)
      by (intro exI [of _ "backing b0"] exI [of _ e']) (simp add: wrapped_def r)
    then show ?thesis
      unfolding dropped(1) r using b w accounted_drop [OF cnt [unfolded fl]] s by (simp add: run_invI bounded_def)
  next
    case given_back
    have "1 \<le> max_buffer_size b0" using b(1) by (simp add: bounded_def)
    note requeued = requeue_ok [OF this, of fl]
    show ?thesis
      unfolding given_back r using b w requeued accounted_give_back [OF cnt] by (simp add: run_invI same_frame_def)
  next
    case (bookkeeping wn)
    then show ?thesis unfolding bookkeeping r using b w cnt by (simp add: run_invI bounded_def)
  next
    case closes
    then show ?thesis unfolding closes r using b w cnt by (simp add: run_invI bounded_def)
  qed
qed

lemma accepted_grows: "buf_step sm r r' \<Longrightarrow> set (accepted r) \<subseteq> set (accepted r')"
  by (cases rule: buf_stepE) auto

lemma run_inv_steps:
  assumes "buf_steps store_many r r'" and "run_inv h0 c r" and "list_all sane (accepted r')"
  shows "run_inv h0 c r'"
  using assms
proof (induction rule: rtranclp_induct)
  case base
  then show ?case by simp
next
  case (step r1 r2)
  have "list_all sane (accepted r1)"
    using accepted_grows [OF step.hyps(2)] step.prems(2) by (auto simp: list_all_iff)
  with step show ?case by (intro run_inv_step [of r1 r2]) auto
qed

end

section \<open>The flush is a sequence of steps\<close>

text \<open>How many calls of \<open>store_many\<close> a flush awaits, whatever they answer.\<close>

fun one_by_one_calls ::
  "('s \<Rightarrow> stored_telegram list \<Rightarrow> (exc + unit) \<times> 's) \<Rightarrow> 's buffered \<Rightarrow> stored_telegram list \<Rightarrow>
   stored_telegram list list \<Rightarrow> nat"
where
  "one_by_one_calls sm b [] arr = 0"
| "one_by_one_calls sm b (t # ts) arr =
     (case await_store_many sm b [t] (next_arrivals arr) of
        (Inr _, b) \<Rightarrow> Suc (one_by_one_calls sm b ts (tl arr))
      | (Inl e, b) \<Rightarrow> if is_data_error e then Suc (one_by_one_calls sm b ts (tl arr)) else 1)"

definition flush_calls ::
  "('s \<Rightarrow> stored_telegram list \<Rightarrow> (exc + unit) \<times> 's) \<Rightarrow> stored_telegram list list \<Rightarrow> 's buffered \<Rightarrow> nat"
where
  "flush_calls sm arr b =
     (if \<not> writes_allowed b \<or> buffer b = [] then 0
      else (case await_store_many sm (b\<lparr>buffer := []\<rparr>) (buffer b) (next_arrivals arr) of
              (Inr _, b1) \<Rightarrow> 1
            | (Inl e, b1) \<Rightarrow> if is_data_error e then Suc (one_by_one_calls sm b1 (buffer b) (tl arr)) else 1))"

text \<open>What of the arriving telegrams is accepted.\<close>

definition heard :: "'s buffered \<Rightarrow> stored_telegram list \<Rightarrow> stored_telegram list" where
  "heard b ts = (if closing b then [] else ts)"

lemma heard_simps [simp]:
  "heard b [] = []" "heard (b\<lparr>backing := s\<rparr>) ts = heard b ts" "heard (b\<lparr>buffer := x\<rparr>) ts = heard b ts"
  "heard b (ts @ us) = heard b ts @ heard b us"
  by (simp_all add: heard_def)

lemma heard_frame: "same_frame b b' \<Longrightarrow> heard b' ts = heard b ts"
  by (simp add: heard_def same_frame_def)

text \<open>A sequence of steps to a state of the buffer, a batch in flight and telegrams newly accepted.\<close>

definition leads ::
  "('s \<Rightarrow> stored_telegram list \<Rightarrow> (exc + unit) \<times> 's) \<Rightarrow> 's run \<Rightarrow> 's buffered \<Rightarrow> stored_telegram list \<Rightarrow>
   stored_telegram list \<Rightarrow> bool"
where
  "leads sm r b fl acc \<longleftrightarrow>
     (\<exists>r'. buf_steps sm r r' \<and> base r' = b \<and> in_flight r' = fl \<and> accepted r' = accepted r @ acc)"

lemma leads_refl [simp]: "base r = b \<Longrightarrow> in_flight r = fl \<Longrightarrow> leads sm r b fl []"
  by (auto simp: leads_def)

lemma leads_step: "buf_step sm r r1 \<Longrightarrow> leads sm r1 b fl acc \<Longrightarrow> accepted r1 = accepted r @ a1 \<Longrightarrow> leads sm r b fl (a1 @ acc)"
  by (auto simp: leads_def intro: converse_rtranclp_into_rtranclp)

lemma leads_trans:
  assumes "leads sm r b fl acc" and "\<And>r1. base r1 = b \<Longrightarrow> in_flight r1 = fl \<Longrightarrow> leads sm r1 b' fl' acc'"
  shows "leads sm r b' fl' (acc @ acc')"
proof -
  obtain r1 where r1: "buf_steps sm r r1" "base r1 = b" "in_flight r1 = fl" "accepted r1 = accepted r @ acc"
    using assms(1) by (auto simp: leads_def)
  obtain r2 where "buf_steps sm r1 r2" "base r2 = b'" "in_flight r2 = fl'" "accepted r2 = accepted r1 @ acc'"
    using assms(2) [OF r1(2,3)] by (auto simp: leads_def)
  with r1 show ?thesis unfolding leads_def by (metis append.assoc rtranclp_trans)
qed

lemma arrive_steps:
  assumes "bounded (base r)"
  shows "leads sm r (arrive (base r) ts) (in_flight r) (heard (base r) ts)"
  using assms
proof (induction ts arbitrary: r)
  case Nil
  then show ?case by (simp add: arrive_def)
next
  case (Cons t ts)
  show ?case
  proof (cases "closing (base r)")
    case True
    then have "arrive (base r) (t # ts) = arrive (base r) ts"
      by (simp add: arrive_def buf_store_sync_closing)
    with Cons.IH [OF Cons.prems] True show ?thesis by (simp add: heard_def)
  next
    case False
    obtain b where b: "buf_store_sync (base r) t = (Inr (), b)" "bounded b" "same_frame (base r) b"
      using buf_store_sync_ok [OF Cons.prems False] by blast
    let ?r = "r\<lparr>base := b, accepted := accepted r @ [t],
      overflowed := overflowed r @ excess (room (base r)) (buffer (base r) @ [t])\<rparr>"
    have "leads sm ?r (arrive b ts) (in_flight r) (heard b ts)" using Cons.IH [of ?r] b(2) by simp
    from leads_step [OF buf_step.accept [OF False b(1)] this] have "leads sm r (arrive b ts) (in_flight r) ([t] @ heard b ts)"
      by simp
    moreover have "arrive (base r) (t # ts) = arrive b ts" using b(1) by (simp add: arrive_def)
    ultimately show ?thesis using False heard_frame [OF b(3)] by (simp add: heard_def)
  qed
qed

text \<open>An awaited call: a step that changes the store, then the arrivals.\<close>

lemma await_steps:
  assumes aw: "await_store_many sm (base r) batch ts = (res, b)" and bd: "bounded (base r)"
    and step: "\<And>x s. sm (backing (base r)) batch = (x, s) \<Longrightarrow> wrap_store_errors x = res \<Longrightarrow>
      \<exists>r1. buf_step sm r r1 \<and> base r1 = (base r)\<lparr>backing := s\<rparr> \<and> in_flight r1 = fl \<and> accepted r1 = accepted r"
  shows "leads sm r b fl (heard (base r) ts) \<and> bounded b \<and> same_frame (base r) b"
proof -
  obtain x s where xs: "sm (backing (base r)) batch = (x, s)" by (cases "sm (backing (base r)) batch")
  with aw have res: "wrap_store_errors x = res" and b: "b = arrive ((base r)\<lparr>backing := s\<rparr>) ts"
    by (simp_all add: await_store_many_def on_backing_def wrapped_def)
  from step [OF xs res] obtain r1 where r1: "buf_step sm r r1" "base r1 = (base r)\<lparr>backing := s\<rparr>"
    "in_flight r1 = fl" "accepted r1 = accepted r" by blast
  have "bounded (base r1)" using bd r1(2) by (simp add: bounded_def)
  with arrive_steps [of r1 sm ts] arrive_ok [of "base r1" ts] leads_step [OF r1(1), of b fl "heard (base r) ts" "[]"] r1 b
  show ?thesis by simp
qed

text \<open>The three ways an awaited write ends, and the way a batch is given back.\<close>

lemma await_written:
  assumes aw: "await_store_many sm (base r) xs ts = (Inr u, b)" and bd: "bounded (base r)" and fl: "in_flight r = xs @ ys"
  shows "leads sm r b ys (heard (base r) ts) \<and> bounded b \<and> same_frame (base r) b"
proof (rule await_steps [OF aw bd])
  fix x s
  assume "sm (backing (base r)) xs = (x, s)" and "wrap_store_errors x = Inr u"
  then have "buf_step sm r (r\<lparr>base := (base r)\<lparr>backing := s\<rparr>, in_flight := ys\<rparr>)"
    using fl by (intro buf_step.written [of r xs ys]) simp_all
  then show "\<exists>r1. buf_step sm r r1 \<and> base r1 = (base r)\<lparr>backing := s\<rparr> \<and> in_flight r1 = ys \<and> accepted r1 = accepted r" by force
qed

lemma await_failed:
  assumes aw: "await_store_many sm (base r) xs ts = (Inl e, b)" and bd: "bounded (base r)" and fl: "in_flight r = xs @ ys"
  shows "leads sm r b (xs @ ys) (heard (base r) ts) \<and> bounded b \<and> same_frame (base r) b"
proof (rule await_steps [OF aw bd])
  fix x s
  assume x: "sm (backing (base r)) xs = (x, s)" "wrap_store_errors x = Inl e"
  then obtain e0 where "x = Inl e0" by (cases x) auto
  then have "buf_step sm r (r\<lparr>base := (base r)\<lparr>backing := s\<rparr>\<rparr>)"
    using x fl by (intro buf_step.failed [of r xs ys sm e0 s]) simp_all
  then show "\<exists>r1. buf_step sm r r1 \<and> base r1 = (base r)\<lparr>backing := s\<rparr> \<and> in_flight r1 = xs @ ys \<and> accepted r1 = accepted r"
    using fl by force
qed

lemma await_dropped:
  assumes aw: "await_store_many sm (base r) [t] ts = (Inl e, b)" and bd: "bounded (base r)" and fl: "in_flight r = t # ys"
    and "is_data_error e"
  shows "leads sm r b ys (heard (base r) ts) \<and> bounded b \<and> same_frame (base r) b"
proof (rule await_steps [OF aw bd])
  fix x s
  assume x: "sm (backing (base r)) [t] = (x, s)" "wrap_store_errors x = Inl e"
  then obtain e0 where "x = Inl e0" by (cases x) auto
  then have "buf_step sm r (r\<lparr>base := (base r)\<lparr>backing := s\<rparr>, in_flight := ys, undeliverable := undeliverable r @ [t]\<rparr>)"
    using x assms(3,4) by (intro buf_step.dropped [of r t ys sm e0 s e]) simp_all
  then show "\<exists>r1. buf_step sm r r1 \<and> base r1 = (base r)\<lparr>backing := s\<rparr> \<and> in_flight r1 = ys \<and> accepted r1 = accepted r" by force
qed

lemma give_back_steps:
  assumes "leads sm r b xs acc"
  shows "leads sm r (requeue b xs) [] acc"
proof -
  have "leads sm r (requeue b xs) [] (acc @ [])"
  proof (rule leads_trans [OF assms])
    fix r1 :: "'a run"
    assume r1: "base r1 = b" "in_flight r1 = xs"
    show "leads sm r1 (requeue b xs) [] []"
      using leads_step [OF buf_step.given_back [of sm r1] leads_refl [OF refl refl], of "[]"] r1 by simp
  qed
  then show ?thesis by simp
qed

lemma bookkeeping_steps:
  assumes "leads sm r b [] acc"
  shows "leads sm r (b\<lparr>buffer_full_warned := w\<rparr>) [] acc"
proof -
  have "leads sm r (b\<lparr>buffer_full_warned := w\<rparr>) [] (acc @ [])"
  proof (rule leads_trans [OF assms])
    fix r1 :: "'a run"
    assume r1: "base r1 = b" "in_flight r1 = []"
    show "leads sm r1 (b\<lparr>buffer_full_warned := w\<rparr>) [] []"
      using leads_step [OF buf_step.bookkeeping [of sm r1 w] leads_refl [OF refl refl], of "[]"] r1 by simp
  qed
  then show ?thesis by simp
qed

lemma store_one_by_one_steps:
  assumes "bounded (base r)" and "in_flight r = ts"
  shows "leads sm r (snd (store_one_by_one sm raising (base r) ts arr)) []
    (heard (base r) (arrivals (one_by_one_calls sm (base r) ts arr) arr))"
  using assms
proof (induction ts arbitrary: r arr)
  case Nil
  then show ?case using bookkeeping_steps [of sm r "base r" "[]" False] by simp
next
  case (Cons t ts)
  obtain res b where aw: "await_store_many sm (base r) [t] (next_arrivals arr) = (res, b)"
    by (cases "await_store_many sm (base r) [t] (next_arrivals arr)")
  have go_on: "leads sm r (snd (store_one_by_one sm raising b ts (tl arr))) []
      (heard (base r) (next_arrivals arr @ arrivals (one_by_one_calls sm b ts (tl arr)) (tl arr)))"
    if "leads sm r b ts (heard (base r) (next_arrivals arr)) \<and> bounded b \<and> same_frame (base r) b"
  proof -
    have "leads sm r (snd (store_one_by_one sm raising b ts (tl arr))) []
      (heard (base r) (next_arrivals arr) @ heard b (arrivals (one_by_one_calls sm b ts (tl arr)) (tl arr)))"
      using that by (intro leads_trans [of sm r b ts]) (auto dest: Cons.IH [where arr = "tl arr"])
    moreover have "heard b us = heard (base r) us" for us using that heard_frame by blast
    ultimately show ?thesis by simp
  qed
  show ?case
  proof (cases res)
    case (Inr u)
    with aw Cons.prems have "leads sm r b ts (heard (base r) (next_arrivals arr)) \<and> bounded b \<and> same_frame (base r) b"
      by (intro await_written [of sm r "[t]" "next_arrivals arr" u]) simp_all
    from go_on [OF this] show ?thesis by (simp add: aw Inr)
  next
    case (Inl e)
    show ?thesis
    proof (cases "is_data_error e")
      case True
      from go_on [OF await_dropped [OF aw [unfolded Inl] Cons.prems True]] show ?thesis by (simp add: aw Inl True)
    next
      case False
      have "leads sm r b (t # ts) (heard (base r) (next_arrivals arr))"
        using await_failed [OF aw [unfolded Inl] Cons.prems(1), of ts] Cons.prems(2) by simp
      from give_back_steps [OF this] show ?thesis by (simp add: aw Inl False flush_outcome_def)
    qed
  qed
qed

lemma flush_locked_steps:
  assumes "bounded (base r)" and "in_flight r = []"
  shows "leads sm r (snd (flush_locked sm raising arr (base r))) []
    (heard (base r) (arrivals (flush_calls sm arr (base r)) arr))"
proof (cases "\<not> writes_allowed (base r) \<or> buffer (base r) = []")
  case True
  then show ?thesis using assms(2) by (auto simp: flush_locked_def flush_calls_def)
next
  case False
  let ?batch = "buffer (base r)"
  let ?r1 = "r\<lparr>base := (base r)\<lparr>buffer := []\<rparr>, in_flight := ?batch\<rparr>"
  have taken: "buf_step sm r ?r1" using False assms(2) by (intro buf_step.take) simp_all
  note first = leads_step [OF taken, where ?a1.0 = "[]", simplified]
  have bd: "bounded (base ?r1)" using assms(1) by (simp add: bounded_def)
  obtain res b where aw: "await_store_many sm (base ?r1) ?batch (next_arrivals arr) = (res, b)"
    by (cases "await_store_many sm (base ?r1) ?batch (next_arrivals arr)")
  show ?thesis
  proof (cases res)
    case (Inr u)
    have "leads sm ?r1 b [] (heard (base r) (next_arrivals arr))"
      using await_written [OF aw [unfolded Inr] bd, of "[]"] by simp
    from bookkeeping_steps [OF first [OF this]] show ?thesis
      using False aw Inr by (simp add: flush_locked_def flush_calls_def Let_def)
  next
    case (Inl e)
    have fl: "leads sm ?r1 b ?batch (heard (base r) (next_arrivals arr))" "bounded b" "same_frame (base r) b"
      using await_failed [OF aw [unfolded Inl] bd, of "[]"] by simp_all
    note so_far = first [OF fl(1)]
    show ?thesis
    proof (cases "is_data_error e")
      case True
      have "leads sm r (snd (store_one_by_one sm raising b ?batch (tl arr))) []
        (heard (base r) (next_arrivals arr) @ heard b (arrivals (one_by_one_calls sm b ?batch (tl arr)) (tl arr)))"
        using store_one_by_one_steps [where sm = sm and arr = "tl arr" and raising = raising] fl(2)
        by (intro leads_trans [OF so_far]) auto
      then show ?thesis
        using False aw Inl True heard_frame [OF fl(3)] by (simp add: flush_locked_def flush_calls_def Let_def)
    next
      case not_data: False
      from give_back_steps [OF so_far] show ?thesis
        using False aw Inl not_data by (simp add: flush_locked_def flush_calls_def Let_def flush_outcome_def)
    qed
  qed
qed

end
