(* ===== verification/PyStrings.thy ===== *)
theory PyStrings
  imports Errors
begin

text \<open>
  What the library uses of Python's strings, as sequences of Latin-1 characters: \<open>strip\<close>,
  \<open>lower\<close>, \<open>isdigit\<close>, \<open>partition\<close>, \<open>int\<close>, and the decimal formats.
\<close>

abbreviation code :: "char \<Rightarrow> nat" where
  "code \<equiv> of_char"

definition is_space :: "char \<Rightarrow> bool" where
  "is_space c \<longleftrightarrow> 9 \<le> code c \<and> code c \<le> 13 \<or> 28 \<le> code c \<and> code c \<le> 32 \<or>
     code c = 133 \<or> code c = 160"

definition strip :: "string \<Rightarrow> string" where
  "strip s = rev (dropWhile is_space (rev (dropWhile is_space s)))"

definition lower_char :: "char \<Rightarrow> char" where
  "lower_char c =
     (if 65 \<le> code c \<and> code c \<le> 90 \<or> 192 \<le> code c \<and> code c \<le> 222 \<and> code c \<noteq> 215
      then char_of (code c + 32) else c)"

definition lower :: "string \<Rightarrow> string" where
  "lower s = map lower_char s"

text \<open>\<open>str.isdigit\<close> also holds of the superscripts two, three and one, which \<open>int\<close> rejects.\<close>

definition is_decimal :: "char \<Rightarrow> bool" where
  "is_decimal c \<longleftrightarrow> 48 \<le> code c \<and> code c \<le> 57"

definition isdigit :: "string \<Rightarrow> bool" where
  "isdigit s \<longleftrightarrow> s \<noteq> [] \<and>
     list_all (\<lambda>c. is_decimal c \<or> code c = 178 \<or> code c = 179 \<or> code c = 185) s"

text \<open>\<open>partition(".")\<close>: before the first dot, whether there is one, after it.\<close>

definition partition_dot :: "string \<Rightarrow> string \<times> bool \<times> string" where
  "partition_dot s = (let pre = takeWhile (\<lambda>c. c \<noteq> CHR ''.'') s; rest = drop (length pre) s in
     (pre, rest \<noteq> [], tl rest))"

definition decimal_value :: "string \<Rightarrow> int" where
  "decimal_value s = foldl (\<lambda>a c. 10 * a + (int (code c) - 48)) 0 s"

text \<open>\<open>int(s)\<close> of a string for which \<open>isdigit\<close> holds.\<close>

definition int_of_str :: "string \<Rightarrow> exc + int" where
  "int_of_str s = (if list_all is_decimal s then Inr (decimal_value s) else Inl (raise_exc ValueError))"

fun decimal_digits :: "nat \<Rightarrow> string" where
  "decimal_digits n =
     (if n < 10 then [char_of (48 + n)] else decimal_digits (n div 10) @ [char_of (48 + n mod 10)])"

declare decimal_digits.simps [simp del]

definition str_int :: "int \<Rightarrow> string" where
  "str_int i = (if i < 0 then CHR ''-'' # decimal_digits (nat (- i)) else decimal_digits (nat i))"

text \<open>The format \<open>03d\<close>: zeros between the sign and the digits, up to three characters.\<close>

definition format_03d :: "int \<Rightarrow> string" where
  "format_03d i =
     (let sign = (if i < 0 then ''-'' else []); digits = decimal_digits (nat \<bar>i\<bar>) in
      sign @ replicate (3 - length sign - length digits) (CHR ''0'') @ digits)"

section \<open>Decimal numerals\<close>

lemma is_decimal_digit: "k < 10 \<Longrightarrow> is_decimal (char_of (48 + k)) \<and> code (char_of (48 + k) :: char) = 48 + k"
  by (simp add: is_decimal_def)

lemma decimal_digits_ok: "list_all is_decimal (decimal_digits n) \<and> decimal_digits n \<noteq> []"
proof (induction n rule: decimal_digits.induct)
  case (1 n)
  then show ?case
    using is_decimal_digit [of n] is_decimal_digit [of "n mod 10"] by (subst (1 2) decimal_digits.simps) simp
qed

lemma decimal_value_snoc: "decimal_value (s @ [c]) = 10 * decimal_value s + (int (code c) - 48)"
  by (simp add: decimal_value_def)

lemma decimal_value_digits: "decimal_value (decimal_digits n) = int n"
proof (induction n rule: decimal_digits.induct)
  case (1 n)
  show ?case
  proof (cases "n < 10")
    case True
    then show ?thesis
      using is_decimal_digit [of n] by (subst decimal_digits.simps) (simp add: decimal_value_def)
  next
    case False
    then have "decimal_value (decimal_digits n) = 10 * int (n div 10) + int (n mod 10)"
      using 1 is_decimal_digit [of "n mod 10"] by (subst decimal_digits.simps) (simp add: decimal_value_snoc)
    then show ?thesis by (metis div_mult_mod_eq mult.commute of_nat_add of_nat_mult of_nat_numeral)
  qed
qed

lemma decimal_value_zeros: "decimal_value (replicate n (CHR ''0'') @ s) = decimal_value s"
  by (induction n) (simp_all add: decimal_value_def)

lemma decimal_not_special: "is_decimal c \<Longrightarrow> c \<noteq> CHR ''.'' \<and> \<not> is_space c"
  by (auto simp: is_decimal_def is_space_def)

lemma format_03d_ok:
  assumes "0 \<le> i"
  shows "list_all is_decimal (format_03d i)" and "format_03d i \<noteq> []" and "decimal_value (format_03d i) = i"
  using assms decimal_digits_ok [of "nat i"] decimal_value_digits [of "nat i"]
  by (auto simp: format_03d_def Let_def list_all_iff decimal_value_zeros is_decimal_def)

lemma str_int_ok:
  assumes "0 \<le> i"
  shows "list_all is_decimal (str_int i)" and "str_int i \<noteq> []" and "decimal_value (str_int i) = i"
  using assms decimal_digits_ok [of "nat i"] decimal_value_digits [of "nat i"] by (simp_all add: str_int_def)

lemma isdigit_decimal: "list_all is_decimal s \<Longrightarrow> s \<noteq> [] \<Longrightarrow> isdigit s"
  by (auto simp: isdigit_def list_all_iff)

lemma strip_no_space: "list_all (\<lambda>c. \<not> is_space c) s \<Longrightarrow> strip s = s"
proof -
  assume s: "list_all (\<lambda>c. \<not> is_space c) s"
  have "dropWhile is_space u = u" if "list_all (\<lambda>c. \<not> is_space c) u" for u
    using that by (cases u) auto
  moreover have "list_all (\<lambda>c. \<not> is_space c) (rev s)" using s by (simp add: list_all_iff)
  ultimately show ?thesis using s by (simp add: strip_def)
qed

lemma partition_dot_none: "list_all is_decimal s \<Longrightarrow> partition_dot s = (s, False, [])"
proof -
  assume "list_all is_decimal s"
  then have pre: "takeWhile (\<lambda>c. c \<noteq> CHR ''.'') s = s"
    using decimal_not_special by (fastforce simp: takeWhile_eq_all_conv list_all_iff)
  show ?thesis unfolding partition_dot_def Let_def pre by simp
qed

lemma partition_dot_one: "list_all is_decimal s \<Longrightarrow> partition_dot (s @ ''.'' @ u) = (s, True, u)"
proof -
  assume "list_all is_decimal s"
  then have "takeWhile (\<lambda>c. c \<noteq> CHR ''.'') (s @ ''.'' @ u) = s"
    using decimal_not_special by (fastforce simp: takeWhile_append list_all_iff)
  then show ?thesis by (simp add: partition_dot_def Let_def)
qed

end
