(* ===== verification/SqliteUtc.thy ===== *)
theory SqliteUtc
  imports Timestamps
begin

text \<open>
  The conversion of pre-UTC timestamps in src/knx_telegram_store/backends/sqlite.py
  (\<open>_transition_between\<close>, \<open>_offset_intervals\<close>, \<open>_convert_table_to_utc\<close>, \<open>_legacy_row_scopes\<close>,
  \<open>_classify_timestamp_convention\<close>, \<open>migrate_timestamps_to_utc\<close>).

  A naive datetime is its wall clock in microseconds, as in Timestamps. A timezone is the
  parameter \<open>zone\<close>: its offset in whole seconds at a naive local time (\<open>_offset_at\<close>, with
  \<open>fold=0\<close>), and the local wall clock at an instant (\<open>astimezone\<close>).
\<close>

definition second :: int where "second = 1000000"

definition hour :: int where "hour = 3600000000"

record zone =
  offset_at :: "int \<Rightarrow> int"
  local_at :: "int \<Rightarrow> int"

section \<open>The exact second of a transition\<close>

text \<open>\<open>timedelta / 2\<close> rounds half a microsecond to the even neighbour.\<close>

definition half :: "int \<Rightarrow> int" where
  "half d = (if even d then d div 2 else if even (d div 2) then d div 2 else d div 2 + 1)"

lemma half_bounds: "1000000 < d \<Longrightarrow> 0 < half d \<and> half d < d"
  by (auto simp: half_def)

function transition_loop :: "zone \<Rightarrow> int \<Rightarrow> int \<Rightarrow> int \<Rightarrow> int" where
  "transition_loop z off before after =
     (if after - before > second
      then let middle = before + half (after - before) in
           if offset_at z middle = off then transition_loop z off middle after
           else transition_loop z off before middle
      else after)"
  by pat_completeness auto

termination
proof (relation "measure (\<lambda>(z, off, before, after). nat (after - before))", goal_cases)
  case (2 z off before after middle)
  then show ?case using half_bounds [of "after - before"] by (simp add: second_def)
next
  case (3 z off before after middle)
  then show ?case using half_bounds [of "after - before"] by (simp add: second_def)
qed simp

declare transition_loop.simps [simp del]

text \<open>\<open>replace(microsecond=0)\<close>\<close>

definition whole_second :: "int \<Rightarrow> int" where
  "whole_second w = w - w mod second"

definition transition_between :: "int \<Rightarrow> int \<Rightarrow> zone \<Rightarrow> int \<Rightarrow> int" where
  "transition_between before after z off = whole_second (transition_loop z off before after)"

section \<open>Stretches of constant offset\<close>

text \<open>A naive datetime plus a timedelta.\<close>

definition naive_plus :: "int \<Rightarrow> int \<Rightarrow> exc + int" where
  "naive_plus w d = (if in_range (w + d) then Inr (w + d) else Inl (raise_exc OverflowError))"

type_synonym interval = "int \<times> int \<times> int"

text \<open>
  The walk: the stretch in progress is its start and its offset. The result is the finished
  stretches and the one in progress at the end.
\<close>

function walk ::
  "zone \<Rightarrow> int \<Rightarrow> int \<Rightarrow> int \<Rightarrow> int \<Rightarrow> int \<Rightarrow> interval list \<Rightarrow> exc + interval list \<times> int \<times> int"
where
  "walk z last_cursor cursor previous start off intervals =
     (if cursor \<le> last_cursor then
        let here = offset_at z cursor;
            (start', off', intervals') =
              (if here \<noteq> off
               then let boundary = transition_between previous cursor z off in
                    (boundary, here, intervals @ [(start, boundary, off)])
               else (start, off, intervals))
        in (case naive_plus cursor hour of
              Inl e \<Rightarrow> Inl e
            | Inr next_cursor \<Rightarrow> walk z last_cursor next_cursor cursor start' off' intervals')
      else Inr (intervals, start, off))"
  by pat_completeness auto
termination
  by (relation "measure (\<lambda>(z, last_cursor, cursor, _). nat (last_cursor + 1 - cursor))")
    (auto simp: naive_plus_def hour_def split: if_splits)

declare walk.simps [simp del]

definition offset_intervals :: "int \<Rightarrow> int \<Rightarrow> zone \<Rightarrow> exc + interval list" where
  "offset_intervals oldest newest z =
     (let cursor = oldest - oldest mod hour in
      bind_res (naive_plus newest hour) (\<lambda>last_cursor.
      bind_res
        (if cursor \<le> last_cursor then
           bind_res (naive_plus cursor hour) (\<lambda>next_cursor.
             bind_res (walk z last_cursor next_cursor cursor cursor (offset_at z cursor) []) (\<lambda>r.
               Inr (Some r)))
         else Inr None) (\<lambda>walked.
        case walked of
          None \<Rightarrow> Inr []
        | Some (intervals, start, off) \<Rightarrow>
            bind_res (naive_plus last_cursor hour) (\<lambda>tail. Inr (intervals @ [(start, tail, off)])))))"

section \<open>One table\<close>

record utc_row =
  u_rowid :: int
  u_timestamp :: int

text \<open>The CASE expression: the branch of the first stretch that ends after the timestamp.\<close>

fun shift_case :: "interval list \<Rightarrow> int \<Rightarrow> int" where
  "shift_case [] w = w"
| "shift_case [(start, end_of, off)] w = (if off = 0 then w else w - off * second)"
| "shift_case ((start, end_of, off) # iv # ivs) w =
     (if w < end_of then (if off = 0 then w else w - off * second) else shift_case (iv # ivs) w)"

definition as_naive :: "int \<Rightarrow> exc + int" where
  "as_naive us = bind_res (micros_to_datetime us) (\<lambda>d. Inr (wall d))"

definition convert_table_to_utc ::
  "zone \<Rightarrow> (utc_row \<Rightarrow> bool) \<Rightarrow> utc_row list \<Rightarrow> exc + int \<times> utc_row list" where
  "convert_table_to_utc z scope rows =
     (let selected = filter scope rows in
      if selected = [] then Inr (0, rows)
      else
        bind_res (as_naive (Min (u_timestamp ` set selected))) (\<lambda>oldest.
        bind_res (as_naive (Max (u_timestamp ` set selected))) (\<lambda>newest.
        bind_res (offset_intervals oldest newest z) (\<lambda>intervals.
          if list_all (\<lambda>(_, _, off). off = 0) intervals then Inr (0, rows)
          else Inr (int (length selected),
            map (\<lambda>r. if scope r then r\<lparr>u_timestamp := shift_case intervals (u_timestamp r)\<rparr> else r) rows)))))"

section \<open>Which rows are legacy\<close>

text \<open>
  The file: both tables and the markers kept in \<open>store_metadata\<close>. The boundary is kept as ISO
  text, here as the datetime it spells.
\<close>

record utc_file =
  u_telegrams :: "utc_row list"
  u_last_ga :: "utc_row list"
  utc_flag :: bool
  utc_boundary :: "datetime option"
  legacy_max_rowid :: "int option"
  utc_source_zone :: "zone option"

definition max_rowid :: "utc_row list \<Rightarrow> int" where
  "max_rowid rows = (if rows = [] then 0 else Max (u_rowid ` set rows))"

text \<open>\<open>now\<close> is \<open>datetime.now(UTC)\<close>; \<open>legacy_zone\<close> is \<open>legacy_timestamp_timezone\<close>.\<close>

definition classify_timestamp_convention :: "zone option \<Rightarrow> datetime \<Rightarrow> utc_file \<Rightarrow> utc_file" where
  "classify_timestamp_convention legacy_zone now f =
     (if utc_flag f then f
      else if u_telegrams f = [] \<and> u_last_ga f = [] then f\<lparr>utc_flag := True\<rparr>
      else if utc_boundary f = None then
        (if legacy_zone \<noteq> None then f
         else f\<lparr>utc_boundary := Some now, legacy_max_rowid := Some (max_rowid (u_telegrams f))\<rparr>)
      else f)"

definition legacy_row_scopes :: "zone \<Rightarrow> utc_file \<Rightarrow> (utc_row \<Rightarrow> bool) \<times> (utc_row \<Rightarrow> bool)" where
  "legacy_row_scopes z f = (case utc_boundary f of
     None \<Rightarrow> ((\<lambda>_. True), (\<lambda>_. True))
   | Some boundary \<Rightarrow>
       let conservative = (\<lambda>r. u_timestamp r < instant boundary) in
       (case legacy_max_rowid f of
          None \<Rightarrow> (conservative, conservative)
        | Some marker \<Rightarrow>
            if marker \<le> max_rowid (u_telegrams f)
            then ((\<lambda>r. u_rowid r \<le> marker \<and> u_timestamp r < local_at z (instant boundary)), conservative)
            else (conservative, conservative)))"

text \<open>\<open>free\<close> and \<open>file_size\<close>: \<open>_free_space()\<close> and \<open>_file_size()\<close> at the call.\<close>

definition require_free_space :: "int option \<Rightarrow> int \<Rightarrow> exc + unit" where
  "require_free_space free needed = (case free of
     None \<Rightarrow> Inr ()
   | Some n \<Rightarrow> if n < needed then Inl (raise_exc (InsufficientDiskSpaceError needed n)) else Inr ())"

definition migrate_timestamps_to_utc ::
  "bool \<Rightarrow> int option \<Rightarrow> int \<Rightarrow> zone \<Rightarrow> utc_file \<Rightarrow> (exc + int) \<times> utc_file" where
  "migrate_timestamps_to_utc read_only free file_size z f = wrapped
     (if read_only then (Inl (raise_exc KnxTelegramStoreException), f)
      else if utc_flag f then (Inr 0, f)
      else (case require_free_space free file_size of
              Inl e \<Rightarrow> (Inl e, f)
            | Inr _ \<Rightarrow>
               (let (telegram_scope, last_ga_scope) = legacy_row_scopes z f in
                case bind_res (convert_table_to_utc z telegram_scope (u_telegrams f)) (\<lambda>(n, tg).
                     bind_res (convert_table_to_utc z last_ga_scope (u_last_ga f)) (\<lambda>(_, lga).
                       Inr (n, tg, lga))) of
                  Inl e \<Rightarrow> (Inl e, f)
                | Inr (n, tg, lga) \<Rightarrow>
                    (Inr n, f\<lparr>u_telegrams := tg, u_last_ga := lga, utc_flag := True,
                       utc_source_zone := Some z\<rparr>))))"

section \<open>The bisection finds the transition\<close>

text \<open>
  A change of offset inside \<open>(lo, hi]\<close>: at a whole second \<open>t\<close>, with the old offset before it and
  another one from it on.
\<close>

definition changes_at :: "zone \<Rightarrow> int \<Rightarrow> int \<Rightarrow> int \<Rightarrow> bool" where
  "changes_at z lo hi t \<longleftrightarrow> lo < t \<and> t \<le> hi \<and> t mod second = 0 \<and>
     (\<forall>w. lo \<le> w \<and> w < t \<longrightarrow> offset_at z w = offset_at z lo) \<and>
     (\<forall>w. t \<le> w \<and> w \<le> hi \<longrightarrow> offset_at z w = offset_at z hi) \<and> offset_at z hi \<noteq> offset_at z lo"

lemma transition_loop_ok:
  assumes "before < t" and "t \<le> after"
    and "\<forall>w. before \<le> w \<and> w < t \<longrightarrow> offset_at z w = off"
    and "\<forall>w. t \<le> w \<and> w \<le> after \<longrightarrow> offset_at z w \<noteq> off"
  shows "t \<le> transition_loop z off before after \<and> transition_loop z off before after < t + second"
  using assms
proof (induction z off before after rule: transition_loop.induct)
  case (1 z off before after)
  show ?case
  proof (cases "after - before > second")
    case False
    with 1(3,4) show ?thesis by (subst (1 2) transition_loop.simps) auto
  next
    case True
    let ?m = "before + half (after - before)"
    have m: "before < ?m" "?m < after" using half_bounds [of "after - before"] True by (simp_all add: second_def)
    show ?thesis
    proof (cases "offset_at z ?m = off")
      case same: True
      then have "?m < t" using 1(6) [rule_format, of ?m] m by force
      with 1(1) [OF True refl same] 1(4-6) m same True show ?thesis
        by (subst (1 2) transition_loop.simps) (simp add: Let_def)
    next
      case differs: False
      then have "t \<le> ?m" using 1(5) [rule_format, of ?m] m by force
      with 1(2) [OF True refl differs] 1(3,5,6) m differs True show ?thesis
        by (subst (1 2) transition_loop.simps) (simp add: Let_def)
    qed
  qed
qed

lemma whole_second_eq:
  assumes "t mod second = 0" and "t \<le> r" and "r < t + second"
  shows "whole_second r = t"
proof -
  have "r mod second = (t mod second + (r - t) mod second) mod second"
    by (simp add: mod_add_eq)
  also have "\<dots> = r - t" using assms by (simp add: second_def)
  finally show ?thesis by (simp add: whole_second_def)
qed

lemma transition_between_ok:
  assumes "changes_at z lo hi t"
  shows "transition_between lo hi z (offset_at z lo) = t"
proof -
  have t: "lo < t" "t \<le> hi" "t mod second = 0"
    and lo: "\<forall>w. lo \<le> w \<and> w < t \<longrightarrow> offset_at z w = offset_at z lo"
    and hi: "\<forall>w. t \<le> w \<and> w \<le> hi \<longrightarrow> offset_at z w \<noteq> offset_at z lo"
    using assms unfolding changes_at_def by metis+
  from transition_loop_ok [OF t(1,2) lo hi] whole_second_eq [OF t(3)]
  show ?thesis by (simp add: transition_between_def)
qed

section \<open>The walk finds every stretch\<close>

text \<open>
  A zone is regular from \<open>c0\<close> to \<open>hi\<close> when each of the hourly cells of the walk has at most one
  change of offset, at a whole second. The time zone database has no zone that changes twice
  within an hour.
\<close>

definition steady :: "zone \<Rightarrow> int \<Rightarrow> int \<Rightarrow> bool" where
  "steady z lo hi \<longleftrightarrow> (\<forall>w. lo \<le> w \<and> w \<le> hi \<longrightarrow> offset_at z w = offset_at z lo)"

definition regular :: "zone \<Rightarrow> int \<Rightarrow> int \<Rightarrow> bool" where
  "regular z c0 hi \<longleftrightarrow> (\<forall>c. c0 \<le> c \<and> c \<le> hi \<and> c mod hour = 0 \<longrightarrow>
     steady z c (c + hour) \<or> (\<exists>t. changes_at z c (c + hour) t))"

definition lookup :: "interval list \<Rightarrow> int \<Rightarrow> int \<Rightarrow> int" where
  "lookup ivs off w = (case find (\<lambda>(_, e, _). w < e) ivs of None \<Rightarrow> off | Some (_, _, u) \<Rightarrow> u)"

lemma lookup_snoc:
  "lookup (ivs @ [(s, e, u)]) off w = (if w < e then lookup ivs u w else lookup ivs off w)"
  by (induction ivs) (auto simp: lookup_def)

lemma lookup_past: "\<forall>(_, e, _) \<in> set ivs. e \<le> p \<Longrightarrow> p \<le> w \<Longrightarrow> lookup ivs off w = off"
  by (induction ivs) (auto simp: lookup_def)

lemma shift_case_lookup: "shift_case (ivs @ [(s, e, off)]) w = w - lookup ivs off w * second"
proof (induction ivs)
  case Nil
  then show ?case by (simp add: lookup_def)
next
  case (Cons iv ivs)
  obtain st en u where iv: "iv = (st, en, u)" by (cases iv)
  obtain iv' ivs' where "ivs @ [(s, e, off)] = iv' # ivs'" by (cases ivs) auto
  with Cons iv show ?case by (simp add: lookup_def)
qed

definition walked :: "zone \<Rightarrow> int \<Rightarrow> interval list \<Rightarrow> int \<Rightarrow> int \<Rightarrow> bool" where
  "walked z c0 ivs off p \<longleftrightarrow> offset_at z p = off \<and> (\<forall>(_, e, _) \<in> set ivs. e \<le> p) \<and>
     (\<forall>w. c0 \<le> w \<and> w \<le> p \<longrightarrow> lookup ivs off w = offset_at z w)"

lemma walked_same:
  assumes w: "walked z c0 ivs off p" and st: "steady z p (p + hour)"
  shows "walked z c0 ivs off (p + hour)"
proof -
  have ends: "\<forall>(_, e, _) \<in> set ivs. e \<le> p" and off: "offset_at z p = off" using w by (simp_all add: walked_def)
  have st': "offset_at z v = offset_at z p" if "p \<le> v" "v \<le> p + hour" for v
    using st that unfolding steady_def by blast
  have "lookup ivs off v = offset_at z v" if v: "c0 \<le> v" "v \<le> p + hour" for v
  proof (cases "v \<le> p")
    case True
    with w v show ?thesis unfolding walked_def by blast
  next
    case False
    then have "offset_at z v = off" using st' [of v] v off by linarith
    moreover have "lookup ivs off v = off" using lookup_past [OF ends] False by simp
    ultimately show ?thesis by simp
  qed
  moreover have "\<forall>(_, e, _) \<in> set ivs. e \<le> p + hour" using ends by (fastforce simp: hour_def)
  moreover have "offset_at z (p + hour) = off" using st' [of "p + hour"] off by (simp add: hour_def)
  ultimately show ?thesis unfolding walked_def by blast
qed

lemma walked_change:
  assumes w: "walked z c0 ivs off p" and t: "changes_at z p (p + hour) t"
  shows "walked z c0 (ivs @ [(s, t, off)]) (offset_at z (p + hour)) (p + hour)"
proof -
  have ends: "\<forall>(_, e, _) \<in> set ivs. e \<le> p" and off: "offset_at z p = off" using w by (simp_all add: walked_def)
  have tp: "p < t" "t \<le> p + hour" using t by (simp_all add: changes_at_def)
  have "lookup (ivs @ [(s, t, off)]) (offset_at z (p + hour)) v = offset_at z v" if v: "c0 \<le> v" "v \<le> p + hour" for v
  proof (cases "v < t")
    case before: True
    then have "lookup (ivs @ [(s, t, off)]) (offset_at z (p + hour)) v = lookup ivs off v"
      by (simp add: lookup_snoc)
    also have "\<dots> = offset_at z v"
    proof (cases "v \<le> p")
      case True
      with w v show ?thesis unfolding walked_def by blast
    next
      case False
      then have "lookup ivs off v = off" using lookup_past [OF ends] by simp
      moreover have "p \<le> v" using False by simp
      then have "offset_at z v = offset_at z p" using t before unfolding changes_at_def by blast
      ultimately show ?thesis using off by simp
    qed
    finally show ?thesis .
  next
    case False
    then have "lookup ivs (offset_at z (p + hour)) v = offset_at z (p + hour)"
      using lookup_past [OF ends] tp by simp
    moreover have "t \<le> v" using False by simp
    then have "offset_at z v = offset_at z (p + hour)" using t v(2) unfolding changes_at_def by blast
    ultimately show ?thesis using False by (simp add: lookup_snoc)
  qed
  moreover have "\<forall>(_, e, _) \<in> set (ivs @ [(s, t, off)]). e \<le> p + hour"
    using ends tp by (auto simp: hour_def)
  ultimately show ?thesis unfolding walked_def by blast
qed

lemma walk_ok:
  assumes "regular z c0 (last_cursor - hour)" and "c0 \<le> p" and "p mod hour = 0"
    and "walked z c0 ivs off p" and "in_range c0" and "in_range (last_cursor + hour)" and "cursor = p + hour"
    and "p \<le> last_cursor"
  shows "\<exists>ivs' start' off' p'. walk z last_cursor cursor p start off ivs = Inr (ivs', start', off') \<and>
    walked z c0 ivs' off' p' \<and> last_cursor < p' + hour"
  using assms
proof (induction "nat (last_cursor + 1 - cursor)" arbitrary: cursor p start off ivs rule: less_induct)
  case less
  note prems = less.prems
  show ?case
  proof (cases "cursor \<le> last_cursor")
    case False
    then have "walk z last_cursor cursor p start off ivs = Inr (ivs, start, off)"
      by (subst walk.simps) simp
    moreover have "last_cursor < p + hour" using False prems(7) by simp
    ultimately show ?thesis using prems(4) by blast
  next
    case True
    have cell: "steady z p cursor \<or> (\<exists>t. changes_at z p cursor t)"
      using prems(1-3,7) True unfolding regular_def by simp
    have next_cursor: "naive_plus cursor hour = Inr (cursor + hour)"
      using prems(2,5-7) True by (auto simp: naive_plus_def in_range_def hour_def)
    have grid: "cursor mod hour = 0" using prems(3,7) by simp
    have c0: "c0 \<le> cursor" using prems(2,7) by (simp add: hour_def)
    have smaller: "nat (last_cursor + 1 - (cursor + hour)) < nat (last_cursor + 1 - cursor)"
      using True by (simp add: hour_def)
    note IH = less.hyps [OF smaller prems(1) c0 grid _ prems(5,6) refl True]
    show ?thesis
    proof (cases "offset_at z cursor = off")
      case same: True
      have "\<not> changes_at z p cursor t" for t using same prems(4) by (auto simp: changes_at_def walked_def)
      then have w: "walked z c0 ivs off cursor" using cell walked_same [OF prems(4)] prems(7) by simp
      have "walk z last_cursor cursor p start off ivs = walk z last_cursor (cursor + hour) cursor start off ivs"
        using True same by (subst walk.simps) (simp add: next_cursor)
      with IH [OF w] show ?thesis by simp
    next
      case differs: False
      have off: "offset_at z p = off" using prems(4) by (simp add: walked_def)
      have "p \<le> cursor" using prems(7) by (simp add: hour_def)
      then have "\<not> steady z p cursor" using differs off unfolding steady_def by blast
      then obtain t where t: "changes_at z p cursor t" using cell by blast
      have tb: "transition_between p cursor z off = t" using transition_between_ok [OF t] off by simp
      have w: "walked z c0 (ivs @ [(start, t, off)]) (offset_at z cursor) cursor"
        using walked_change [OF prems(4), of t start] t prems(7) by simp
      have "walk z last_cursor cursor p start off ivs =
        walk z last_cursor (cursor + hour) cursor t (offset_at z cursor) (ivs @ [(start, t, off)])"
        using True differs by (subst walk.simps) (simp add: next_cursor Let_def tb)
      with IH [OF w] show ?thesis by simp
    qed
  qed
qed

text \<open>Every timestamp of the range is shifted by the zone's own offset at it.\<close>

lemma offset_intervals_ok:
  assumes "oldest \<le> newest" and "regular z (oldest - oldest mod hour) newest"
    and "in_range (oldest - oldest mod hour)" and "in_range (newest + 2 * hour)"
  shows "\<exists>ivs s e off. offset_intervals oldest newest z = Inr (ivs @ [(s, e, off)]) \<and>
    (\<forall>w. oldest \<le> w \<and> w \<le> newest \<longrightarrow> lookup ivs off w = offset_at z w)"
proof -
  let ?c = "oldest - oldest mod hour" and ?last = "newest + hour"
  have c: "?c \<le> oldest" "oldest < ?c + hour" by (simp_all add: hour_def pos_mod_bound)
  have grid: "?c mod hour = 0" by (simp add: mod_diff_right_eq)
  have ranges: "naive_plus newest hour = Inr ?last" "naive_plus ?last hour = Inr (newest + 2 * hour)"
    "naive_plus ?c hour = Inr (?c + hour)"
    using assms c by (auto simp: naive_plus_def in_range_def hour_def)
  have start: "walked z ?c [] (offset_at z ?c) ?c" by (auto simp: walked_def lookup_def dest: order.antisym)
  have "?c \<le> ?last" using c assms(1) by (simp add: hour_def)
  obtain ivs s off p where walk: "walk z ?last (?c + hour) ?c ?c (offset_at z ?c) [] = Inr (ivs, s, off)"
    "walked z ?c ivs off p" "?last < p + hour"
    using walk_ok [of z ?c ?last ?c "[]" "offset_at z ?c" "?c + hour" ?c] assms(2-4) grid start \<open>?c \<le> ?last\<close>
    by (auto simp: add.assoc)
  have "offset_intervals oldest newest z = Inr (ivs @ [(s, newest + 2 * hour, off)])"
    using ranges walk(1) \<open>?c \<le> ?last\<close> by (simp add: offset_intervals_def Let_def)
  moreover have "lookup ivs off w = offset_at z w" if "oldest \<le> w" "w \<le> newest" for w
    using walk(2,3) that c by (simp add: walked_def)
  ultimately show ?thesis by blast
qed

section \<open>Tables\<close>

text \<open>What the conversion of a row should be.\<close>

definition to_utc_row :: "zone \<Rightarrow> utc_row \<Rightarrow> utc_row" where
  "to_utc_row z r = r\<lparr>u_timestamp := u_timestamp r - offset_at z (u_timestamp r) * second\<rparr>"

definition convertible :: "zone \<Rightarrow> int list \<Rightarrow> bool" where
  "convertible z walls \<longleftrightarrow> walls = [] \<or>
     (let oldest = Min (set walls); newest = Max (set walls); c0 = oldest - oldest mod hour in
      in_range c0 \<and> in_range (newest + 2 * hour) \<and> regular z c0 newest)"

lemma lookup_in: "lookup ivs off w \<in> insert off ((\<lambda>(_, _, u). u) ` set ivs)"
  by (auto simp: lookup_def find_Some_iff split: option.splits) (metis (mono_tags, lifting) case_prod_conv imageI nth_mem)

text \<open>The intervals for the selected rows: each has the offset of its own wall clock.\<close>

lemma selected_intervals:
  assumes conv: "convertible z (map u_timestamp (filter scope rows))" and some: "filter scope rows \<noteq> []"
  defines "lo \<equiv> Min (u_timestamp ` set (filter scope rows))" and "hi \<equiv> Max (u_timestamp ` set (filter scope rows))"
  shows "as_naive lo = Inr lo" and "as_naive hi = Inr hi"
    and "\<exists>ivs s e off. offset_intervals lo hi z = Inr (ivs @ [(s, e, off)]) \<and>
      (\<forall>r \<in> set rows. scope r \<longrightarrow> lookup ivs off (u_timestamp r) = offset_at z (u_timestamp r))"
proof -
  let ?walls = "u_timestamp ` set (filter scope rows)"
  have fin: "finite ?walls" "?walls \<noteq> {}" using some by (simp_all del: set_filter)
  have bounds: "lo \<le> u_timestamp r" "u_timestamp r \<le> hi" if "r \<in> set rows" "scope r" for r
    using that fin by (auto simp: lo_def hi_def intro: Min_le Max_ge)
  have lohi: "lo \<le> hi" using Min_in [OF fin] Max_ge [OF fin(1)] unfolding lo_def hi_def by blast
  have c: "in_range (lo - lo mod hour)" "in_range (hi + 2 * hour)" "regular z (lo - lo mod hour) hi"
    using conv some unfolding convertible_def Let_def lo_def hi_def by simp_all
  have "lo - lo mod hour \<le> lo" by (simp add: hour_def)
  then have "in_range lo" "in_range hi" using c(1,2) lohi by (auto simp: in_range_def hour_def)
  then show "as_naive lo = Inr lo" "as_naive hi = Inr hi"
    by (simp_all add: as_naive_def micros_to_datetime_Inr)
  from offset_intervals_ok [OF lohi c(3,1,2)] bounds
  show "\<exists>ivs s e off. offset_intervals lo hi z = Inr (ivs @ [(s, e, off)]) \<and>
      (\<forall>r \<in> set rows. scope r \<longrightarrow> lookup ivs off (u_timestamp r) = offset_at z (u_timestamp r))"
    by blast
qed

lemma convert_table_ok:
  assumes "convertible z (map u_timestamp (filter scope rows))"
  shows "\<exists>n. convert_table_to_utc z scope rows =
      Inr (n, map (\<lambda>r. if scope r then to_utc_row z r else r) rows) \<and>
    (n = int (length (filter scope rows)) \<or> n = 0 \<and> (\<forall>r \<in> set rows. scope r \<longrightarrow> to_utc_row z r = r))"
proof (cases "filter scope rows = []")
  case True
  then have "map (\<lambda>r. if scope r then to_utc_row z r else r) rows = rows"
    by (intro map_idI) (auto simp: filter_empty_conv)
  then show ?thesis using True by (simp add: convert_table_to_utc_def)
next
  case False
  note sel = selected_intervals [OF assms False]
  from sel(3) obtain ivs s e off where
    ivs: "offset_intervals (Min (u_timestamp ` set (filter scope rows))) (Max (u_timestamp ` set (filter scope rows))) z =
        Inr (ivs @ [(s, e, off)])"
      "\<forall>r \<in> set rows. scope r \<longrightarrow> lookup ivs off (u_timestamp r) = offset_at z (u_timestamp r)" by blast
  show ?thesis
  proof (cases "list_all (\<lambda>(_, _, off). off = 0) (ivs @ [(s, e, off)])")
    case True
    have same: "\<forall>r \<in> set rows. scope r \<longrightarrow> to_utc_row z r = r"
    proof (intro ballI impI)
      fix r
      assume r: "r \<in> set rows" "scope r"
      have "lookup ivs off (u_timestamp r) = 0"
        using lookup_in [of ivs off "u_timestamp r"] True by (auto simp: list_all_iff)
      then show "to_utc_row z r = r" using ivs(2) r by (simp add: to_utc_row_def)
    qed
    then have "map (\<lambda>r. if scope r then to_utc_row z r else r) rows = rows" by (auto intro: map_idI)
    moreover have "convert_table_to_utc z scope rows = Inr (0, rows)"
      using False sel(1,2) ivs(1) True by (simp add: convert_table_to_utc_def Let_def)
    ultimately show ?thesis using same by simp
  next
    case nz: False
    have "convert_table_to_utc z scope rows = Inr (int (length (filter scope rows)),
      map (\<lambda>r. if scope r then r\<lparr>u_timestamp := shift_case (ivs @ [(s, e, off)]) (u_timestamp r)\<rparr> else r) rows)"
      using False sel(1,2) ivs(1) nz by (auto simp: convert_table_to_utc_def Let_def)
    also have "map (\<lambda>r. if scope r then r\<lparr>u_timestamp := shift_case (ivs @ [(s, e, off)]) (u_timestamp r)\<rparr> else r) rows =
      map (\<lambda>r. if scope r then to_utc_row z r else r) rows"
      using ivs(2) by (intro map_cong) (auto simp: shift_case_lookup to_utc_row_def)
    finally show ?thesis by blast
  qed
qed

section \<open>The migration\<close>

lemma migrate_ok:
  assumes "\<not> read_only" and "\<not> utc_flag f" and "require_free_space free file_size = Inr ()"
    and scopes: "legacy_row_scopes z f = (tscope, lscope)"
    and "convertible z (map u_timestamp (filter tscope (u_telegrams f)))"
    and "convertible z (map u_timestamp (filter lscope (u_last_ga f)))"
  shows "\<exists>n f'. migrate_timestamps_to_utc read_only free file_size z f = (Inr n, f') \<and> utc_flag f' \<and>
    u_telegrams f' = map (\<lambda>r. if tscope r then to_utc_row z r else r) (u_telegrams f) \<and>
    u_last_ga f' = map (\<lambda>r. if lscope r then to_utc_row z r else r) (u_last_ga f)"
proof -
  obtain n where n: "convert_table_to_utc z tscope (u_telegrams f) =
    Inr (n, map (\<lambda>r. if tscope r then to_utc_row z r else r) (u_telegrams f))"
    using convert_table_ok [OF assms(5)] by blast
  obtain m where m: "convert_table_to_utc z lscope (u_last_ga f) =
    Inr (m, map (\<lambda>r. if lscope r then to_utc_row z r else r) (u_last_ga f))"
    using convert_table_ok [OF assms(6)] by blast
  show ?thesis
    using assms(1-4) n m by (simp add: migrate_timestamps_to_utc_def wrapped_def)
qed

lemma migrate_done: "\<not> read_only \<Longrightarrow> utc_flag f \<Longrightarrow>
  migrate_timestamps_to_utc read_only free file_size z f = (Inr 0, f)"
  by (simp add: migrate_timestamps_to_utc_def wrapped_def)

lemma migrate_failed_unchanged:
  "fst (migrate_timestamps_to_utc read_only free file_size z f) = Inl e \<Longrightarrow>
   snd (migrate_timestamps_to_utc read_only free file_size z f) = f"
  by (auto simp: migrate_timestamps_to_utc_def wrapped_def split: if_splits sum.splits prod.splits)

end
