(* ===== verification/SqliteFile.thy ===== *)
theory SqliteFile
  imports PyStrings SqliteUtc SqlStore
begin

text \<open>
  The passes over a SQLite file in src/knx_telegram_store/backends/sqlite.py other than the
  conversion to UTC: text timestamps to integers in resumable batches, the compaction that waits
  for room, planner statistics, the eviction that refreshes them, and the backup lock.
\<close>

section \<open>Integer timestamps\<close>

text \<open>
  A cell of the column \<open>timestamp\<close>: an integer, or a text in SQLAlchemy's format, as the seconds
  since the epoch its first 19 characters denote and the characters after the dot, if there is one.
\<close>

datatype cell = IntCell int | TextCell int "string option"

record cell_row =
  c_rowid :: int
  c_timestamp :: cell

definition is_text :: "cell_row \<Rightarrow> bool" where
  "is_text r = (case c_timestamp r of TextCell _ _ \<Rightarrow> True | IntCell _ \<Rightarrow> False)"

text \<open>
  The expression \<open>_TEXT_TO_MICROS\<close>: \<open>substr(timestamp || '000000', 21, 6)\<close> cast to an integer,
  which reads the leading digits.
\<close>

definition fraction_text :: "string option \<Rightarrow> string" where
  "fraction_text frac = take 6 (case frac of None \<Rightarrow> ''00000'' | Some f \<Rightarrow> f @ ''000000'')"

definition text_to_micros :: "int \<Rightarrow> string option \<Rightarrow> int" where
  "text_to_micros seconds frac =
     seconds * 1000000 + decimal_value (takeWhile is_decimal (fraction_text frac))"

definition convert_cell :: "cell_row \<Rightarrow> cell_row" where
  "convert_cell r = (case c_timestamp r of
     TextCell s frac \<Rightarrow> r\<lparr>c_timestamp := IntCell (text_to_micros s frac)\<rparr> | IntCell _ \<Rightarrow> r)"

definition convert_rows_to_integers :: "int \<Rightarrow> int \<Rightarrow> cell_row list \<Rightarrow> cell_row list" where
  "convert_rows_to_integers low high rows =
     map (\<lambda>r. if is_text r \<and> low < c_rowid r \<and> c_rowid r \<le> high then convert_cell r else r) rows"

definition CONVERSION_BATCH_ROWS :: int where "CONVERSION_BATCH_ROWS = 50000"

text \<open>\<open>range(0, n, step)\<close>\<close>

definition py_range_from_0 :: "int \<Rightarrow> int \<Rightarrow> int list" where
  "py_range_from_0 n step = map (\<lambda>k. int k * step) [0..<nat ((n + step - 1) div step)]"

text \<open>Each batch is a transaction; \<open>fails low\<close> is the exception that stops the one at \<open>low\<close>.\<close>

fun convert_batches :: "(int \<Rightarrow> exc option) \<Rightarrow> int list \<Rightarrow> cell_row list \<Rightarrow> (exc + unit) \<times> cell_row list" where
  "convert_batches fails [] rows = (Inr (), rows)"
| "convert_batches fails (low # lows) rows = (case fails low of
     Some e \<Rightarrow> (Inl e, rows)
   | None \<Rightarrow> convert_batches fails lows (convert_rows_to_integers low (low + CONVERSION_BATCH_ROWS) rows))"

definition convert_table_to_integers ::
  "(int \<Rightarrow> exc option) \<Rightarrow> cell_row list \<Rightarrow> (exc + unit) \<times> cell_row list" where
  "convert_table_to_integers fails rows =
     (let max_rowid = (if rows = [] then 0 else Max (c_rowid ` set rows)) in
      convert_batches fails (py_range_from_0 max_rowid CONVERSION_BATCH_ROWS) rows)"

record int_file =
  i_telegrams :: "cell_row list"
  i_last_ga :: "cell_row list"
  integer_flag :: bool
  vacuum_pending :: bool
  timestamp_index :: bool

text \<open>Returns whether rows were rewritten.\<close>

definition convert_timestamps_to_integers ::
  "(int \<Rightarrow> exc option) \<Rightarrow> int option \<Rightarrow> int \<Rightarrow> int_file \<Rightarrow> (exc + bool) \<times> int_file" where
  "convert_timestamps_to_integers fails free file_size f =
     (if integer_flag f then (Inr False, f)
      else if list_ex is_text (i_telegrams f) \<or> list_ex is_text (i_last_ga f) then
        (case require_free_space free (file_size div 2) of
           Inl e \<Rightarrow> (Inl e, f)
         | Inr _ \<Rightarrow>
            (let f = f\<lparr>timestamp_index := False\<rparr> in
             (case convert_table_to_integers fails (i_telegrams f) of
                (Inl e, rows) \<Rightarrow> (Inl e, f\<lparr>i_telegrams := rows\<rparr>)
              | (Inr _, rows) \<Rightarrow>
                 (let f = f\<lparr>i_telegrams := rows\<rparr> in
                  (case convert_table_to_integers fails (i_last_ga f) of
                     (Inl e, rows) \<Rightarrow> (Inl e, f\<lparr>i_last_ga := rows\<rparr>)
                   | (Inr _, rows) \<Rightarrow>
                       (Inr True, f\<lparr>i_last_ga := rows, integer_flag := True\<rparr>))))))
      else (Inr False, f\<lparr>integer_flag := True\<rparr>))"

text \<open>
  The path is None for a database in memory; \<open>disk_usage\<close> gives the free bytes of the volume a path is
  on, \<open>stat\<close> the size of a file, None when it cannot be read.

  \<open>_vacuum_when_room\<close>: without room the pass is flagged for a later start. \<open>vacuum\<close> is the
  exception with which VACUUM fails, if it does; the flag stays as it is then.
\<close>

definition db_free_space :: "string option \<Rightarrow> (string \<Rightarrow> int) \<Rightarrow> int option" where
  "db_free_space db_path disk_usage = map_option disk_usage db_path"

definition db_file_size :: "string option \<Rightarrow> (string \<Rightarrow> int option) \<Rightarrow> int" where
  "db_file_size db_path stat = (case db_path of
     None \<Rightarrow> 0
   | Some p \<Rightarrow> sum_list (map (\<lambda>suffix. case stat (p @ suffix) of None \<Rightarrow> 0 | Some n \<Rightarrow> n) [[], ''-wal'']))"

text \<open>\<open>_size_bytes\<close>: the pages of the file, unless a PRAGMA returns nothing.\<close>

definition sqlite_size_bytes :: "int option \<Rightarrow> int option \<Rightarrow> int option" where
  "sqlite_size_bytes page_count page_size = (case (page_count, page_size) of
     (Some n, Some m) \<Rightarrow> Some (n * m) | _ \<Rightarrow> None)"

definition vacuum_fits :: "int option \<Rightarrow> int \<Rightarrow> bool" where
  "vacuum_fits free file_size = (case free of None \<Rightarrow> True | Some n \<Rightarrow> file_size \<le> n)"

definition vacuum_when_room ::
  "exc option \<Rightarrow> int option \<Rightarrow> int \<Rightarrow> int_file \<Rightarrow> (exc + unit) \<times> int_file" where
  "vacuum_when_room vacuum free file_size f =
     (if \<not> vacuum_fits free file_size then (Inr (), f\<lparr>vacuum_pending := True\<rparr>)
      else (case vacuum of
              Some e \<Rightarrow> (wrap_store_errors (Inl e), f)
            | None \<Rightarrow> (Inr (), f\<lparr>vacuum_pending := False\<rparr>)))"

section \<open>Every text becomes its microseconds, and an interrupted pass resumes\<close>

lemma convert_cell_idem [simp]: "\<not> is_text r \<Longrightarrow> convert_cell r = r"
  by (auto simp: is_text_def convert_cell_def split: cell.splits)

lemma convert_cell_int [simp]: "\<not> is_text (convert_cell r)" "c_rowid (convert_cell r) = c_rowid r"
  by (auto simp: is_text_def convert_cell_def split: cell.split)

lemma no_text_converted: "\<not> list_ex is_text rows \<Longrightarrow> map convert_cell rows = rows"
  by (simp add: list_ex_iff map_idI)

lemma convert_rows_eq:
  "convert_rows_to_integers low high rows =
     map (\<lambda>r. if low < c_rowid r \<and> c_rowid r \<le> high then convert_cell r else r) rows"
  by (auto simp: convert_rows_to_integers_def)

text \<open>A pass, complete or stopped, has converted some rows and left the others alone.\<close>

definition partly_converted :: "cell_row list \<Rightarrow> cell_row list \<Rightarrow> bool" where
  "partly_converted rows rows' \<longleftrightarrow> map convert_cell rows' = map convert_cell rows"

lemma convert_cell_twice [simp]: "convert_cell (convert_cell r) = convert_cell r"
  by simp

lemma convert_batches_partly: "partly_converted rows (snd (convert_batches fails lows rows))"
proof (induction lows arbitrary: rows)
  case Nil
  then show ?case by (simp add: partly_converted_def)
next
  case (Cons low lows)
  have "map convert_cell (convert_rows_to_integers low high rows) = map convert_cell rows" for high
    by (simp add: convert_rows_eq)
  with Cons show ?case by (auto simp: partly_converted_def split: option.split)
qed

lemma convert_batches_all:
  assumes "\<forall>low \<in> set lows. fails low = None"
  shows "convert_batches fails lows rows = (Inr (), map (\<lambda>r.
    if \<exists>low \<in> set lows. low < c_rowid r \<and> c_rowid r \<le> low + CONVERSION_BATCH_ROWS
    then convert_cell r else r) rows)"
  using assms
proof (induction lows arbitrary: rows)
  case Nil
  then show ?case by simp
next
  case (Cons low lows)
  let ?in = "\<lambda>low r. low < c_rowid r \<and> c_rowid r \<le> low + CONVERSION_BATCH_ROWS"
  let ?first = "\<lambda>r. if ?in low r then convert_cell r else r"
  have row: "(if \<exists>l \<in> set lows. ?in l (?first r) then convert_cell (?first r) else ?first r) =
      (if \<exists>l \<in> set (low # lows). ?in l r then convert_cell r else r)" for r
    by (cases "?in low r"; cases "\<exists>l \<in> set lows. ?in l r") auto
  have "convert_batches fails (low # lows) rows = convert_batches fails lows (map ?first rows)"
    using Cons.prems by (simp add: convert_rows_eq)
  also have "\<dots> = (Inr (), map (\<lambda>r. if \<exists>l \<in> set lows. ?in l r then convert_cell r else r) (map ?first rows))"
    using Cons.prems by (intro Cons.IH) simp
  also have "map (\<lambda>r. if \<exists>l \<in> set lows. ?in l r then convert_cell r else r) (map ?first rows) =
      map (\<lambda>r. if \<exists>l \<in> set (low # lows). ?in l r then convert_cell r else r) rows"
    unfolding map_map comp_def by (rule map_cong [OF refl row])
  finally show ?case .
qed

text \<open>The batches cover every rowid from 1 to the greatest.\<close>

lemma batches_cover:
  assumes "0 < i" and "i \<le> n"
  shows "\<exists>low \<in> set (py_range_from_0 n CONVERSION_BATCH_ROWS). low < i \<and> i \<le> low + CONVERSION_BATCH_ROWS"
proof -
  let ?k = "(i - 1) div 50000"
  have k: "0 \<le> ?k" "?k < (n + 50000 - 1) div 50000" using assms by (simp_all add: pos_imp_zdiv_nonneg_iff)
  have "?k * 50000 < i" "i \<le> ?k * 50000 + 50000" by linarith+
  moreover have "?k * 50000 \<in> set (py_range_from_0 n 50000)"
    using k by (auto simp: py_range_from_0_def intro!: image_eqI [of _ _ "nat ?k"])
  ultimately show ?thesis by (auto simp: CONVERSION_BATCH_ROWS_def)
qed

lemma convert_table_complete:
  assumes "\<forall>r \<in> set rows. 0 < c_rowid r" and "\<forall>low. fails low = None"
  shows "convert_table_to_integers fails rows = (Inr (), map convert_cell rows)"
proof (cases "rows = []")
  case True
  then show ?thesis by (simp add: convert_table_to_integers_def py_range_from_0_def CONVERSION_BATCH_ROWS_def)
next
  case False
  let ?m = "Max (c_rowid ` set rows)"
  have "c_rowid r \<le> ?m" if "r \<in> set rows" for r using that by (intro Max_ge) auto
  then have "map (\<lambda>r. if \<exists>low \<in> set (py_range_from_0 ?m CONVERSION_BATCH_ROWS).
      low < c_rowid r \<and> c_rowid r \<le> low + CONVERSION_BATCH_ROWS then convert_cell r else r) rows =
    map convert_cell rows"
    using assms(1) batches_cover by (intro map_cong) auto
  then show ?thesis
    using False assms(2) convert_batches_all [of "py_range_from_0 ?m CONVERSION_BATCH_ROWS" fails rows]
    by (simp add: convert_table_to_integers_def)
qed

lemma partly_converted_resume:
  assumes "partly_converted rows rows'" and "\<forall>r \<in> set rows. 0 < c_rowid r" and "\<forall>low. fails low = None"
  shows "convert_table_to_integers fails rows' = convert_table_to_integers fails rows"
proof -
  have "map c_rowid rows' = map c_rowid rows"
    using arg_cong [OF assms(1) [unfolded partly_converted_def], of "map c_rowid"] by (simp add: comp_def)
  then have "\<forall>r \<in> set rows'. 0 < c_rowid r" using assms(2) by (metis imageE imageI list.set_map)
  with assms show ?thesis by (simp add: convert_table_complete partly_converted_def)
qed

section \<open>Planner statistics\<close>

text \<open>The row count recorded in \<open>sqlite_stat1\<close>, None without statistics for the canary index.\<close>

definition statistics_stale :: "int option \<Rightarrow> int \<Rightarrow> bool" where
  "statistics_stale recorded rows = (case recorded of
     None \<Rightarrow> True
   | Some n \<Rightarrow> let n = (if n = 0 then 1 else n) in 10 * max (min rows n) 1 \<le> max rows n)"

text \<open>ANALYZE records the row count, unless the table is empty.\<close>

definition refresh_stale_statistics :: "int \<Rightarrow> int option \<Rightarrow> int option" where
  "refresh_stale_statistics rows recorded =
     (if statistics_stale recorded rows \<and> rows \<noteq> 0 then Some rows else recorded)"

definition collect_missing_statistics :: "int \<Rightarrow> int option \<Rightarrow> int option" where
  "collect_missing_statistics rows recorded =
     (if recorded \<noteq> None then recorded else if rows = 0 then recorded else Some rows)"

text \<open>
  \<open>SqliteStore.evict_older_than\<close>: \<open>refresh\<close> and \<open>checkpoint\<close> are the exceptions the statements
  after the deletion end in, if they do.
\<close>

definition sqlite_evict_older_than ::
  "sql_engine \<Rightarrow> exc option \<Rightarrow> exc option \<Rightarrow> bool \<Rightarrow> sql_store \<Rightarrow> datetime \<Rightarrow> bool \<Rightarrow>
   (exc + int) \<times> sql_store"
where
  "sqlite_evict_older_than eng refresh checkpoint is_memory s cutoff dry_run = wrapped
     (case sql_evict_older_than eng s cutoff dry_run of
        (Inl e, s) \<Rightarrow> (Inl e, s)
      | (Inr deleted, s) \<Rightarrow>
          (case (if dry_run then None else refresh) of
             Some e \<Rightarrow> (Inl e, s)
           | None \<Rightarrow>
              (case (if deleted \<noteq> 0 \<and> \<not> dry_run \<and> \<not> is_memory then checkpoint else None) of
                 Some e \<Rightarrow> (Inl e, s)
               | None \<Rightarrow> (Inr deleted, s))))"

section \<open>The backup lock\<close>

record backup_state =
  bk_read_only :: bool
  bk_is_memory :: bool
  backup_in_progress :: bool
  backup_connection :: bool
  open_connections :: nat

text \<open>
  \<open>begin_backup\<close>: \<open>connect\<close> and \<open>locking\<close> are the exceptions of the connection and of the
  checkpoint or BEGIN IMMEDIATE on it; a connection that cannot lock is closed.
\<close>

definition sqlite_begin_backup ::
  "exc option \<Rightarrow> exc option \<Rightarrow> backup_state \<Rightarrow> (exc + unit) \<times> backup_state" where
  "sqlite_begin_backup connect locking b = wrapped
     (if bk_read_only b then (Inl (raise_exc KnxTelegramStoreException), b)
      else if backup_in_progress b then (Inl (raise_exc KnxTelegramStoreException), b)
      else if bk_is_memory b then (Inr (), b\<lparr>backup_in_progress := True\<rparr>)
      else (case connect of
              Some e \<Rightarrow> (Inl e, b)
            | None \<Rightarrow>
               (let b = b\<lparr>open_connections := Suc (open_connections b)\<rparr> in
                case locking of
                  Some e \<Rightarrow> (Inl e, b\<lparr>open_connections := open_connections b - 1\<rparr>)
                | None \<Rightarrow> (Inr (), b\<lparr>backup_connection := True, backup_in_progress := True\<rparr>))))"

text \<open>\<open>end_backup\<close>: the connection is closed whether or not its COMMIT succeeds.\<close>

definition sqlite_end_backup :: "exc option \<Rightarrow> backup_state \<Rightarrow> (exc + unit) \<times> backup_state" where
  "sqlite_end_backup commit b = wrapped
     (if \<not> backup_in_progress b then (Inl (raise_exc KnxTelegramStoreException), b)
      else
        let conn = backup_connection b;
            b = b\<lparr>backup_in_progress := False, backup_connection := False\<rparr>
        in if \<not> conn then (Inr (), b)
           else (case commit of
                   None \<Rightarrow> (Inr (), b\<lparr>open_connections := open_connections b - 1\<rparr>)
                 | Some e \<Rightarrow> (Inl e, b\<lparr>open_connections := open_connections b - 1\<rparr>)))"

text \<open>The one connection a backup holds is the open one, and only a backup of a file holds one.\<close>

definition backup_inv :: "nat \<Rightarrow> backup_state \<Rightarrow> bool" where
  "backup_inv others b \<longleftrightarrow> backup_connection b = (backup_in_progress b \<and> \<not> bk_is_memory b) \<and>
     open_connections b = others + (if backup_connection b then 1 else 0)"

lemma backup_inv_step:
  assumes "backup_inv others b"
  shows "backup_inv others (snd (sqlite_begin_backup c l b))"
    and "backup_inv others (snd (sqlite_end_backup c b))"
  using assms
  by (auto simp: backup_inv_def sqlite_begin_backup_def sqlite_end_backup_def wrapped_def Let_def
      split: option.split)

end
