(* ===== verification/BufferedStores.thy ===== *)
theory BufferedStores
  imports BufferRuns SqlMaintenance SqliteFile
begin

text \<open>
  The buffered stores of src/knx_telegram_store/buffered.py and buffered_sql.py: the write buffer
  over a memory store and over a SQLite store, with the operations of each class as the buffer
  calls them, and the guarantees of the buffer carried over to both through the interfaces of
  StoreInterface.
\<close>

section \<open>BufferedMemoryStore\<close>

definition memory_ops :: "memory_store store_ops" where
  "memory_ops =
     \<lparr>op_initialize = (\<lambda>s. wrapped (Inr (), s)), op_close = (\<lambda>s. wrapped (Inr (), s)),
      op_store_many = memory_store_many, op_query = memory_query,
      op_get_last_unique = memory_get_last_unique, op_get_stats = memory_get_stats,
      op_optimize = (\<lambda>s. (Inr (), s)), op_begin_backup = (\<lambda>s. (Inr (), s)),
      op_end_backup = (\<lambda>s. (Inr (), s)), op_evict_older_than = memory_evict_older_than,
      op_expiry_cutoff = (\<lambda>_. Inr None), op_clear = memory_clear\<rparr>"

section \<open>BufferedSqliteStore\<close>

text \<open>
  A SQLite store: the tables and the backup lock. The passes that \<open>initialize\<close> runs over the
  files of earlier versions are in SqliteUtc and SqliteFile; here the file is a current one.
\<close>

record sqlite_store =
  sq_sql :: sql_store
  sq_backup :: backup_state

text \<open>
  What the surroundings answer during an operation: the time, the size of the file, and the
  exceptions, if any, of VACUUM, of the statistics and the checkpoint after an eviction, of the
  connection, lock and COMMIT of a backup, and of disposing the engine.
\<close>

record sqlite_env =
  env_now :: datetime
  env_footprint :: "exc + int option"
  env_vacuum :: "exc option"
  env_refresh :: "exc option"
  env_checkpoint :: "exc option"
  env_connect :: "exc option"
  env_lock :: "exc option"
  env_commit :: "exc option"
  env_dispose :: "exc option"

definition raise_opt :: "exc option \<Rightarrow> exc + unit" where
  "raise_opt e = (case e of None \<Rightarrow> Inr () | Some e \<Rightarrow> Inl e)"

definition on_sql :: "(sql_store \<Rightarrow> (exc + 'a) \<times> sql_store) \<Rightarrow> sqlite_store \<Rightarrow> (exc + 'a) \<times> sqlite_store" where
  "on_sql f s = (case f (sq_sql s) of (r, d) \<Rightarrow> (r, s\<lparr>sq_sql := d\<rparr>))"

definition on_backup ::
  "(backup_state \<Rightarrow> (exc + 'a) \<times> backup_state) \<Rightarrow> sqlite_store \<Rightarrow> (exc + 'a) \<times> sqlite_store" where
  "on_backup f s = (case f (sq_backup s) of (r, b) \<Rightarrow> (r, s\<lparr>sq_backup := b\<rparr>))"

definition sqlite_init :: "bool \<Rightarrow> int option \<Rightarrow> sqlite_store" where
  "sqlite_init is_memory retention_days =
     \<lparr>sq_sql = sql_init empty_db Sqlite retention_days False,
      sq_backup = \<lparr>bk_read_only = False, bk_is_memory = is_memory, backup_in_progress = False,
        backup_connection = False, open_connections = 0\<rparr>\<rparr>"

definition sqlite_store_many ::
  "sql_engine \<Rightarrow> sqlite_store \<Rightarrow> stored_telegram list \<Rightarrow> (exc + unit) \<times> sqlite_store" where
  "sqlite_store_many eng s ts = on_sql (\<lambda>d. sql_store_many eng d ts) s"

definition sqlite_optimize :: "sqlite_env \<Rightarrow> sqlite_store \<Rightarrow> (exc + unit) \<times> sqlite_store" where
  "sqlite_optimize env s = wrapped
     (bind_res (ensure_writable (sq_sql s)) (\<lambda>_. raise_opt (env_vacuum env)), s)"

text \<open>\<open>close\<close>: an error of PRAGMA optimize is ignored, and the engine is disposed.\<close>

definition sqlite_close :: "sqlite_env \<Rightarrow> sqlite_store \<Rightarrow> (exc + unit) \<times> sqlite_store" where
  "sqlite_close env s = wrapped
     (andthen
       (if backup_in_progress (sq_backup s) then on_backup (sqlite_end_backup (env_commit env)) s
        else (Inr (), s))
       (\<lambda>_ s. (raise_opt (env_dispose env), s)))"

definition sqlite_ops :: "sql_engine \<Rightarrow> sqlite_env \<Rightarrow> sqlite_store store_ops" where
  "sqlite_ops eng env =
     \<lparr>op_initialize = on_sql (sql_initialize eng), op_close = sqlite_close env,
      op_store_many = sqlite_store_many eng,
      op_query = (\<lambda>s. sql_query eng (sq_sql s)),
      op_get_last_unique = (\<lambda>s. sql_get_last_unique eng (sq_sql s)),
      op_get_stats = (\<lambda>s. sql_get_stats eng (env_footprint env) (sq_sql s)),
      op_optimize = sqlite_optimize env,
      op_begin_backup = on_backup (sqlite_begin_backup (env_connect env) (env_lock env)),
      op_end_backup = on_backup (sqlite_end_backup (env_commit env)),
      op_evict_older_than = (\<lambda>s cutoff dry_run. on_sql (\<lambda>d. sqlite_evict_older_than eng
        (env_refresh env) (env_checkpoint env) (bk_is_memory (sq_backup s)) d cutoff dry_run) s),
      op_expiry_cutoff = (\<lambda>s. sql_expiry_cutoff (env_now env) (sq_sql s)),
      op_clear = on_sql (sql_clear eng)\<rparr>"

lemma sqlite_ops_simps [simp]:
  "op_store_many (sqlite_ops eng env) = sqlite_store_many eng"
  "op_query (sqlite_ops eng env) s q = sql_query eng (sq_sql s) q"
  "op_get_last_unique (sqlite_ops eng env) s = sql_get_last_unique eng (sq_sql s)"
  "op_close (sqlite_ops eng env) = sqlite_close env"
  by (simp_all add: sqlite_ops_def)

lemma sqlite_store_many_simps [simp]:
  "fst (sqlite_store_many eng s ts) = fst (sql_store_many eng (sq_sql s) ts)"
  "sq_sql (snd (sqlite_store_many eng s ts)) = snd (sql_store_many eng (sq_sql s) ts)"
  by (simp_all add: sqlite_store_many_def on_sql_def split: prod.split)

lemma sqlite_store_many_conv:
  "sqlite_store_many eng s ts = (r, s') \<longleftrightarrow>
   fst (sql_store_many eng (sq_sql s) ts) = r \<and> s' = s\<lparr>sq_sql := snd (sql_store_many eng (sq_sql s) ts)\<rparr>"
  by (auto simp: sqlite_store_many_def on_sql_def split: prod.split)

section \<open>The interfaces hold for the composed store\<close>

sublocale documented_engine \<subseteq> sqlite: atomic_writer "\<lambda>s. contents (sq_sql s)" "\<lambda>s. sql_ready (sq_sql s)"
  "\<lambda>_. None" sql_sane stored_form "sqlite_store_many eng"
proof unfold_locales
  show "sql_ready (sq_sql s) \<Longrightarrow> list_all sql_sane ts \<Longrightarrow> sqlite_store_many eng s ts = (Inr (), s') \<Longrightarrow>
    sql_ready (sq_sql s') \<and> None = None \<and>
    contents (sq_sql s') = keep_newest None (contents (sq_sql s) @ map stored_form ts)" for s ts s'
    using store_many_success [of "sq_sql s" ts "snd (sql_store_many eng (sq_sql s) ts)"]
    by (auto simp: sqlite_store_many_conv prod_eq_iff)
  show "fst (sqlite_store_many eng s ts) = Inl e \<Longrightarrow> snd (sqlite_store_many eng s ts) = s" for s ts e
    using sqlite_store_many_conv [of eng s ts "Inl e" "snd (sqlite_store_many eng s ts)"]
      store_many_failure [of "sq_sql s" ts e] by (metis (no_types, lifting) prod.collapse sqlite_store.surjective sqlite_store.update_convs(1) sqlite_store.select_convs(1))
qed simp

sublocale healthy_engine \<subseteq> sqlite: telegram_backend "\<lambda>s. contents (sq_sql s)" "\<lambda>s. sql_ready (sq_sql s)"
  "\<lambda>_. None" sql_sane stored_form "sqlite_store_many eng" sql_poisoned
  "\<lambda>_. sql_queryable" "\<lambda>s. sql_query eng (sq_sql s)" "\<lambda>s. sql_count eng (sq_sql s)"
  by unfold_locales
    (simp add: store_many_accepts, (unfold sqlite_store_many_simps, rule store_many_poisoned, assumption+)[1],
     simp_all add: query_ok count_ok)


text \<open>A buffered store that a flush can be sure of.\<close>

definition buffer_ready :: "sqlite_store buffered \<Rightarrow> bool" where
  "buffer_ready b \<longleftrightarrow> bounded b \<and> sql_ready (sq_sql (backing b)) \<and> list_all sql_sane (buffer b)"

abbreviation persisted :: "sqlite_store buffered \<Rightarrow> stored_telegram list" where
  "persisted b \<equiv> contents (sq_sql (backing b))"

definition deliverable :: "stored_telegram list \<Rightarrow> stored_telegram list" where
  "deliverable ts = map stored_form (filter (\<lambda>t. \<not> sql_poisoned t) ts)"

lemma flush_task_ready [simp]: "buffer_ready (b\<lparr>flush_task := x\<rparr>) = buffer_ready b"
  "buffer_ready (b\<lparr>closing := c\<rparr>) = buffer_ready b"
  "buffer_ready (b\<lparr>writes_allowed := w\<rparr>) = buffer_ready b"
  by (simp_all add: buffer_ready_def bounded_def)

context documented_engine
begin

lemmas sqlite_gives_back = sqlite.flush_locked_gives_back
lemmas sqlite_store = sqlite.store_many_success
lemmas sqlite_refuses = sqlite.store_many_failure

text \<open>
  What a flush does to the store and to the telegrams, on a database that may refuse anything:
  nothing is lost but what overflows or is refused, and the order is kept.
\<close>

lemma sqlite_flush_balance:
  assumes "bounded b" and "sql_ready (sq_sql (backing b))"
    and heard: "hs = heard b (arrivals (flush_calls (sqlite_store_many eng) arr b) arr)"
    and sane: "list_all sql_sane (buffer b @ hs)"
    and b': "b' = snd (flush_locked (sqlite_store_many eng) raising arr b)"
  shows "bounded b' \<and> sql_ready (sq_sql (backing b')) \<and>
    (\<exists>w ov un. persisted b' = persisted b @ map stored_form w \<and> accounted (room b')
      (refused (\<lambda>s. sql_ready (sq_sql s)) (sqlite_store_many eng)) w [] (buffer b') (buffer b @ hs) ov un)"
proof -
  let ?r = "\<lparr>base = b, in_flight = [], accepted = buffer b, overflowed = [], undeliverable = []\<rparr>"
  obtain r where r: "buf_steps (sqlite_store_many eng) ?r r" "base r = b'" "in_flight r = []" "accepted r = buffer b @ hs"
    using flush_locked_steps [of ?r "sqlite_store_many eng" raising arr] assms(1) heard b'
    by (auto simp: leads_def)
  have "sqlite.run_inv (persisted b) None ?r"
    using assms(1,2) by (auto simp: sqlite.run_inv_def accounted_def intro!: exI [of _ "[]"])
  from sqlite.run_inv_steps [OF r(1) this] sane r show ?thesis
    unfolding sqlite.run_inv_def by auto
qed

end

text \<open>No step changes the size of the buffer.\<close>

lemma buf_step_size: "buf_step sm r r' \<Longrightarrow> max_buffer_size (base r') = max_buffer_size (base r)"
  by (cases rule: buf_stepE)
    (auto simp: buf_store_sync_def requeue_def Let_def split: if_splits list.splits)

lemma buf_steps_size: "buf_steps sm r r' \<Longrightarrow> max_buffer_size (base r') = max_buffer_size (base r)"
  by (induction rule: rtranclp_induct) (simp_all add: buf_step_size)

context healthy_engine
begin

lemmas sqlite_accepts = sqlite.store_many_ok

lemma sqlite_flush_locked:
  assumes "buffer_ready b" and "writes_allowed b"
  shows "\<exists>b'. flush_locked (sqlite_store_many eng) raising arr b = (Inr (), b') \<and>
    sql_ready (sq_sql (backing b')) \<and> persisted b' = persisted b @ deliverable (buffer b) \<and>
    same_frame b b' \<and> bounded b' \<and>
    buffer b' = (if closing b then [] else take_last (room b) (arrivals (flush_awaits sql_poisoned b) arr))"
  using sqlite.flush_locked_ok [of b raising arr] assms by (simp add: buffer_ready_def deliverable_def)

end

lemma flush_locked_backup:
  "sq_backup (backing (snd (flush_locked (sqlite_store_many eng) raising arr b))) = sq_backup (backing b)"
proof -
  have store: "sq_backup (backing (snd (buf_store_sync b t))) = sq_backup (backing b)" for b :: "sqlite_store buffered" and t
    by (auto simp: buf_store_sync_def Let_def split: list.split)
  have arr: "sq_backup (backing (arrive b ts)) = sq_backup (backing b)" for b :: "sqlite_store buffered" and ts
    by (induction ts arbitrary: b) (simp_all add: arrive_def store)
  have aw: "sq_backup (backing b') = sq_backup (backing b)"
    if "await_store_many (sqlite_store_many eng) b batch ts = (r, b')" for b b' batch ts r
    using that by (auto simp: await_store_many_def on_backing_def wrapped_def arr sqlite_store_many_def on_sql_def split: prod.splits)
  have rq: "backing (requeue b ts) = backing b" for b :: "sqlite_store buffered" and ts
    by (simp add: requeue_def Let_def)
  have out: "backing (snd (flush_outcome raising e b)) = backing b" for e and b :: "sqlite_store buffered"
    by (simp add: flush_outcome_def)
  have one: "sq_backup (backing (snd (store_one_by_one (sqlite_store_many eng) raising b ts arr))) = sq_backup (backing b)" for b ts arr
  proof (induction ts arbitrary: b arr)
    case (Cons t ts)
    obtain r b1 where "await_store_many (sqlite_store_many eng) b [t] (next_arrivals arr) = (r, b1)"
      by (cases "await_store_many (sqlite_store_many eng) b [t] (next_arrivals arr)")
    with aw [OF this] Cons show ?case by (auto simp: rq out split: sum.split)
  qed simp
  obtain r b1 where "await_store_many (sqlite_store_many eng) (b\<lparr>buffer := []\<rparr>) (buffer b) (next_arrivals arr) = (r, b1)"
    by (cases "await_store_many (sqlite_store_many eng) (b\<lparr>buffer := []\<rparr>) (buffer b) (next_arrivals arr)")
  with aw [OF this] show ?thesis
    by (auto simp: flush_locked_def Let_def one rq out split: sum.split)
qed

end
