(* ===== verification/BufferLife.thy ===== *)
theory BufferLife
  imports BufferedStores StoreRuns
begin

text \<open>
  The life of a buffered SQLite store: any sequence of calls of its operations, each on a database
  that may refuse any statement, with telegrams arriving while they await it. What becomes of every
  telegram is followed from call to call by the relation \<open>conserves\<close>, which composes.
\<close>

section \<open>The calls\<close>

text \<open>
  The lists give the telegrams that other tasks store while the call awaits the backing store:
  \<open>arr\<close> per call of \<open>store_many\<close> that a flush awaits, \<open>arriving\<close> for the one other call.
\<close>

datatype call =
    Store stored_telegram
  | Flush "stored_telegram list list"
  | Tick "stored_telegram list list"
  | Query telegram_query bool "stored_telegram list list"
  | LastUnique "stored_telegram list list"
  | Stats "stored_telegram list list"
  | StoreMany "stored_telegram list" "stored_telegram list"
  | EvictOlderThan datetime bool "stored_telegram list"
  | EvictExpired bool "stored_telegram list"
  | Clear "stored_telegram list"
  | Optimize "stored_telegram list list" "stored_telegram list"
  | Initialize "stored_telegram list"
  | Start
  | BeginBackup "stored_telegram list list" "stored_telegram list"
  | EndBackup "stored_telegram list"
  | Close

type_synonym moment = "sql_engine \<times> sqlite_env \<times> call"

text \<open>
  A call behind the write gate has the lock at once; one that would wait changes nothing, and is
  another call once the backup has ended.
\<close>

definition at_once :: "('s buffered \<Rightarrow> 's buffered) list" where
  "at_once = [\<lambda>b. b]"

fun perform_call :: "sqlite_store store_ops \<Rightarrow> call \<Rightarrow> sqlite_store buffered \<Rightarrow> sqlite_store buffered" where
  "perform_call ops (Store t) b = snd (buf_store b t)"
| "perform_call ops (Flush arr) b = snd (buf_flush ops False arr b)"
| "perform_call ops (Tick arr) b = snd (flush_loop_turn ops arr b)"
| "perform_call ops (Query q flush_first arr) b = snd (buf_query ops q flush_first arr b)"
| "perform_call ops (LastUnique arr) b = snd (buf_get_last_unique ops arr b)"
| "perform_call ops (Stats arr) b = snd (buf_get_stats ops arr b)"
| "perform_call ops (StoreMany ts arriving) b = snd (buf_store_many ops ts arriving at_once b)"
| "perform_call ops (EvictOlderThan cutoff dry_run arriving) b =
     snd (buf_evict_older_than ops cutoff dry_run arriving at_once b)"
| "perform_call ops (EvictExpired dry_run arriving) b = snd (buf_evict_expired ops dry_run arriving at_once b)"
| "perform_call ops (Clear arriving) b = snd (buf_clear ops arriving at_once b)"
| "perform_call ops (Optimize arr arriving) b = snd (buf_optimize ops arr arriving at_once b)"
| "perform_call ops (Initialize arriving) b = snd (buf_initialize ops arriving b)"
| "perform_call ops Start b = buf_start b"
| "perform_call ops (BeginBackup arr arriving) b = snd (buf_begin_backup ops arr arriving b)"
| "perform_call ops (EndBackup arriving) b = snd (buf_end_backup ops arriving b)"
| "perform_call ops Close b = snd (buf_close ops b)"

fun perform :: "moment \<Rightarrow> sqlite_store buffered \<Rightarrow> sqlite_store buffered" where
  "perform (eng, env, c) b = perform_call (sqlite_ops eng env) c b"

section \<open>What a call does to telegrams\<close>

text \<open>Those a call puts into the buffer: its own and those that arrive meanwhile.\<close>

definition flush_hears ::
  "sql_engine \<Rightarrow> stored_telegram list list \<Rightarrow> sqlite_store buffered \<Rightarrow> stored_telegram list" where
  "flush_hears eng arr b = heard b (arrivals (flush_calls (sqlite_store_many eng) arr b) arr)"

definition gate_open :: "sqlite_store buffered \<Rightarrow> bool" where
  "gate_open b \<longleftrightarrow> writes_allowed b \<and> \<not> closing b"

definition hears_after ::
  "(exc + unit) \<times> sqlite_store buffered \<Rightarrow> stored_telegram list \<Rightarrow> stored_telegram list" where
  "hears_after rb arriving = (case rb of (Inr _, b) \<Rightarrow> heard b arriving | (Inl e, b) \<Rightarrow> [])"

fun hears :: "moment \<Rightarrow> sqlite_store buffered \<Rightarrow> stored_telegram list" where
  "hears (eng, env, Store t) b = heard b [t]"
| "hears (eng, env, Flush arr) b = flush_hears eng arr b"
| "hears (eng, env, Tick arr) b = flush_hears eng arr b"
| "hears (eng, env, Query q flush_first arr) b = (if flush_first then flush_hears eng arr b else [])"
| "hears (eng, env, LastUnique arr) b = flush_hears eng arr b"
| "hears (eng, env, Stats arr) b = flush_hears eng arr b"
| "hears (eng, env, StoreMany ts arriving) b = (if gate_open b then heard b arriving else [])"
| "hears (eng, env, EvictOlderThan cutoff dry_run arriving) b = (if gate_open b then heard b arriving else [])"
| "hears (eng, env, EvictExpired dry_run arriving) b =
     (case sql_expiry_cutoff (env_now env) (sq_sql (backing b)) of
        Inr (Some cutoff) \<Rightarrow> if gate_open b then heard b arriving else []
      | _ \<Rightarrow> [])"
| "hears (eng, env, Clear arriving) b = (if gate_open b then heard b arriving else [])"
| "hears (eng, env, Optimize arr arriving) b =
     (if gate_open b then flush_hears eng arr b @ hears_after (buf_flush (sqlite_ops eng env) True arr b) arriving else [])"
| "hears (eng, env, Initialize arriving) b = heard b arriving"
| "hears (eng, env, BeginBackup arr arriving) b =
     (if gate_open b then flush_hears eng arr b @ hears_after (flush_locked (sqlite_store_many eng) True arr b) arriving else [])"
| "hears (eng, env, EndBackup arriving) b = (if writes_allowed b then [] else heard b arriving)"
| "hears (eng, env, _) b = []"

text \<open>Those that \<open>store_many\<close> answers to have written past the buffer.\<close>

fun writes :: "moment \<Rightarrow> sqlite_store buffered \<Rightarrow> stored_telegram list" where
  "writes (eng, env, StoreMany ts arriving) b =
     (case fst (buf_store_many (sqlite_ops eng env) ts arriving at_once b) of Some (Inr _) \<Rightarrow> ts | _ \<Rightarrow> [])"
| "writes (eng, env, _) b = []"

text \<open>Those that a call is meant to delete.\<close>

fun deletes :: "moment \<Rightarrow> sqlite_store buffered \<Rightarrow> stored_telegram \<Rightarrow> bool" where
  "deletes (eng, env, EvictOlderThan cutoff dry_run arriving) b t \<longleftrightarrow>
     gate_open b \<and> \<not> dry_run \<and> time_of t < instant cutoff"
| "deletes (eng, env, EvictExpired dry_run arriving) b t \<longleftrightarrow>
     (case sql_expiry_cutoff (env_now env) (sq_sql (backing b)) of
        Inr (Some cutoff) \<Rightarrow> gate_open b \<and> \<not> dry_run \<and> time_of t < instant cutoff
      | _ \<Rightarrow> False)"
| "deletes (eng, env, Clear arriving) b t \<longleftrightarrow> gate_open b"
| "deletes (eng, env, Close) b t \<longleftrightarrow> \<not> initialized b"
| "deletes (eng, env, _) b t \<longleftrightarrow> False"

section \<open>The same over a sequence of calls\<close>

primrec life :: "moment list \<Rightarrow> sqlite_store buffered \<Rightarrow> sqlite_store buffered" where
  "life [] b = b"
| "life (m # ms) b = life ms (perform m b)"

primrec life_hears :: "moment list \<Rightarrow> sqlite_store buffered \<Rightarrow> stored_telegram list" where
  "life_hears [] b = []"
| "life_hears (m # ms) b = hears m b @ life_hears ms (perform m b)"

primrec life_writes :: "moment list \<Rightarrow> sqlite_store buffered \<Rightarrow> stored_telegram list" where
  "life_writes [] b = []"
| "life_writes (m # ms) b = writes m b @ life_writes ms (perform m b)"

primrec life_deletes :: "moment list \<Rightarrow> sqlite_store buffered \<Rightarrow> stored_telegram \<Rightarrow> bool" where
  "life_deletes [] b t \<longleftrightarrow> False"
| "life_deletes (m # ms) b t \<longleftrightarrow> deletes m b t \<or> life_deletes ms (perform m b) t"

text \<open>A telegram that one of the databases refuses on its own, with a data error.\<close>

definition refused_by :: "sql_engine set \<Rightarrow> stored_telegram \<Rightarrow> bool" where
  "refused_by engs t \<longleftrightarrow> (\<exists>eng \<in> engs. refused (\<lambda>s. sql_ready (sq_sql s)) (sqlite_store_many eng) t)"

section \<open>Conservation, and how it composes\<close>

lemma shuffles_append:
  assumes "v \<in> shuffles w d" and "v' \<in> shuffles w' d'"
  shows "v @ v' \<in> shuffles (w @ w') (d @ d')"
  using assms
proof (induction w d arbitrary: v rule: shuffles.induct)
  case (1 d)
  then show ?case
  proof (induction d arbitrary: v)
    case (Cons x d)
    then have "d @ v' \<in> shuffles w' (d @ d')" by simp
    with Cons.prems show ?case by (auto simp: Cons_in_shuffles_rightI)
  qed simp
next
  case (2 w)
  then show ?case
  proof (induction w arbitrary: v)
    case (Cons x w)
    then have "w @ v' \<in> shuffles (w @ w') d'" by simp
    with Cons.prems show ?case by (auto simp: Cons_in_shuffles_leftI)
  qed simp
next
  case (3 x w y d)
  from \<open>v \<in> shuffles (x # w) (y # d)\<close> consider
    u where "v = x # u" "u \<in> shuffles w (y # d)" | u where "v = y # u" "u \<in> shuffles (x # w) d"
    by auto
  then show ?case
  proof cases
    case 1
    with 3 have "u @ v' \<in> shuffles (w @ w') ((y # d) @ d')" by blast
    with 1 show ?thesis by (simp add: Cons_in_shuffles_leftI)
  next
    case 2
    with 3 have "u @ v' \<in> shuffles ((x # w) @ w') (d @ d')" by blast
    with 2 show ?thesis by (simp add: Cons_in_shuffles_rightI)
  qed
qed

definition fit :: "sqlite_store buffered \<Rightarrow> bool" where
  "fit b \<longleftrightarrow> bounded b \<and> sql_ready (sq_sql (backing b))"

text \<open>
  From \<open>b\<close> to \<open>b'\<close>, with \<open>acc\<close> put into the buffer and \<open>dir\<close> written past it: of the buffered
  telegrams \<open>w\<close> are written, \<open>ov\<close> overflow, \<open>un\<close> are refused and \<open>pr\<close> deleted, the store gains the
  written ones in their order, \<open>v\<close>, and \<open>rm\<close> is deleted from it.
\<close>

definition conserves ::
  "sqlite_store buffered \<Rightarrow> stored_telegram list \<Rightarrow> stored_telegram list \<Rightarrow> (stored_telegram \<Rightarrow> bool) \<Rightarrow>
   (stored_telegram \<Rightarrow> bool) \<Rightarrow> sqlite_store buffered \<Rightarrow> bool"
where
  "conserves b acc dir ref gone b' \<longleftrightarrow> fit b' \<and> max_buffer_size b' = max_buffer_size b \<and>
     (\<exists>w v ov un pr rm.
        subseq (w @ buffer b') (buffer b @ acc) \<and>
        mset (buffer b @ acc) = mset (w @ buffer b') + mset (ov @ un @ pr) \<and>
        v \<in> shuffles w dir \<and>
        subseq (persisted b') (persisted b @ map stored_form v) \<and>
        mset (persisted b @ map stored_form v) = mset (persisted b') + mset rm \<and>
        (length (buffer b @ acc) \<le> room b \<longrightarrow> ov = []) \<and>
        list_all ref un \<and> list_all gone pr \<and> list_all gone rm)"

lemma conservesI:
  assumes "fit b'" and "max_buffer_size b' = max_buffer_size b"
    and "subseq (w @ buffer b') (buffer b @ acc)"
    and "mset (buffer b @ acc) = mset (w @ buffer b') + mset (ov @ un @ pr)"
    and "v \<in> shuffles w dir" and "subseq (persisted b') (persisted b @ map stored_form v)"
    and "mset (persisted b @ map stored_form v) = mset (persisted b') + mset rm"
    and "length (buffer b @ acc) \<le> room b \<Longrightarrow> ov = []"
    and "list_all ref un" and "list_all gone pr" and "list_all gone rm"
  shows "conserves b acc dir ref gone b'"
  unfolding conserves_def by (intro conjI exI impI) (fact assms)+

lemma conserves_trans:
  assumes "conserves b a1 d1 ref gone b1" and "conserves b1 a2 d2 ref gone b2"
  shows "conserves b (a1 @ a2) (d1 @ d2) ref gone b2"
proof -
  obtain w1 v1 ov1 un1 pr1 rm1 where 1:
    "subseq (w1 @ buffer b1) (buffer b @ a1)" "mset (buffer b @ a1) = mset (w1 @ buffer b1) + mset (ov1 @ un1 @ pr1)"
    "v1 \<in> shuffles w1 d1" "subseq (persisted b1) (persisted b @ map stored_form v1)"
    "mset (persisted b @ map stored_form v1) = mset (persisted b1) + mset rm1"
    "length (buffer b @ a1) \<le> room b \<longrightarrow> ov1 = []" "list_all ref un1" "list_all gone pr1" "list_all gone rm1"
    using assms(1) unfolding conserves_def by (elim exE conjE) (rule that)
  obtain w2 v2 ov2 un2 pr2 rm2 where 2:
    "subseq (w2 @ buffer b2) (buffer b1 @ a2)" "mset (buffer b1 @ a2) = mset (w2 @ buffer b2) + mset (ov2 @ un2 @ pr2)"
    "v2 \<in> shuffles w2 d2" "subseq (persisted b2) (persisted b1 @ map stored_form v2)"
    "mset (persisted b1 @ map stored_form v2) = mset (persisted b2) + mset rm2"
    "length (buffer b1 @ a2) \<le> room b1 \<longrightarrow> ov2 = []" "list_all ref un2" "list_all gone pr2" "list_all gone rm2"
    using assms(2) unfolding conserves_def by (elim exE conjE) (rule that)
  have "subseq (w1 @ (w2 @ buffer b2)) (w1 @ (buffer b1 @ a2))" using 2(1) by (simp only: subseq_append')
  moreover have "subseq ((w1 @ buffer b1) @ a2) ((buffer b @ a1) @ a2)" using 1(1) by (simp only: subseq_append)
  ultimately have order: "subseq ((w1 @ w2) @ buffer b2) (buffer b @ a1 @ a2)"
    using subseq_order.trans by (metis append.assoc)
  have "subseq (persisted b1 @ map stored_form v2) ((persisted b @ map stored_form v1) @ map stored_form v2)"
    using 1(4) by (intro list_emb_append_mono) simp_all
  then have kept: "subseq (persisted b2) (persisted b @ map stored_form (v1 @ v2))"
    using subseq_order.trans [OF 2(4)] by simp
  have "length (buffer b @ a1) = length (w1 @ buffer b1) + length (ov1 @ un1 @ pr1)"
    using arg_cong [OF 1(2), of size] by simp
  then have room: "length (buffer b @ a1 @ a2) \<le> room b \<longrightarrow> ov1 @ ov2 = []"
    using 1(6) 2(6) assms(1) by (auto simp: conserves_def)
  have "mset (buffer b @ a1 @ a2) = mset ((w1 @ w2) @ buffer b2) + mset ((ov1 @ ov2) @ (un1 @ un2) @ pr1 @ pr2)"
    using 1(2) 2(2) by (simp add: ac_simps) (metis (no_types, lifting) add.left_commute)
  moreover have "mset (persisted b @ map stored_form (v1 @ v2)) = mset (persisted b2) + mset (rm1 @ rm2)"
    using 1(5) 2(5) by (simp add: ac_simps) (metis (no_types, lifting) add.left_commute)
  moreover have "list_all ref (un1 @ un2)" "list_all gone (pr1 @ pr2)" "list_all gone (rm1 @ rm2)"
    using 1(7-9) 2(7-9) by simp_all
  moreover have "fit b2" "max_buffer_size b2 = max_buffer_size b" using assms by (simp_all add: conserves_def)
  ultimately show ?thesis
    using order kept room shuffles_append [OF 1(3) 2(3)] by (intro conservesI) (assumption | blast)+
qed

lemma conserves_cong: "conserves b a d ref gone b' \<Longrightarrow> a = a' \<Longrightarrow> d = d' \<Longrightarrow> conserves b a' d' ref gone b'"
  by simp

lemma conserves_mono:
  assumes "conserves b a d ref gone b'" and "\<And>t. ref t \<Longrightarrow> ref' t" and "\<And>t. gone t \<Longrightarrow> gone' t"
  shows "conserves b a d ref' gone' b'"
proof -
  have "list_all ref xs \<Longrightarrow> list_all ref' xs" "list_all gone xs \<Longrightarrow> list_all gone' xs" for xs
    using assms(2,3) by (auto simp: list_all_iff)
  then show ?thesis using assms(1) unfolding conserves_def by metis
qed

lemma conserves_sane:
  assumes "conserves b a d ref gone b'" and "list_all sane (buffer b @ a)"
  shows "list_all sane (buffer b')"
proof -
  obtain w ov un pr where "mset (buffer b @ a) = mset (w @ buffer b') + mset (ov @ un @ pr)"
    using assms(1) unfolding conserves_def by (elim exE conjE) (rule that)
  from arg_cong [OF this, of set_mset] show ?thesis using assms(2) by (auto simp: list_all_iff)
qed

lemma conserves_fit: "conserves b a d ref gone b' \<Longrightarrow> fit b'"
  by (simp add: conserves_def)

section \<open>What the pieces of an operation conserve\<close>

text \<open>Fields of the state that hold no telegrams.\<close>

lemma conserves_same:
  assumes "fit b" and "buffer b' = buffer b" and "backing b' = backing b" and "max_buffer_size b' = max_buffer_size b"
  shows "conserves b [] [] ref gone b'"
  using assms
  by (intro conservesI [where w = "[]" and ov = "[]" and un = "[]" and pr = "[]" and v = "[]" and rm = "[]"])
    (simp_all add: fit_def bounded_def)

lemma conserves_refl: "fit b \<Longrightarrow> conserves b [] [] ref gone b"
  by (rule conserves_same) simp_all

text \<open>The store changes: it keeps what it has but for what is deleted.\<close>

lemma conserves_backing:
  assumes "fit b" and "sql_ready (sq_sql s)" and "subseq (contents (sq_sql s)) (persisted b)"
    and "mset (persisted b) = mset (contents (sq_sql s)) + mset rm" and "list_all gone rm"
  shows "conserves b [] [] ref gone (b\<lparr>backing := s\<rparr>)"
  using assms
  by (intro conservesI [where w = "[]" and ov = "[]" and un = "[]" and pr = "[]" and v = "[]" and rm = rm])
    (simp_all add: fit_def bounded_def)

text \<open>Buffered telegrams are deleted.\<close>

lemma conserves_filter:
  assumes "fit b" and "\<And>t. t \<in> set (buffer b) \<Longrightarrow> \<not> P t \<Longrightarrow> gone t"
  shows "conserves b [] [] ref gone (b\<lparr>buffer := filter P (buffer b)\<rparr>)"
proof -
  let ?off = "filter (\<lambda>t. \<not> P t) (buffer b)"
  show ?thesis
  proof (rule conservesI [where w = "[]" and ov = "[]" and un = "[]" and pr = ?off and v = "[]" and rm = "[]"])
    show "mset (buffer b @ []) = mset ([] @ buffer (b\<lparr>buffer := filter P (buffer b)\<rparr>)) + mset ([] @ [] @ ?off)"
      using multiset_partition [of "mset (buffer b)" P] by simp
    show "list_all gone ?off" using assms(2) by (auto simp: list_all_iff)
    show "fit (b\<lparr>buffer := filter P (buffer b)\<rparr>)"
      using assms(1) order_trans [OF of_nat_mono [OF length_filter_le [of P "buffer b"]], of "max_buffer_size b"]
      by (simp add: fit_def bounded_def)
  qed simp_all
qed

lemma conserves_empty:
  assumes "fit b" and "\<And>t. gone t"
  shows "conserves b [] [] ref gone (b\<lparr>buffer := []\<rparr>)"
  using conserves_filter [OF assms(1), of "\<lambda>_. False" gone ref] assms(2) by simp

text \<open>Telegrams arrive.\<close>

lemma conserves_arrive:
  assumes "fit b"
  shows "conserves b (heard b ts) [] ref gone (arrive b ts)"
proof -
  have bd: "bounded b" and "sql_ready (sq_sql (backing b))" using assms by (simp_all add: fit_def)
  moreover note ok = arrive_ok [OF bd, of ts]
  ultimately have fit: "fit (arrive b ts)" by (simp add: fit_def)
  have size: "max_buffer_size (arrive b ts) = max_buffer_size b" using ok by (simp add: same_frame_def)
  show ?thesis
  proof (cases "closing b")
    case True
    then show ?thesis
      using conserves_same [OF assms, of "arrive b ts"] ok size by (simp add: heard_def)
  next
    case False
    then have "buffer (arrive b ts) = take_last (room b) (buffer b @ ts)" using ok by simp
    moreover have "excess (room b) (buffer b @ ts) = []" if "length (buffer b @ ts) \<le> room b"
      using that by (simp add: excess_def)
    moreover have "mset (buffer b @ ts) = mset (take_last (room b) (buffer b @ ts)) + mset (excess (room b) (buffer b @ ts))"
      by (subst mset_excess [of _ "room b"]) simp
    ultimately show ?thesis
      using False fit size ok subseq_take_last [of "room b" "buffer b @ ts"]
      by (intro conservesI [where w = "[]" and ov = "excess (room b) (buffer b @ ts)" and un = "[]" and pr = "[]"
        and v = "[]" and rm = "[]"]) (simp_all add: heard_def)
  qed
qed

text \<open>A flush inside the lock.\<close>

lemma conserves_flush:
  assumes "wf_engine eng" and "fit b" and "list_all sql_sane (buffer b @ flush_hears eng arr b)"
    and ref: "\<And>t. refused (\<lambda>s. sql_ready (sq_sql s)) (sqlite_store_many eng) t \<Longrightarrow> ref t"
  shows "conserves b (flush_hears eng arr b) [] ref gone (snd (flush_locked (sqlite_store_many eng) raising arr b))"
proof -
  let ?hs = "flush_hears eng arr b" and ?b' = "snd (flush_locked (sqlite_store_many eng) raising arr b)"
  have d: "documented_engine eng" using assms(1) by unfold_locales
  have bd: "bounded b" using assms(2) by (simp add: fit_def)
  obtain w ov un where w: "persisted ?b' = persisted b @ map stored_form w"
    "accounted (room ?b') (refused (\<lambda>s. sql_ready (sq_sql s)) (sqlite_store_many eng)) w [] (buffer ?b') (buffer b @ ?hs) ov un"
    "fit ?b'"
    using documented_engine.sqlite_flush_balance [OF d bd _ flush_hears_def assms(3) refl, of raising] assms(2)
    by (auto simp: fit_def)
  have size: "max_buffer_size ?b' = max_buffer_size b"
    using flush_locked_steps [of "\<lparr>base = b, in_flight = [], accepted = [], overflowed = [], undeliverable = []\<rparr>"
      "sqlite_store_many eng" raising arr] bd buf_steps_size by (fastforce simp: leads_def)
  have "list_all ref un" using w(2) ref by (auto simp: accounted_def list_all_iff)
  with w size show ?thesis
    by (intro conservesI [where w = w and ov = ov and un = un and pr = "[]" and v = w and rm = "[]"])
      (simp_all add: accounted_def)
qed

section \<open>The operations of the backing store\<close>

lemma reconcile_inv:
  assumes "wf_engine eng" and "sql_inv s" and db: "reconcile_last_ga_telegrams eng (sql_db s) = Inr db"
  shows "sql_inv (s\<lparr>sql_db := db\<rparr>) \<and> contents (s\<lparr>sql_db := db\<rparr>) = contents s"
proof (cases "last_ga_telegrams (sql_db s) \<noteq> [] \<and> metadata_flag_set (sql_db s) LAST_GA_RECONCILED_KEY")
  case True
  with db have "db = sql_db s" by (simp add: reconcile_last_ga_telegrams_def)
  then show ?thesis using assms(2) by simp
next
  case False
  then have "sql_inv (s\<lparr>sql_db := db\<rparr>) \<and> string_lookup db = string_lookup (sql_db s) \<and> telegrams db = telegrams (sql_db s)"
    using reconcile_ok [of "unrefusing eng" s] reconcile_unrefusing [OF db] assms(1,2) by auto
  then show ?thesis by (simp add: contents_def)
qed

lemma initialize_inv:
  assumes "wf_engine eng" and "sql_inv s"
  shows "sql_inv (snd (sql_initialize eng s)) \<and> contents (snd (sql_initialize eng s)) = contents s \<and>
    sql_read_only (snd (sql_initialize eng s)) = sql_read_only s"
proof -
  let ?s = "s\<lparr>lookup_cache := warm (lookup_cache s) (string_lookup (sql_db s))\<rparr>"
  have inv: "sql_inv ?s" and same: "contents ?s = contents s" "sql_db ?s = sql_db s"
    using assms(2) warm_cache_ok(1) [OF sql_invD(1,2) [OF assms(2)]] by (simp_all add: sql_inv_def Let_def contents_def)
  have "sql_inv (?s\<lparr>sql_db := db\<rparr>) \<and> contents (?s\<lparr>sql_db := db\<rparr>) = contents s"
    if "reconcile_last_ga_telegrams eng (sql_db s) = Inr db" for db
    using reconcile_inv [OF assms(1) inv, of db] that same by simp
  then show ?thesis using inv same assms(2)
    by (auto simp: sql_initialize_def wrapped_def Let_def split: sum.split)
qed

lemma bind_time_instant: "bind_time eng dialect d = Inr c \<Longrightarrow> c = instant d"
  by (auto simp: bind_time_def astimezone_utc_def bind_res_Inr_conv instant_def split: if_splits sum.splits option.splits)

text \<open>What an eviction or a clear leaves, whatever the database answers.\<close>

lemma evict_leaves:
  assumes "sql_inv s"
  shows "sql_inv (snd (sql_evict_older_than eng s cutoff dry_run)) \<and>
    sql_read_only (snd (sql_evict_older_than eng s cutoff dry_run)) = sql_read_only s \<and>
    (\<exists>P. contents (snd (sql_evict_older_than eng s cutoff dry_run)) = filter P (contents s) \<and>
      (\<forall>t. \<not> P t \<longrightarrow> \<not> dry_run \<and> time_of t < instant cutoff))"
proof -
  have unchanged: "\<exists>P. contents s = filter P (contents s) \<and> (\<forall>t. \<not> P t \<longrightarrow> \<not> dry_run \<and> time_of t < instant cutoff)"
    by (rule exI [of _ "\<lambda>_. True"]) simp
  show ?thesis
  proof (cases "snd (sql_evict_older_than eng s cutoff dry_run) = s")
    case True
    then show ?thesis using assms unchanged by simp
  next
    case False
    then have s': "snd (sql_evict_older_than eng s cutoff dry_run) =
        s\<lparr>sql_db := (sql_db s)\<lparr>telegrams := filter (\<lambda>r. \<not> r_timestamp r < instant cutoff) (telegrams (sql_db s))\<rparr>\<rparr>"
      and "\<not> dry_run"
      using bind_time_instant [of eng _ cutoff]
      by (auto simp: sql_evict_older_than_def wrapped_def Let_def split: sum.splits if_splits)
    moreover have "contents (snd (sql_evict_older_than eng s cutoff dry_run)) =
      filter (\<lambda>t. \<not> time_of t < instant cutoff) (contents s)"
      unfolding s' by (simp add: contents_def filter_map comp_def)
    ultimately show ?thesis
      using assms by (auto simp: sql_inv_def Let_def list_all_iff intro!: exI [of _ "\<lambda>t. \<not> time_of t < instant cutoff"])
  qed
qed

lemma clear_leaves:
  assumes "sql_inv s"
  shows "sql_inv (snd (sql_clear eng s)) \<and> sql_read_only (snd (sql_clear eng s)) = sql_read_only s \<and>
    contents (snd (sql_clear eng s)) \<in> {contents s, []}"
  using assms by (auto simp: sql_clear_def wrapped_def Let_def sql_inv_def contents_def split: sum.split)

text \<open>A backing operation that only deletes what it is meant to.\<close>

definition mild ::
  "(sqlite_store \<Rightarrow> (exc + 'a) \<times> sqlite_store) \<Rightarrow> (stored_telegram \<Rightarrow> bool) \<Rightarrow> sqlite_store \<Rightarrow> bool" where
  "mild f gone s \<longleftrightarrow> sql_ready (sq_sql (snd (f s))) \<and>
     (\<exists>P. contents (sq_sql (snd (f s))) = filter P (contents (sq_sql s)) \<and> (\<forall>t. \<not> P t \<longrightarrow> gone t))"

lemma mild_same:
  assumes "sql_ready (sq_sql s)" and "sq_sql (snd (f s)) = sq_sql s"
  shows "mild f gone s"
  using assms unfolding mild_def by (intro conjI exI [of _ "\<lambda>_. True"]) simp_all

lemma snd_on_backing: "snd (on_backing f b) = b\<lparr>backing := snd (f (backing b))\<rparr>"
  by (simp add: on_backing_def split: prod.split)

lemma snd_on_sql: "snd (on_sql f s) = s\<lparr>sq_sql := snd (f (sq_sql s))\<rparr>"
  by (simp add: on_sql_def split: prod.split)

lemma conserves_mild:
  assumes "fit b" and "mild f gone (backing b)"
  shows "conserves b [] [] ref gone (snd (on_backing f b))"
proof -
  let ?s = "snd (f (backing b))"
  obtain P where P: "contents (sq_sql ?s) = filter P (persisted b)" "\<And>t. \<not> P t \<Longrightarrow> gone t"
    using assms(2) by (auto simp: mild_def)
  have "conserves b [] [] ref gone (b\<lparr>backing := ?s\<rparr>)"
  proof (rule conserves_backing [where rm = "filter (\<lambda>t. \<not> P t) (persisted b)"])
    show "mset (persisted b) = mset (contents (sq_sql ?s)) + mset (filter (\<lambda>t. \<not> P t) (persisted b))"
      using multiset_partition [of "mset (persisted b)" P] by (simp add: P(1))
    show "subseq (contents (sq_sql ?s)) (persisted b)" by (simp add: P(1))
    show "list_all gone (filter (\<lambda>t. \<not> P t) (persisted b))" using P(2) by (auto simp: list_all_iff)
  qed (use assms in \<open>simp_all add: mild_def\<close>)
  then show ?thesis by (simp add: snd_on_backing)
qed

lemma on_backing_closing [simp]: "closing (snd (on_backing f b)) = closing b"
  by (simp add: on_backing_def split: prod.split)

lemma conserves_await:
  assumes "conserves b a d ref gone (snd (on_backing f b))"
  shows "conserves b (a @ heard b ts) d ref gone (snd (await_backing f ts b))"
proof -
  let ?b = "snd (on_backing f b)"
  have "heard b ts = heard ?b ts" by (simp add: heard_def)
  moreover have "snd (await_backing f ts b) = arrive ?b ts" by (simp add: await_backing_def split: prod.split)
  ultimately show ?thesis
    using conserves_trans [OF assms conserves_arrive [OF conserves_fit [OF assms], of ts]] by simp
qed

lemma mild_ops:
  fixes eng env defines "ops \<equiv> sqlite_ops eng env"
  assumes "sql_ready (sq_sql s)" and "wf_engine eng"
  shows "mild (op_initialize ops) gone s" and "mild (op_close ops) gone s" and "mild (op_optimize ops) gone s"
    and "mild (op_begin_backup ops) gone s" and "mild (op_end_backup ops) gone s"
    and "(\<And>t. gone t) \<Longrightarrow> mild (op_clear ops) gone s"
    and "(\<And>t. \<not> dry_run \<Longrightarrow> time_of t < instant cutoff \<Longrightarrow> gone t) \<Longrightarrow>
      mild (\<lambda>s. op_evict_older_than ops s cutoff dry_run) gone s"
proof -
  have inv: "sql_inv (sq_sql s)" "\<not> sql_read_only (sq_sql s)" using assms(2) by (simp_all add: sql_ready_def)
  have bk: "sq_sql (snd (on_backup f s)) = sq_sql s" for f :: "backup_state \<Rightarrow> (exc + unit) \<times> backup_state"
    by (simp add: on_backup_def split: prod.split)
  show "mild (op_initialize ops) gone s"
    using initialize_inv [OF assms(3) inv(1)] inv(2) unfolding mild_def
    by (intro conjI exI [of _ "\<lambda>_. True"]) (simp_all add: ops_def sqlite_ops_def snd_on_sql sql_ready_def)
  show "mild (op_close ops) gone s" "mild (op_optimize ops) gone s"
    "mild (op_begin_backup ops) gone s" "mild (op_end_backup ops) gone s"
    using assms(2) bk
    by (auto intro!: mild_same simp: ops_def sqlite_ops_def sqlite_close_def sqlite_optimize_def wrapped_def andthen_def
        on_backup_def split: prod.splits sum.splits)
  show "mild (op_clear ops) gone s" if "\<And>t. gone t"
    using clear_leaves [OF inv(1), of eng] inv(2) that unfolding mild_def
    by (auto simp: ops_def sqlite_ops_def snd_on_sql sql_ready_def
        intro: exI [of _ "\<lambda>_. True"] exI [of _ "\<lambda>_. False"])
  show "mild (\<lambda>s. op_evict_older_than ops s cutoff dry_run) gone s"
    if "\<And>t. \<not> dry_run \<Longrightarrow> time_of t < instant cutoff \<Longrightarrow> gone t"
  proof -
    have "snd (sqlite_evict_older_than eng r c m d cutoff dry_run) = snd (sql_evict_older_than eng d cutoff dry_run)" for r c m d
      by (auto simp: sqlite_evict_older_than_def wrapped_def split: prod.split sum.split option.split)
    then show ?thesis
      using evict_leaves [OF inv(1), of eng cutoff dry_run] inv(2) that unfolding mild_def
      by (auto simp: ops_def sqlite_ops_def snd_on_sql sql_ready_def)
  qed
qed

section \<open>Every call conserves the telegrams\<close>

lemma snd_wrapped [simp]: "snd (wrapped rb) = snd rb"
  by (simp add: wrapped_def split: prod.split)

lemma gate_at_once: "snd (write_gate k at_once b) = (if gate_open b then snd (k b) else b)"
  by (auto simp: at_once_def gate_check_def mutation_def gate_open_def wrapped_def split: prod.split)

lemma conserves_restart: "fit b \<Longrightarrow> conserves b [] [] ref gone (restart_timer b)"
  by (rule conserves_same) (simp_all add: restart_timer_def)

lemma flush_hears_closing [simp]: "closing b \<Longrightarrow> flush_hears eng arr b = []"
  by (simp add: flush_hears_def heard_def)

text \<open>A second piece that runs only if the first one does not raise.\<close>

lemma conserves_andthen:
  assumes first: "conserves b a d ref gone (snd rb)"
    and rest: "\<And>v b1. rb = (Inr v, b1) \<Longrightarrow> conserves b1 (a1 b1) [] ref gone (snd (k v b1))"
  shows "conserves b (a @ (case rb of (Inr _, b1) \<Rightarrow> a1 b1 | _ \<Rightarrow> [])) d ref gone (snd (andthen rb k))"
proof (cases rb)
  case (Pair x b1)
  show ?thesis
  proof (cases x)
    case (Inl e)
    then show ?thesis using first Pair by simp
  next
    case (Inr v)
    then show ?thesis using conserves_trans [OF first [unfolded Pair snd_conv] rest [of v b1]] Pair by simp
  qed
qed

lemma conserves_andthen0:
  assumes "conserves b a d ref gone (snd rb)"
    and "\<And>v b1. rb = (Inr v, b1) \<Longrightarrow> conserves b1 [] [] ref gone (snd (k v b1))"
  shows "conserves b a d ref gone (snd (andthen rb k))"
  using conserves_andthen [OF assms(1), of "\<lambda>_. []" k] assms(2) by (auto split: prod.splits sum.splits)

lemma conserves_then:
  assumes "conserves b a d ref gone (snd rb)"
    and "\<And>v b1. fit b1 \<Longrightarrow> conserves b1 [] [] ref gone (snd (k v b1))"
  shows "conserves b a d ref gone (snd (andthen rb k))"
  using assms(2) conserves_fit [OF assms(1)] by (intro conserves_andthen0 [OF assms(1)]) simp

lemma buf_flush_conserves:
  assumes "wf_engine eng" and "fit b" and "list_all sql_sane (buffer b @ flush_hears eng arr b)"
    and "\<And>t. refused (\<lambda>s. sql_ready (sq_sql s)) (sqlite_store_many eng) t \<Longrightarrow> ref t"
  shows "conserves b (flush_hears eng arr b) [] ref gone (snd (buf_flush (sqlite_ops eng env) locked arr b))"
    and "conserves b (flush_hears eng arr b) [] ref gone (snd (buf_flush_private (sqlite_store_many eng) raising arr b))"
proof -
  note flush = conserves_flush [OF assms, where gone = gone]
  show priv: "conserves b (flush_hears eng arr b) [] ref gone (snd (buf_flush_private (sqlite_store_many eng) raising arr b))"
    for raising
    using flush conserves_refl [OF assms(2), of ref gone] by (simp add: buf_flush_private_def mutation_def)
  have "conserves b (flush_hears eng arr b) [] ref gone (snd (if locked then flush_locked (sqlite_store_many eng) True arr b
      else buf_flush_private (sqlite_store_many eng) True arr b))"
    using flush priv by simp
  then show "conserves b (flush_hears eng arr b) [] ref gone (snd (buf_flush (sqlite_ops eng env) locked arr b))"
    unfolding buf_flush_def snd_wrapped sqlite_ops_simps
  proof (rule conserves_andthen0)
    fix v :: unit and b1
    assume "(if locked then flush_locked (sqlite_store_many eng) True arr b
      else buf_flush_private (sqlite_store_many eng) True arr b) = (Inr v, b1)"
    then have "fit b1" using conserves_fit [OF flush [where raising = True]] conserves_fit [OF priv [where raising = True]] by (auto split: if_splits)
    then show "conserves b1 [] [] ref gone (snd (Inr (), restart_timer b1))" by (simp add: conserves_restart)
  qed
qed

lemma flush_conserves_then:
  assumes rb: "conserves b hs [] ref gone (snd rb)" and wf: "wf_engine eng"
    and mild: "\<And>s. sql_ready (sq_sql s) \<Longrightarrow> mild f gone s"
    and k: "\<And>v b1. conserves b1 (heard b1 arriving) [] ref gone (snd (await_backing f arriving b1)) \<Longrightarrow>
      conserves b1 (heard b1 arriving) [] ref gone (snd (k v b1))"
  shows "conserves b (hs @ hears_after rb arriving) [] ref gone (snd (andthen rb k))"
proof -
  have "conserves b (hs @ (case rb of (Inr _, b1) \<Rightarrow> heard b1 arriving | _ \<Rightarrow> [])) [] ref gone (snd (andthen rb k))"
  proof (rule conserves_andthen [OF rb])
    fix v b1
    assume "rb = (Inr v, b1)"
    then have "fit b1" using conserves_fit [OF rb] by simp
    then have "conserves b1 [] [] ref gone (snd (on_backing f b1))"
      using mild by (intro conserves_mild) (simp_all add: fit_def)
    from conserves_await [OF this, of arriving]
    show "conserves b1 (heard b1 arriving) [] ref gone (snd (k v b1))" by (intro k) simp
  qed
  then show ?thesis by (auto simp: hears_after_def split: prod.splits sum.splits)
qed

lemma evict_conserves:
  assumes "wf_engine eng" and "fit b"
    and gone: "\<And>t. \<not> dry_run \<Longrightarrow> time_of t < instant cutoff \<Longrightarrow> gone t"
  shows "conserves b (heard b arriving) [] ref gone (snd (evict_locked (sqlite_ops eng env) cutoff dry_run arriving b))"
proof -
  let ?f = "\<lambda>s. op_evict_older_than (sqlite_ops eng env) s cutoff dry_run"
  have ready: "sql_ready (sq_sql (backing b))" using assms(2) by (simp add: fit_def)
  have "conserves b [] [] ref gone (snd (on_backing ?f b))"
    using mild_ops(7) [OF ready assms(1)] gone by (intro conserves_mild [OF assms(2)]) blast
  from conserves_await [OF this, of arriving]
  have "conserves b (heard b arriving) [] ref gone (snd (await_backing ?f arriving b))" by simp
  then show ?thesis
    unfolding evict_locked_def
  proof (rule conserves_andthen0)
    fix n b1
    assume "await_backing ?f arriving b = (Inr n, b1)"
    with conserves_fit [OF \<open>conserves b (heard b arriving) [] ref gone (snd (await_backing ?f arriving b))\<close>]
    have fit: "fit b1" by simp
    note same = conserves_refl [OF fit, of ref gone]
    have pruned: "conserves b1 [] [] ref gone (b1\<lparr>buffer := kept\<rparr>)"
      if kept: "filter_res (\<lambda>t. dt_le cutoff (timestamp t)) (buffer b1) = Inr kept" and "\<not> dry_run" for kept
    proof -
      have "kept = filter (\<lambda>t. instant cutoff \<le> time_of t) ts"
        if "filter_res (\<lambda>t. dt_le cutoff (timestamp t)) ts = Inr kept" for ts
        using that by (induction ts arbitrary: kept) (auto simp: bind_res_Inr_conv dt_le_def split: if_splits)
      from this [OF kept] show ?thesis
        using conserves_filter [OF fit, of "\<lambda>t. instant cutoff \<le> time_of t" gone ref] gone \<open>\<not> dry_run\<close> by simp
    qed
    show "conserves b1 [] [] ref gone (snd (case filter_res (\<lambda>t. dt_less (timestamp t) cutoff) (buffer b1) of
        Inl e \<Rightarrow> (Inl e, b1)
      | Inr old \<Rightarrow>
          if dry_run then (Inr (n + int (length old)), b1)
          else (case filter_res (\<lambda>t. dt_le cutoff (timestamp t)) (buffer b1) of
                  Inl e \<Rightarrow> (Inl e, b1)
                | Inr kept \<Rightarrow> (Inr (n + int (length old)), b1\<lparr>buffer := kept\<rparr>))))"
      using same pruned by (auto split: sum.split)
  qed
qed

lemma close_conserves:
  assumes "wf_engine eng" and "fit b" and "list_all sql_sane (buffer b)"
    and ref: "\<And>t. refused (\<lambda>s. sql_ready (sq_sql s)) (sqlite_store_many eng) t \<Longrightarrow> ref t"
    and gone: "\<And>t. \<not> initialized b \<Longrightarrow> gone t"
  shows "conserves b [] [] ref gone (snd (buf_close (sqlite_ops eng env) b))"
proof -
  let ?ops = "sqlite_ops eng env" and ?b0 = "b\<lparr>closing := True\<rparr>"
  let ?r = "if \<not> writes_allowed ?b0 then buf_end_backup ?ops [] ?b0 else (Inr (), ?b0)"
  have c0: "conserves b [] [] ref gone ?b0" using assms(2) by (intro conserves_same) simp_all
  have fit0: "fit ?b0" by (rule conserves_fit [OF c0])
  have "conserves ?b0 [] [] ref gone (snd ?r) \<and> initialized (snd ?r) = initialized b"
  proof (cases "writes_allowed b")
    case True
    then show ?thesis using conserves_refl [OF fit0] by simp
  next
    case False
    let ?b1 = "snd (on_backing (op_end_backup ?ops) ?b0)"
    have c: "conserves ?b0 [] [] ref gone ?b1"
      using mild_ops(5) assms(1) fit0 by (intro conserves_mild [OF fit0]) (simp add: fit_def)
    have "conserves ?b1 [] [] ref gone (?b1\<lparr>writes_allowed := True\<rparr>)"
      using conserves_fit [OF c] by (intro conserves_same) simp_all
    with conserves_trans [OF c this] False show ?thesis
      by (simp add: buf_end_backup_def await_backing_def arrive_def snd_on_backing split: prod.split)
        (auto simp: on_backing_def split: prod.splits)
  qed
  note first = conserves_trans [OF c0 this [THEN conjunct1], unfolded append_Nil]
  have init: "initialized (snd ?r) = initialized b" using \<open>conserves ?b0 [] [] ref gone (snd ?r) \<and> _\<close> by simp
  show ?thesis
    unfolding buf_close_def close_locked_def Let_def snd_wrapped
  proof (rule conserves_andthen0 [OF first])
    fix v b1
    assume r: "?r = (Inr v, b1)"
    let ?b2 = "b1\<lparr>flush_task := None\<rparr>"
    have c1: "conserves b [] [] ref gone ?b2"
      using conserves_trans [OF first conserves_same, of ?b2] conserves_fit [OF first] r by simp
    have sane: "list_all sql_sane (buffer ?b2)" using conserves_sane [OF c1, of sql_sane] assms(3) by simp
    have c2: "conserves ?b2 [] [] ref gone (snd (if initialized ?b2 then flush_locked (op_store_many ?ops) True [] ?b2
        else (Inr (), ?b2\<lparr>buffer := []\<rparr>)))"
    proof (cases "initialized ?b2")
      case True
      have "flush_hears eng [] ?b2 = []" by (simp add: flush_hears_def arrivals_def)
      with conserves_flush [OF assms(1) conserves_fit [OF c1], of "[]" ref gone True] sane ref True show ?thesis by simp
    next
      case False
      then have "\<not> initialized b" using r init by simp
      with False conserves_empty [OF conserves_fit [OF c1]] gone show ?thesis by simp
    qed
    have c3: "conserves b3 [] [] ref gone (snd (on_backing (op_close ?ops) b3))" if "fit b3" for b3
      using mild_ops(2) assms(1) that by (intro conserves_mild) (auto simp: fit_def)
    have "conserves ?b2 [] [] ref gone (snd (andthen (if initialized ?b2 then flush_locked (op_store_many ?ops) True [] ?b2
        else (Inr (), ?b2\<lparr>buffer := []\<rparr>)) (\<lambda>_ b. on_backing (op_close ?ops) b)))"
      using conserves_fit [OF c2] by (intro conserves_andthen0 [OF c2] c3) simp
    moreover have "conserves b1 [] [] ref gone ?b2"
      using conserves_fit [OF first] r by (intro conserves_same) simp_all
    ultimately show "conserves b1 [] [] ref gone (snd (andthen (if initialized ?b2 then flush_locked (op_store_many ?ops) True [] ?b2
        else (Inr (), ?b2\<lparr>buffer := []\<rparr>)) (\<lambda>_ b. on_backing (op_close ?ops) b)))"
      using conserves_trans by fastforce
  qed
qed

lemma read_conserves:
  assumes "conserves b a d ref gone (snd rb)"
  shows "conserves b a d ref gone (snd (andthen rb (\<lambda>_ b. (g b, b))))"
  by (rule conserves_andthen0 [OF assms]) (use conserves_refl conserves_fit [OF assms] in auto)

lemma store_many_direct:
  assumes "wf_engine eng" and "sql_ready (sq_sql s)" and "list_all sql_sane ts"
    and "fst (sqlite_store_many eng s ts) = Inr u"
  shows "sql_ready (sq_sql (snd (sqlite_store_many eng s ts))) \<and>
    contents (sq_sql (snd (sqlite_store_many eng s ts))) = contents (sq_sql s) @ map stored_form ts"
proof -
  have d: "documented_engine eng" using assms(1) by unfold_locales
  have "sqlite_store_many eng s ts = (Inr (), snd (sqlite_store_many eng s ts))"
    using assms(4) by (cases "sqlite_store_many eng s ts") simp
  from documented_engine.sqlite_store [OF d assms(2,3) this] show ?thesis by simp
qed

lemma store_many_refused:
  assumes "wf_engine eng" and "fst (sqlite_store_many eng s ts) = Inl e"
  shows "snd (sqlite_store_many eng s ts) = s"
proof -
  have d: "documented_engine eng" using assms(1) by unfold_locales
  show ?thesis by (rule documented_engine.sqlite_refuses [OF d assms(2)])
qed

lemma perform_conserves:
  assumes wf: "wf_engine eng" and fit: "fit b"
    and sane: "list_all sql_sane (buffer b @ hears (eng, env, c) b @ writes (eng, env, c) b)"
    and ref: "\<And>t. refused (\<lambda>s. sql_ready (sq_sql s)) (sqlite_store_many eng) t \<Longrightarrow> ref t"
    and gone: "\<And>t. deletes (eng, env, c) b t \<Longrightarrow> gone t"
  shows "conserves b (hears (eng, env, c) b) (writes (eng, env, c) b) ref gone (perform (eng, env, c) b)"
proof -
  let ?ops = "sqlite_ops eng env"
  have ready: "sql_ready (sq_sql (backing b))" using fit by (simp add: fit_def)
  note same = conserves_refl [OF fit, of ref gone]
  have flush: "conserves b (flush_hears eng arr b) [] ref gone (snd (buf_flush ?ops locked arr b))"
    "conserves b (flush_hears eng arr b) [] ref gone (snd (buf_flush_private (sqlite_store_many eng) raising arr b))"
    "conserves b (flush_hears eng arr b) [] ref gone (snd (flush_locked (sqlite_store_many eng) raising arr b))"
    if "list_all sql_sane (buffer b @ flush_hears eng arr b)" for arr locked raising
    by (rule buf_flush_conserves(1) [OF wf fit that], erule ref)
      (rule buf_flush_conserves(2) [OF wf fit that], erule ref,
       rule conserves_flush [OF wf fit that], erule ref)
  have mild_await: "conserves b (heard b ts) [] ref gone (snd (await_backing f ts b))" if "mild f gone (backing b)"
    for f :: "sqlite_store \<Rightarrow> (exc + unit) \<times> sqlite_store" and ts
    using conserves_await [OF conserves_mild [OF fit that, where ref = ref], of ts] by simp
  show ?thesis
  proof (cases c)
    case (Store t)
    have "perform (eng, env, c) b = arrive b [t]" by (simp add: Store buf_store_def arrive_def)
    then show ?thesis using conserves_arrive [OF fit, of "[t]"] by (simp add: Store)
  next
    case (Flush arr)
    then show ?thesis using flush(1) sane by simp
  next
    case (Tick arr)
    let ?p = "buf_flush_private (sqlite_store_many eng) False arr b"
    have "perform (eng, env, c) b = (if closing b then b else snd ?p)"
      by (auto simp: Tick flush_loop_turn_def split: prod.split sum.split)
    then show ?thesis using flush(2) [of arr] sane same by (auto simp: Tick)
  next
    case (Query q flush_first arr)
    show ?thesis
    proof (cases flush_first)
      case True
      with flush(1) sane show ?thesis by (simp add: Query buf_query_def read_conserves)
    next
      case False
      with same show ?thesis by (simp add: Query buf_query_def)
    qed
  next
    case (LastUnique arr)
    with flush(1) sane show ?thesis by (simp add: buf_get_last_unique_def read_conserves)
  next
    case (Stats arr)
    with flush(1) sane show ?thesis by (simp add: buf_get_stats_def read_conserves)
  next
    case (EvictOlderThan cutoff dry_run arriving)
    have "conserves b (heard b arriving) [] ref gone (snd (evict_locked ?ops cutoff dry_run arriving b))" if "gate_open b"
      using that gone by (intro evict_conserves [OF wf fit]) (simp add: EvictOlderThan)
    then show ?thesis using same by (simp add: EvictOlderThan buf_evict_older_than_def gate_at_once)
  next
    case (EvictExpired dry_run arriving)
    have exp: "op_expiry_cutoff ?ops = (\<lambda>s. sql_expiry_cutoff (env_now env) (sq_sql s))" by (simp add: sqlite_ops_def)
    show ?thesis
    proof (cases "sql_expiry_cutoff (env_now env) (sq_sql (backing b))")
      case (Inl e)
      then show ?thesis using same by (simp add: EvictExpired buf_evict_expired_def gate_at_once expire_locked_def exp)
    next
      case (Inr co)
      show ?thesis
      proof (cases co)
        case None
        with Inr show ?thesis
          using same by (simp add: EvictExpired buf_evict_expired_def gate_at_once expire_locked_def exp)
      next
        case (Some cutoff)
        have "conserves b (heard b arriving) [] ref gone (snd (evict_locked ?ops cutoff dry_run arriving b))" if "gate_open b"
          using that gone Inr Some by (intro evict_conserves [OF wf fit]) (simp add: EvictExpired)
        with Inr Some show ?thesis
          using same by (simp add: EvictExpired buf_evict_expired_def gate_at_once expire_locked_def exp)
      qed
    qed
  next
    case (Clear arriving)
    have "conserves b (heard b arriving) [] ref gone (snd (clear_locked ?ops arriving b))" if "gate_open b"
    proof -
      let ?b = "b\<lparr>buffer := []\<rparr>"
      have g: "gone t" for t using gone that by (simp add: Clear)
      have c: "conserves b [] [] ref gone ?b" by (rule conserves_empty [OF fit g])
      have "conserves ?b [] [] ref gone (snd (on_backing (op_clear ?ops) ?b))"
        using mild_ops(6) [OF _ wf] g ready by (intro conserves_mild [OF conserves_fit [OF c]]) simp
      from conserves_trans [OF c conserves_await [OF this, of arriving]]
      show ?thesis by (simp add: clear_locked_def)
    qed
    then show ?thesis using same by (simp add: Clear buf_clear_def gate_at_once)
  next
    case (Optimize arr arriving)
    have "conserves b (flush_hears eng arr b @ hears_after (buf_flush ?ops True arr b) arriving) [] ref gone
      (snd (optimize_locked ?ops arr arriving b))" if "gate_open b"
      unfolding optimize_locked_def using sane that mild_ops(3) [OF _ wf]
      by (intro flush_conserves_then [OF flush(1) wf]) (simp_all add: Optimize)
    then show ?thesis using same by (simp add: Optimize buf_optimize_def gate_at_once)
  next
    case (Initialize arriving)
    note aw = mild_await [OF mild_ops(1) [OF ready wf], of arriving]
    have "conserves b (heard b arriving) [] ref gone (snd (andthen (await_backing (op_initialize ?ops) arriving b)
      (\<lambda>_ b. (Inr (), b\<lparr>initialized := True\<rparr>))))"
      by (intro conserves_then [OF aw]) (simp add: conserves_same)
    then show ?thesis by (simp add: Initialize buf_initialize_def)
  next
    case Start
    have "conserves b [] [] ref gone (buf_start b)" using fit by (intro conserves_same) (simp_all add: buf_start_def)
    then show ?thesis by (simp add: Start)
  next
    case (BeginBackup arr arriving)
    have "conserves b (flush_hears eng arr b @ hears_after (flush_locked (sqlite_store_many eng) True arr b) arriving) [] ref gone
      (snd (andthen (flush_locked (op_store_many ?ops) True arr b) (\<lambda>_ b.
         andthen (await_backing (op_begin_backup ?ops) arriving b) (\<lambda>_ b. (Inr (), b\<lparr>writes_allowed := False\<rparr>)))))"
      if "gate_open b"
    proof (unfold sqlite_ops_simps, rule flush_conserves_then [OF flush(3) wf])
      show "list_all sql_sane (buffer b @ flush_hears eng arr b)" using sane that by (simp add: BeginBackup)
      show "sql_ready (sq_sql s) \<Longrightarrow> mild (op_begin_backup ?ops) gone s" for s by (rule mild_ops(4) [OF _ wf])
      fix b1
      assume aw: "conserves b1 (heard b1 arriving) [] ref gone (snd (await_backing (op_begin_backup ?ops) arriving b1))"
      show "conserves b1 (heard b1 arriving) [] ref gone (snd (andthen (await_backing (op_begin_backup ?ops) arriving b1)
        (\<lambda>_ b. (Inr (), b\<lparr>writes_allowed := False\<rparr>))))"
        by (intro conserves_then [OF aw]) (simp add: conserves_same)
    qed
    then show ?thesis using same by (simp add: BeginBackup buf_begin_backup_def mutation_def gate_open_def)
  next
    case (EndBackup arriving)
    note aw = mild_await [OF mild_ops(5) [OF ready wf], of arriving]
    have "conserves b (heard b arriving) [] ref gone ((snd (await_backing (op_end_backup ?ops) arriving b))\<lparr>writes_allowed := True\<rparr>)"
      using conserves_trans [OF aw conserves_same [OF conserves_fit [OF aw]]] by simp
    then show ?thesis using same
      by (cases "await_backing (op_end_backup ?ops) arriving b") (simp add: EndBackup buf_end_backup_def)
  next
    case Close
    have "conserves b [] [] ref gone (snd (buf_close ?ops b))"
      using sane gone by (intro close_conserves [OF wf fit _ ref]) (simp_all add: Close)
    then show ?thesis by (simp add: Close)
  next
    case (StoreMany ts arriving)
    have sm: "fst (buf_store_many ?ops ts arriving at_once b) = Some (fst (wrapped (sqlite_store_many eng (backing b) ts)))"
      if "gate_open b" using that
      by (auto simp: buf_store_many_def at_once_def gate_check_def mutation_def gate_open_def wrapped_def await_backing_def
          on_backing_def simp del: sqlite_store_many_simps split: prod.split)
    show ?thesis
    proof (cases "gate_open b \<and> (\<exists>u. fst (sqlite_store_many eng (backing b) ts) = Inr u)")
      case True
      then have wr: "writes (eng, env, c) b = ts" using sm by (auto simp: StoreMany wrapped_def split: prod.splits)
      then have "list_all sql_sane ts" using sane by simp
      with True have ok: "sql_ready (sq_sql (snd (sqlite_store_many eng (backing b) ts)))"
        "contents (sq_sql (snd (sqlite_store_many eng (backing b) ts))) = persisted b @ map stored_form ts"
        using store_many_direct [OF wf ready, of ts] by auto
      have "conserves b [] ts ref gone (b\<lparr>backing := snd (sqlite_store_many eng (backing b) ts)\<rparr>)"
        using fit ok by (intro conservesI [where w = "[]" and v = ts and ov = "[]" and un = "[]" and pr = "[]" and rm = "[]"])
          (simp_all add: fit_def bounded_def)
      then have "conserves b [] ts ref gone (snd (on_backing (\<lambda>s. sqlite_store_many eng s ts) b))"
        by (simp add: snd_on_backing)
      from conserves_await [OF this, of arriving] True wr show ?thesis
        by (simp add: StoreMany buf_store_many_def gate_at_once)
    next
      case False
      have wr: "writes (eng, env, c) b = []"
        using False sm
        by (cases "gate_open b") (auto simp: StoreMany buf_store_many_def at_once_def gate_check_def mutation_def gate_open_def
          wrapped_def split: prod.splits sum.splits)
      show ?thesis
      proof (cases "gate_open b")
        case True
        with False have "snd (sqlite_store_many eng (backing b) ts) = backing b"
          using store_many_refused [OF wf, of "backing b" ts] by (cases "fst (sqlite_store_many eng (backing b) ts)") auto
        then have "conserves b (heard b arriving) [] ref gone (snd (await_backing (\<lambda>s. sqlite_store_many eng s ts) arriving b))"
          using ready by (intro mild_await mild_same) simp_all
        with True wr show ?thesis by (simp add: StoreMany buf_store_many_def gate_at_once)
      next
        case False
        with same wr show ?thesis by (simp add: StoreMany buf_store_many_def gate_at_once)
      qed
    qed
  qed
qed

section \<open>A whole life\<close>

lemma life_conserves:
  assumes "\<forall>(eng, env, c) \<in> set ms. wf_engine eng" and "fit b"
    and "list_all sql_sane (buffer b @ life_hears ms b @ life_writes ms b)"
  shows "conserves b (life_hears ms b) (life_writes ms b) (refused_by (fst ` set ms)) (life_deletes ms b) (life ms b)"
  using assms
proof (induction ms arbitrary: b)
  case Nil
  then show ?case by (simp add: conserves_refl)
next
  case (Cons m ms)
  obtain eng env c where m: "m = (eng, env, c)" by (cases m)
  let ?ref = "refused_by (fst ` set (m # ms))" and ?gone = "life_deletes (m # ms) b"
  have sane: "list_all sql_sane (buffer b @ hears m b @ writes m b)" using Cons.prems(3) by simp
  have first: "conserves b (hears m b) (writes m b) ?ref ?gone (perform m b)"
    unfolding m using Cons.prems(1,2) sane
    by (intro perform_conserves) (auto simp: m refused_by_def)
  have "list_all sql_sane (buffer (perform m b))"
    using conserves_sane [OF first, of sql_sane] sane by simp
  then have "conserves (perform m b) (life_hears ms (perform m b)) (life_writes ms (perform m b))
      (refused_by (fst ` set ms)) (life_deletes ms (perform m b)) (life ms (perform m b))"
    using Cons.prems(1,3) conserves_fit [OF first] by (intro Cons.IH) auto
  then have "conserves (perform m b) (life_hears ms (perform m b)) (life_writes ms (perform m b))
      ?ref ?gone (life ms (perform m b))"
    by (rule conserves_mono) (auto simp: refused_by_def)
  from conserves_trans [OF first this] show ?case
    by (simp only: life.simps life_hears.simps life_writes.simps)
qed

text \<open>A database in order refuses no telegram that can be encoded.\<close>

lemma refused_poisoned:
  assumes "\<forall>eng \<in> engs. wf_engine eng \<and> accepting eng" and "refused_by engs t" and "sql_sane t"
  shows "sql_poisoned t"
proof (rule ccontr)
  assume ok: "\<not> sql_poisoned t"
  obtain eng s e where r: "wf_engine eng" "accepting eng" "sql_ready (sq_sql s)"
    "fst (wrapped (sqlite_store_many eng s [t])) = Inl e"
    using assms(1,2) by (auto simp: refused_by_def refused_def)
  have h: "healthy_engine eng" using r(1,2) by unfold_locales
  from healthy_engine.sqlite_accepts [OF h r(3), of "[t]"] assms(3) ok r(4) show False
    by (auto simp: wrapped_def simp del: sqlite_store_many_simps split: prod.splits)
qed

end
