(* ===== verification/BackupGate.thy ===== *)
theory BackupGate
  imports BufferLife
begin

text \<open>
  The tasks of a buffered SQLite store (src/knx_telegram_store/buffered.py) as an interleaving of
  atomic steps: a task waits for the flag \<open>_writes_allowed\<close>, waits for the mutation lock, works
  under it and releases it. Between any two steps of one task the others run. \<open>initialize\<close>,
  \<open>end_backup\<close>, \<open>store\<close> and the start of \<open>close\<close> take no lock. What a task does under the lock is
  one step, but for \<open>begin_backup\<close>, which awaits the backing store between its flush and the moment
  it clears the flag.
\<close>

section \<open>The tasks\<close>

datatype phase =
    Idle
  | AtFlag call
  | AtLock call
  | Locked call
  | Preparing "stored_telegram list"
  | Ending bool "stored_telegram list"

record world =
  shared :: "sqlite_store buffered"
  lock_owner :: "nat option"
  task :: "nat \<Rightarrow> phase"

definition world_init :: "sqlite_store buffered \<Rightarrow> world" where
  "world_init b = \<lparr>shared = b, lock_owner = None, task = \<lambda>_. Idle\<rparr>"

definition goto :: "nat \<Rightarrow> phase \<Rightarrow> world \<Rightarrow> world" where
  "goto i p w = w\<lparr>task := (task w)(i := p)\<rparr>"

text \<open>The operations behind the write gate, and the others that take the mutation lock.\<close>

fun gated :: "call \<Rightarrow> bool" where
  "gated (StoreMany ts arriving) = True"
| "gated (EvictOlderThan cutoff dry_run arriving) = True"
| "gated (EvictExpired dry_run arriving) = True"
| "gated (Clear arriving) = True"
| "gated (Optimize arr arriving) = True"
| "gated _ = False"

fun locking :: "call \<Rightarrow> bool" where
  "locking (Flush arr) = True"
| "locking (Tick arr) = True"
| "locking (Query q flush_first arr) = flush_first"
| "locking (LastUnique arr) = True"
| "locking (Stats arr) = True"
| "locking (BeginBackup arr arriving) = True"
| "locking _ = False"

text \<open>A task that gets the lock: it works, is sent back to wait for the flag, or fails.\<close>

definition take_lock :: "nat \<Rightarrow> call \<Rightarrow> world \<Rightarrow> world" where
  "take_lock i c w =
     (let b = shared w;
          locked = goto i (Locked c) (w\<lparr>lock_owner := Some i\<rparr>)
      in if c = Close then locked
         else if gated c then
           (case gate_check b of
              Inl e \<Rightarrow> goto i Idle w
            | Inr allowed \<Rightarrow> if allowed then locked else goto i (AtFlag c) w)
         else if closing b then goto i Idle w else locked)"

text \<open>What it does there, with the lock held.\<close>

fun under_lock :: "sqlite_store store_ops \<Rightarrow> call \<Rightarrow> sqlite_store buffered \<Rightarrow> sqlite_store buffered" where
  "under_lock ops (StoreMany ts arriving) b = snd (await_backing (\<lambda>s. op_store_many ops s ts) arriving b)"
| "under_lock ops (EvictOlderThan cutoff dry_run arriving) b = snd (evict_locked ops cutoff dry_run arriving b)"
| "under_lock ops (EvictExpired dry_run arriving) b = snd (expire_locked ops dry_run arriving b)"
| "under_lock ops (Clear arriving) b = snd (clear_locked ops arriving b)"
| "under_lock ops (Optimize arr arriving) b = snd (optimize_locked ops arr arriving b)"
| "under_lock ops (Flush arr) b = snd (buf_flush ops True arr b)"
| "under_lock ops (Query q flush_first arr) b = snd (buf_flush ops True arr b)"
| "under_lock ops (LastUnique arr) b = snd (buf_flush ops True arr b)"
| "under_lock ops (Stats arr) b = snd (buf_flush ops True arr b)"
| "under_lock ops (Tick arr) b = snd (flush_locked (op_store_many ops) False arr b)"
| "under_lock ops Close b = snd (close_locked ops b)"
| "under_lock ops _ b = b"

definition release :: "nat \<Rightarrow> sqlite_store buffered \<Rightarrow> world \<Rightarrow> world" where
  "release i b w = goto i Idle (w\<lparr>shared := b, lock_owner := None\<rparr>)"

text \<open>\<open>begin_backup\<close> before and after the backing store is awaited.\<close>

definition begin_flush :: "sqlite_store store_ops \<Rightarrow> nat \<Rightarrow> stored_telegram list list \<Rightarrow> stored_telegram list \<Rightarrow> world \<Rightarrow> world" where
  "begin_flush ops i arr arriving w =
     (if \<not> writes_allowed (shared w) then release i (shared w) w
      else case flush_locked (op_store_many ops) True arr (shared w) of
             (Inl e, b) \<Rightarrow> release i b w
           | (Inr _, b) \<Rightarrow> goto i (Preparing arriving) (w\<lparr>shared := b\<rparr>))"

definition begin_done :: "sqlite_store store_ops \<Rightarrow> nat \<Rightarrow> stored_telegram list \<Rightarrow> world \<Rightarrow> world" where
  "begin_done ops i arriving w =
     (case await_backing (op_begin_backup ops) arriving (shared w) of
        (Inl e, b) \<Rightarrow> release i b w
      | (Inr _, b) \<Rightarrow> release i (b\<lparr>writes_allowed := False\<rparr>) w)"

text \<open>
  \<open>end_backup\<close> after the backing store is awaited; for_close says that \<open>close()\<close> called it, which then
  stops the periodic task and waits for the lock.
\<close>

definition wait_to_close :: "nat \<Rightarrow> world \<Rightarrow> world" where
  "wait_to_close i w = goto i (AtLock Close) (w\<lparr>shared := (shared w)\<lparr>flush_task := None\<rparr>\<rparr>)"

definition end_done :: "sqlite_store store_ops \<Rightarrow> nat \<Rightarrow> bool \<Rightarrow> stored_telegram list \<Rightarrow> world \<Rightarrow> world" where
  "end_done ops i for_close arriving w =
     (case await_backing (op_end_backup ops) arriving (shared w) of
        (r, b) \<Rightarrow>
          let w = w\<lparr>shared := b\<lparr>writes_allowed := True\<rparr>\<rparr> in
          (case r of
             Inl e \<Rightarrow> goto i Idle w
           | Inr _ \<Rightarrow> if for_close then wait_to_close i w else goto i Idle w))"

definition close_start :: "nat \<Rightarrow> world \<Rightarrow> world" where
  "close_start i w =
     (let w = w\<lparr>shared := (shared w)\<lparr>closing := True\<rparr>\<rparr> in
      if \<not> writes_allowed (shared w) then goto i (Ending True []) w else wait_to_close i w)"

section \<open>The steps\<close>

text \<open>Each step is marked with whether it is an \<open>initialize\<close>, which no lock holds off.\<close>

inductive task_step :: "bool \<Rightarrow> world \<Rightarrow> world \<Rightarrow> bool" where
  calls_gated: "task w i = Idle \<Longrightarrow> gated c \<Longrightarrow> task_step False w (goto i (AtFlag c) w)"
| sees_flag: "task w i = AtFlag c \<Longrightarrow> writes_allowed (shared w) \<Longrightarrow> task_step False w (goto i (AtLock c) w)"
| calls_locking: "task w i = Idle \<Longrightarrow> locking c \<Longrightarrow> task_step False w (goto i (AtLock c) w)"
| gets_lock: "task w i = AtLock c \<Longrightarrow> lock_owner w = None \<Longrightarrow> task_step False w (take_lock i c w)"
| works: "task w i = Locked c \<Longrightarrow> \<forall>arr arriving. c \<noteq> BeginBackup arr arriving \<Longrightarrow>
    task_step False w (release i (under_lock (sqlite_ops eng env) c (shared w)) w)"
| begins: "task w i = Locked (BeginBackup arr arriving) \<Longrightarrow>
    task_step False w (begin_flush (sqlite_ops eng env) i arr arriving w)"
| prepared: "task w i = Preparing arriving \<Longrightarrow>
    task_step False w (begin_done (sqlite_ops eng env) i arriving w)"
| ends: "task w i = Idle \<Longrightarrow> \<not> writes_allowed (shared w) \<Longrightarrow> task_step False w (goto i (Ending False arriving) w)"
| ended: "task w i = Ending for_close arriving \<Longrightarrow>
    task_step False w (end_done (sqlite_ops eng env) i for_close arriving w)"
| closes: "task w i = Idle \<Longrightarrow> task_step False w (close_start i w)"
| stores: "task_step False w (w\<lparr>shared := snd (buf_store (shared w) t)\<rparr>)"
| starts: "task_step False w (w\<lparr>shared := buf_start (shared w)\<rparr>)"
| initializes: "task_step True w (w\<lparr>shared := snd (buf_initialize (sqlite_ops eng env) arriving (shared w))\<rparr>)"

inductive_cases task_stepE [consumes 1, case_names calls_gated sees_flag calls_locking gets_lock works begins
  prepared ends ended closes stores starts initializes]: "task_step l w w'"

abbreviation any_step :: "world \<Rightarrow> world \<Rightarrow> bool" where
  "any_step w w' \<equiv> \<exists>l. task_step l w w'"

text \<open>The steps taken while a backup is in progress, the one that ends it included.\<close>

definition backup_step :: "bool set \<Rightarrow> world \<Rightarrow> world \<Rightarrow> bool" where
  "backup_step marks w w' \<longleftrightarrow> \<not> writes_allowed (shared w) \<and> (\<exists>l \<in> marks. task_step l w w')"

section \<open>The lock and the flag\<close>

text \<open>
  Whoever works under the lock owns it, and while the flag is cleared nobody behind the write gate
  does.
\<close>

definition gate_inv :: "world \<Rightarrow> bool" where
  "gate_inv w \<longleftrightarrow>
     (\<forall>i c. task w i = Locked c \<longrightarrow> lock_owner w = Some i) \<and>
     (\<forall>i a. task w i = Preparing a \<longrightarrow> lock_owner w = Some i) \<and>
     (\<not> writes_allowed (shared w) \<longrightarrow> (\<forall>i c. task w i = Locked c \<longrightarrow> \<not> gated c))"

lemma task_goto [simp]: "task (goto i p w) = (task w)(i := p)" "shared (goto i p w) = shared w"
  "lock_owner (goto i p w) = lock_owner w"
  by (simp_all add: goto_def)

lemma release_simps [simp]: "task (release i b w) = (task w)(i := Idle)" "shared (release i b w) = b"
  "lock_owner (release i b w) = None"
  by (simp_all add: release_def)

text \<open>No work under the lock, nor anything that arrives, clears the flag.\<close>

lemma flag_store: "writes_allowed (snd (buf_store_sync b t)) = writes_allowed b"
  by (auto simp: buf_store_sync_def Let_def split: list.split)

lemma flag_arrive: "writes_allowed (arrive b ts) = writes_allowed b"
  by (induction ts arbitrary: b) (simp_all add: arrive_def flag_store)

lemma flag_await: "writes_allowed (snd (await_backing f ts b)) = writes_allowed b"
  by (simp add: await_backing_def on_backing_def flag_arrive split: prod.split)

lemma flag_andthen:
  assumes "writes_allowed (snd rb) = w" and "\<And>v b. writes_allowed b = w \<Longrightarrow> writes_allowed (snd (k v b)) = w"
  shows "writes_allowed (snd (andthen rb k)) = w"
  using assms by (cases rb; cases "fst rb") auto

lemma flag_flush: "writes_allowed (snd (flush_locked sm raising arr b)) = writes_allowed b"
proof -
  have aw: "writes_allowed b' = writes_allowed b" if "await_store_many sm b batch ts = (r, b')" for b b' batch ts r
    using that by (auto simp: await_store_many_def on_backing_def wrapped_def flag_arrive split: prod.splits)
  have rq: "writes_allowed (requeue b ts) = writes_allowed b" for b ts by (simp add: requeue_def Let_def)
  have out: "snd (flush_outcome raising e b) = b" for e b by (simp add: flush_outcome_def)
  have one: "writes_allowed (snd (store_one_by_one sm raising b ts arr)) = writes_allowed b" for b ts arr
  proof (induction ts arbitrary: b arr)
    case (Cons t ts)
    obtain r b1 where "await_store_many sm b [t] (next_arrivals arr) = (r, b1)"
      by (cases "await_store_many sm b [t] (next_arrivals arr)")
    with aw [OF this] Cons show ?case by (auto simp: rq out split: sum.split)
  qed simp
  obtain r b1 where "await_store_many sm (b\<lparr>buffer := []\<rparr>) (buffer b) (next_arrivals arr) = (r, b1)"
    by (cases "await_store_many sm (b\<lparr>buffer := []\<rparr>) (buffer b) (next_arrivals arr)")
  with aw [OF this] show ?thesis
    by (auto simp: flush_locked_def Let_def one rq out split: sum.split)
qed

lemma flag_buf_flush: "writes_allowed (snd (buf_flush ops True arr b)) = writes_allowed b"
  by (simp add: buf_flush_def) (rule flag_andthen, simp_all add: flag_flush restart_timer_def)

lemma flag_evict: "writes_allowed (snd (evict_locked ops cutoff dry_run arriving b)) = writes_allowed b"
  unfolding evict_locked_def by (rule flag_andthen) (simp_all add: flag_await split: sum.split)

lemma flag_close: "writes_allowed (snd (close_locked ops b)) = writes_allowed b"
  unfolding close_locked_def by (rule flag_andthen) (simp_all add: flag_flush snd_on_backing)

lemma flag_under_lock: "writes_allowed (snd' b) = writes_allowed b" if "snd' = under_lock ops c" for snd'
proof (cases c)
  case (Optimize arr arriving)
  then show ?thesis unfolding that
    by (simp add: optimize_locked_def) (rule flag_andthen, simp_all add: flag_buf_flush flag_await)
next
  case (EvictExpired dry_run arriving)
  then show ?thesis unfolding that by (simp add: expire_locked_def flag_evict split: sum.split option.split)
qed (simp_all add: that flag_await flag_evict flag_buf_flush flag_flush flag_close clear_locked_def)

lemma gate_inv_moves:
  assumes "gate_inv w" and "task w i = p" and "\<And>c. p \<noteq> Locked c" and "\<And>a. p \<noteq> Preparing a"
    and "\<And>c. q \<noteq> Locked c" and "\<And>a. q \<noteq> Preparing a"
  shows "gate_inv (goto i q w)"
  using assms by (auto simp: gate_inv_def)

text \<open>The owner releases the lock: nobody else works under it.\<close>

lemma gate_inv_release:
  assumes "gate_inv w" and "lock_owner w = Some i"
  shows "gate_inv (release i b w)"
  using assms by (auto simp: gate_inv_def)

lemma gate_inv_shared:
  assumes "gate_inv w" and "writes_allowed b = writes_allowed (shared w) \<or> writes_allowed b"
  shows "gate_inv (w\<lparr>shared := b\<rparr>)"
  using assms by (auto simp: gate_inv_def)

lemma gate_inv_take_lock:
  assumes "gate_inv w" and "task w i = AtLock c" and "lock_owner w = None"
  shows "gate_inv (take_lock i c w)"
proof -
  have free: "task w j \<noteq> Locked c'" "task w j \<noteq> Preparing a" for j c' a
    using assms(1,3) by (auto simp: gate_inv_def)
  have check: "gate_check (shared w) = Inr True \<Longrightarrow> writes_allowed (shared w)"
    by (auto simp: gate_check_def mutation_def split: if_splits)
  show ?thesis
    using free check assms(1) by (auto simp: take_lock_def Let_def gate_inv_def split: sum.split)
qed

lemma gate_inv_step:
  assumes "task_step l w w'" and inv: "gate_inv w"
  shows "gate_inv w'"
  using assms(1)
proof (cases rule: task_stepE)
  case (calls_gated i c)
  then show ?thesis using gate_inv_moves [OF inv] by simp
next
  case (sees_flag i c)
  then show ?thesis using gate_inv_moves [OF inv] by simp
next
  case (calls_locking i c)
  then show ?thesis using gate_inv_moves [OF inv] by simp
next
  case (gets_lock i c)
  then show ?thesis using gate_inv_take_lock [OF inv] by simp
next
  case (works i c eng env)
  then have "lock_owner w = Some i" using inv by (auto simp: gate_inv_def)
  then show ?thesis unfolding works by (rule gate_inv_release [OF inv])
next
  case (begins i arr arriving eng env)
  then have owner: "lock_owner w = Some i" using inv by (auto simp: gate_inv_def)
  let ?fl = "flush_locked (op_store_many (sqlite_ops eng env)) True arr (shared w)"
  have "gate_inv (goto i (Preparing arriving) (w\<lparr>shared := snd ?fl\<rparr>))"
    using owner gate_inv_shared [OF inv, of "snd ?fl"] begins(3)
    by (auto simp: gate_inv_def flag_flush)
  then show ?thesis
    unfolding begins using gate_inv_release [OF inv owner]
    by (auto simp: begin_flush_def split: prod.split sum.split)
next
  case (prepared i arriving eng env)
  then have "lock_owner w = Some i" using inv by (auto simp: gate_inv_def)
  then show ?thesis
    unfolding prepared using gate_inv_release [OF inv] by (auto simp: begin_done_def split: prod.split sum.split)
next
  case (ends i arriving)
  then show ?thesis using gate_inv_moves [OF inv] by simp
next
  case (ended i for_close arriving eng env)
  have "gate_inv (w\<lparr>shared := b\<lparr>writes_allowed := True\<rparr>\<rparr>)" for b by (rule gate_inv_shared [OF inv]) simp
  moreover have "gate_inv (w\<lparr>shared := b\<lparr>writes_allowed := True, flush_task := None\<rparr>\<rparr>)" for b
    by (rule gate_inv_shared [OF inv]) simp
  ultimately show ?thesis
    unfolding ended using ended(3)
    by (auto simp: end_done_def wait_to_close_def Let_def intro!: gate_inv_moves split: prod.split sum.split)
next
  case (closes i)
  have "gate_inv (w\<lparr>shared := (shared w)\<lparr>closing := True\<rparr>\<rparr>)"
    "gate_inv (w\<lparr>shared := (shared w)\<lparr>closing := True, flush_task := None\<rparr>\<rparr>)"
    by (rule gate_inv_shared [OF inv]; simp)+
  then show ?thesis
    unfolding closes using closes(3) by (auto simp: close_start_def wait_to_close_def Let_def intro!: gate_inv_moves)
next
  case (stores t)
  then show ?thesis using gate_inv_shared [OF inv] by (simp add: buf_store_def flag_store)
next
  case starts
  then show ?thesis using gate_inv_shared [OF inv] by (simp add: buf_start_def)
next
  case (initializes eng env arriving)
  have "writes_allowed (snd (buf_initialize (sqlite_ops eng env) arriving (shared w))) = writes_allowed (shared w)"
    by (simp add: buf_initialize_def) (rule flag_andthen, simp_all add: flag_await)
  then show ?thesis unfolding initializes using gate_inv_shared [OF inv] by simp
qed

lemma gate_inv_init: "gate_inv (world_init b)"
  by (simp add: gate_inv_def world_init_def)

lemma gate_inv_reachable: "any_step\<^sup>*\<^sup>* (world_init b) w \<Longrightarrow> gate_inv w"
  by (induction rule: rtranclp_induct) (auto simp: gate_inv_init intro: gate_inv_step)

section \<open>What a backup sees\<close>

lemma backing_store [simp]: "backing (snd (buf_store_sync b t)) = backing b"
  by (auto simp: buf_store_sync_def Let_def split: list.split)

lemma backing_arrive [simp]: "backing (arrive b ts) = backing b"
  by (induction ts arbitrary: b) (simp_all add: arrive_def)

lemma backing_await [simp]: "backing (snd (await_backing f ts b)) = snd (f (backing b))"
  by (simp add: await_backing_def on_backing_def split: prod.split)

lemma flush_shut: "\<not> writes_allowed b \<Longrightarrow> flush_locked sm raising arr b = (Inr (), b)"
  by (simp add: flush_locked_def)

lemma sql_of_backup_ops:
  "sq_sql (snd (op_begin_backup (sqlite_ops eng env) s)) = sq_sql s"
  "sq_sql (snd (op_end_backup (sqlite_ops eng env) s)) = sq_sql s"
  "sq_sql (snd (op_close (sqlite_ops eng env) s)) = sq_sql s"
  by (auto simp: sqlite_ops_def on_backup_def sqlite_close_def wrapped_def andthen_def split: prod.split sum.split)

text \<open>Work under the lock while the flag is cleared: none that the write gate guards.\<close>

lemma shut_under_lock:
  assumes "\<not> writes_allowed b" and "\<not> gated c"
  shows "sq_sql (backing (under_lock (sqlite_ops eng env) c b)) = sq_sql (backing b)"
proof -
  have "sq_sql (backing (snd (close_locked (sqlite_ops eng env) b))) = sq_sql (backing b)"
    using assms(1) sql_of_backup_ops(3) by (simp add: close_locked_def flush_shut snd_on_backing)
  moreover have "backing (snd (buf_flush (sqlite_ops eng env) True arr b)) = backing b" for arr
    using assms(1) by (simp add: buf_flush_def flush_shut restart_timer_def)
  ultimately show ?thesis using assms by (cases c) (simp_all add: flush_shut)
qed

lemma initialize_contents: "contents (snd (sql_initialize eng s)) = contents s"
  by (auto simp: sql_initialize_def reconcile_last_ga_telegrams_def wrapped_def Let_def bind_res_Inr_conv contents_def
      set_metadata_value_def split: sum.split if_splits)

lemma initialize_persisted:
  "persisted (snd (buf_initialize (sqlite_ops eng env) arriving b)) = persisted b"
proof -
  have "persisted (snd (await_backing (op_initialize (sqlite_ops eng env)) arriving b)) = persisted b"
    by (simp add: sqlite_ops_def snd_on_sql initialize_contents)
  then show ?thesis
    by (cases "await_backing (op_initialize (sqlite_ops eng env)) arriving b")
      (auto simp: buf_initialize_def andthen_def split: sum.split)
qed

lemma backup_step_isolated:
  assumes "task_step l w w'" and inv: "gate_inv w" and shut: "\<not> writes_allowed (shared w)"
  shows "persisted (shared w') = persisted (shared w) \<and>
    (\<not> l \<longrightarrow> sq_sql (backing (shared w')) = sq_sql (backing (shared w)))"
  using assms(1)
proof (cases rule: task_stepE)
  case (gets_lock i c)
  then show ?thesis by (auto simp: take_lock_def Let_def split: sum.split)
next
  case (works i c eng env)
  then have "\<not> gated c" using inv shut by (auto simp: gate_inv_def)
  then show ?thesis unfolding works using shut_under_lock [OF shut] by simp
next
  case (begins i arr arriving eng env)
  then show ?thesis using shut by (simp add: begin_flush_def)
next
  case (prepared i arriving eng env)
  have "sq_sql (backing b) = sq_sql (backing (shared w))"
    if "await_backing (op_begin_backup (sqlite_ops eng env)) arriving (shared w) = (r, b)" for r b
    using backing_await [of "op_begin_backup (sqlite_ops eng env)" arriving "shared w"] sql_of_backup_ops(1) that by simp
  then show ?thesis unfolding prepared by (auto simp: begin_done_def split: prod.split sum.split)
next
  case (ended i for_close arriving eng env)
  have "sq_sql (backing b) = sq_sql (backing (shared w))"
    if "await_backing (op_end_backup (sqlite_ops eng env)) arriving (shared w) = (r, b)" for r b
    using backing_await [of "op_end_backup (sqlite_ops eng env)" arriving "shared w"] sql_of_backup_ops(2) that by simp
  then show ?thesis
    unfolding ended by (auto simp: end_done_def wait_to_close_def Let_def split: prod.split sum.split)
next
  case (closes i)
  then show ?thesis by (simp add: close_start_def wait_to_close_def Let_def)
next
  case (stores t)
  then show ?thesis by (simp add: buf_store_def)
next
  case starts
  then show ?thesis by (simp add: buf_start_def)
next
  case (initializes eng env arriving)
  then show ?thesis by (simp add: initialize_persisted)
qed simp_all

lemma backup_steps_isolated:
  assumes "(backup_step marks)\<^sup>*\<^sup>* w w'" and "gate_inv w"
  shows "gate_inv w' \<and> persisted (shared w') = persisted (shared w) \<and>
    (True \<in> marks \<or> sq_sql (backing (shared w')) = sq_sql (backing (shared w)))"
  using assms
proof (induction rule: rtranclp_induct)
  case (step u v)
  then obtain l where "l \<in> marks" "task_step l u v" "\<not> writes_allowed (shared u)" by (auto simp: backup_step_def)
  note l = this
  have inv: "gate_inv u" using step by simp
  show ?case
    using step gate_inv_step [OF l(2) inv] backup_step_isolated [OF l(2) inv l(3)] l(1) by (cases l) auto
qed simp

end
