(* ===== verification/BufferProperties.thy ===== *)
theory BufferProperties
  imports BackupGate Samples
begin

text \<open>
  What the write buffer guarantees over the SQLite store and over the memory store, and how it
  tells errors of the data from errors of the database.
\<close>

section \<open>A buffer with work to do\<close>

definition calm :: sqlite_env where
  "calm = \<lparr>env_now = Datetime 1702592001000000 (Some 0), env_footprint = Inr None, env_vacuum = None,
     env_refresh = None, env_checkpoint = None, env_connect = None, env_lock = None,
     env_commit = None, env_dispose = None\<rparr>"

text \<open>Nothing goes wrong around the database.\<close>

definition undisturbed :: "sqlite_env \<Rightarrow> bool" where
  "undisturbed env \<longleftrightarrow> env_refresh env = None \<and> env_checkpoint env = None \<and> env_connect env = None \<and>
     env_lock env = None \<and> env_commit env = None \<and> env_dispose env = None"

lemma undisturbed_calm [simp]: "undisturbed calm"
  by (simp add: undisturbed_def calm_def)

definition full_sqlite :: sqlite_store where
  "full_sqlite = (sqlite_init False (Some 30))\<lparr>sq_sql := full_store\<rparr>"

definition busy_buffer :: "sqlite_store buffered" where
  "busy_buffer = (buffered_init full_sqlite 4)\<lparr>
     buffer := [sample 6 ''1/2/3'', poison_sample, sample 7 ''4/5/6''], initialized := True\<rparr>"

lemma busy_buffer_simps [simp]:
  "buffer_ready busy_buffer" "bounded busy_buffer" "writes_allowed busy_buffer" "\<not> closing busy_buffer"
  "initialized busy_buffer" "sq_sql (backing busy_buffer) = full_store"
  "buffer busy_buffer = [sample 6 ''1/2/3'', poison_sample, sample 7 ''4/5/6'']"
  "\<not> backup_in_progress (sq_backup (backing busy_buffer))" "\<not> bk_read_only (sq_backup (backing busy_buffer))"
  "max_buffer_size busy_buffer = 4"
  by (simp_all add: busy_buffer_def buffer_ready_def bounded_def buffered_init_def full_sqlite_def sqlite_init_def)

section \<open>Flushing\<close>

text \<open>
  C13: A flush delivers: on a database in order, every buffered telegram is appended to the store,
  in order and once, but for those that cannot be encoded, which are dropped one by one and do
  not hold up the others; what arrives during the awaited calls is in the buffer afterwards, the
  newest if there are too many.
\<close>

theorem buffered_flush_delivers:
  assumes "wf_engine eng" and "accepting eng" and "buffer_ready b" and "writes_allowed b" and "\<not> closing b"
  shows "\<exists>b'. buf_flush (sqlite_ops eng env) False arr b = (Inr (), b') \<and>
    persisted b' = persisted b @ map stored_form (filter (\<lambda>t. \<not> sql_poisoned t) (buffer b)) \<and>
    buffer b' = take_last (room b) (arrivals (flush_awaits sql_poisoned b) arr) \<and> bounded b'"
proof -

  have h: "healthy_engine eng" using assms(1,2) by unfold_locales
  obtain b1 where b1: "flush_locked (sqlite_store_many eng) True arr b = (Inr (), b1)" "persisted b1 = persisted b @ deliverable (buffer b)"
    "bounded b1" "buffer b1 = take_last (room b) (arrivals (flush_awaits sql_poisoned b) arr)"
    using healthy_engine.sqlite_flush_locked [OF h assms(3,4), of True arr] assms(5) by auto
  then show ?thesis using assms(5)
    by (simp add: buf_flush_def buf_flush_private_def mutation_def wrapped_def restart_timer_def bounded_def deliverable_def)
qed

theorem buffered_flush_delivers_witness:
  "\<exists>b'. buf_flush (sqlite_ops reference_engine calm) False [[sample 8 ''1/2/3''], [], [sample 9 ''1/2/3'']] busy_buffer = (Inr (), b') \<and>
    persisted b' = persisted busy_buffer @ map stored_form (filter (\<lambda>t. \<not> sql_poisoned t) (buffer busy_buffer)) \<and>
    buffer b' = take_last (room busy_buffer)
      (arrivals (flush_awaits sql_poisoned busy_buffer) [[sample 8 ''1/2/3''], [], [sample 9 ''1/2/3'']]) \<and> bounded b'"
  by (rule buffered_flush_delivers [OF wf_reference_engine accepting_reference_engine]) simp_all

text \<open>
  C7: A flush that the database fails loses nothing: the backing store is unchanged, the whole
  batch is back in front of what arrived meanwhile, cut to the newest of the buffer's size, and
  the error is raised or kept back as the caller asked.
\<close>

theorem buffered_flush_gives_back:
  assumes "wf_engine eng" and "bounded b" and "writes_allowed b" and "\<not> closing b" and "buffer b \<noteq> []"
    and "fst (wrapped (sqlite_store_many eng (backing b) (buffer b))) = Inl e" and "\<not> is_data_error e"
  shows "\<exists>b'. buf_flush_private (sqlite_store_many eng) raising arr b =
      (if \<not> is_exception e \<or> raising then Inl e else Inr (), b') \<and>
    backing b' = backing b \<and> bounded b' \<and>
    buffer b' = take_last (room b) (buffer b @ take_last (room b) (next_arrivals arr))"
proof -
  have d: "documented_engine eng" using assms(1) by unfold_locales
  have "wrap_store_errors (fst (sqlite_store_many eng (backing b) (buffer b))) = Inl e"
    using assms(6) by simp
  from documented_engine.sqlite_gives_back [OF d assms(2,3,5) this assms(7), of raising arr] assms(4)
  show ?thesis by (auto simp: buf_flush_private_def mutation_def)
qed

text \<open>The reference engine with a database that is locked.\<close>

definition locked_engine :: sql_engine where
  "locked_engine = reference_engine\<lparr>eng_fail := \<lambda>_ _. Some (raise_exc OperationalError)\<rparr>"

lemma wf_locked_engine: "wf_engine locked_engine"
  using wf_reference_engine by (simp add: locked_engine_def wf_engine_def)

lemma locked_store_many:
  "fst (wrapped (sqlite_store_many locked_engine (backing busy_buffer) (buffer busy_buffer))) =
     Inl (raise_from KnxTelegramStoreException (raise_exc OperationalError))"
proof -
  have "write_batch locked_engine full_store ts = Inl (raise_exc OperationalError)" for ts
    by (simp add: write_batch_def execute_def locked_engine_def)
  then show ?thesis
    by (simp add: sql_store_many_def ensure_writable_def wrap_store_errors_def isinstance_def is_exception_def)
qed

lemma locked_not_data_error: "\<not> is_data_error (raise_from KnxTelegramStoreException (raise_exc OperationalError))"
proof -
  have "data_error_cause True (raise_exc OperationalError) = None"
    by (simp add: data_error_cause_def raise_exc_def data_error_types_def isinstance_def links_def)
  moreover have "\<not> isinstance KnxTelegramStoreException (data_error_types True)"
    by (simp add: isinstance_def data_error_types_def)
  ultimately have "data_error_cause True (raise_from KnxTelegramStoreException (raise_exc OperationalError)) = None"
    using data_error_cause_raise_from [OF wf_raise(1)] by blast
  then show ?thesis by (simp add: is_data_error_def)
qed

theorem buffered_flush_gives_back_witness:
  "\<exists>b'. buf_flush_private (sqlite_store_many locked_engine) False [[sample 8 ''1/2/3'', sample 9 ''1/2/3'']] busy_buffer =
      (if \<not> is_exception (raise_from KnxTelegramStoreException (raise_exc OperationalError)) \<or> False
       then Inl (raise_from KnxTelegramStoreException (raise_exc OperationalError)) else Inr (), b') \<and>
    backing b' = backing busy_buffer \<and> bounded b' \<and>
    buffer b' = take_last (room busy_buffer) (buffer busy_buffer @ take_last (room busy_buffer)
      (next_arrivals [[sample 8 ''1/2/3'', sample 9 ''1/2/3'']]))"
  by (rule buffered_flush_gives_back [OF wf_locked_engine _ _ _ _ locked_store_many locked_not_data_error]) simp_all

text \<open>
  C4: No telegram is lost or stored twice: after any sequence of calls of a buffered SQLite store,
  flushes, batches written past the buffer, evictions, clears, backups, starts and a close, each on
  a database that may refuse any statement and with telegrams arriving while it awaits it, the
  buffer keeps its bound, and the telegrams put into it are, each as often as it was, those in the
  buffer, those written, \<open>w\<close>, and those given up: \<open>ov\<close> on overflow, none unless more were put in
  than there is room for, \<open>un\<close> because a database refused them as data, none that can be encoded
  if the databases refuse nothing, and \<open>pr\<close>, which a call was to delete. Written and buffered ones
  are in the order they came in, and the store holds what it held and the written ones in their
  order, those that \<open>store_many\<close> wrote in between, but for \<open>rm\<close>, which a call was to delete.
\<close>

theorem buffered_conservation:
  assumes "\<forall>(eng, env, c) \<in> set ms. wf_engine eng" and "sql_ready (sq_sql s)" and "1 \<le> n"
    and "list_all sql_sane (life_hears ms (buffered_init s n) @ life_writes ms (buffered_init s n))"
    and "b = life ms (buffered_init s n)"
  shows "int (length (buffer b)) \<le> n \<and>
    (\<exists>w v ov un pr rm.
       subseq (w @ buffer b) (life_hears ms (buffered_init s n)) \<and>
       mset (life_hears ms (buffered_init s n)) = mset (w @ buffer b) + mset (ov @ un @ pr) \<and>
       v \<in> shuffles w (life_writes ms (buffered_init s n)) \<and>
       subseq (persisted b) (contents (sq_sql s) @ map stored_form v) \<and>
       mset (contents (sq_sql s) @ map stored_form v) = mset (persisted b) + mset rm \<and>
       (int (length (life_hears ms (buffered_init s n))) \<le> n \<longrightarrow> ov = []) \<and>
       list_all (refused_by (fst ` set ms)) un \<and>
       ((\<forall>(eng, env, c) \<in> set ms. accepting eng) \<longrightarrow> list_all sql_poisoned un) \<and>
       list_all (life_deletes ms (buffered_init s n)) pr \<and>
       list_all (life_deletes ms (buffered_init s n)) rm)"
proof -
  let ?b0 = "buffered_init s n" and ?acc = "life_hears ms (buffered_init s n)"
  have fit0: "fit ?b0" using assms(2,3) by (simp add: fit_def bounded_def buffered_init_def)
  have fields: "buffer ?b0 = []" "persisted ?b0 = contents (sq_sql s)" "max_buffer_size ?b0 = n"
    by (simp_all add: buffered_init_def)
  have cons: "conserves ?b0 ?acc (life_writes ms ?b0) (refused_by (fst ` set ms)) (life_deletes ms ?b0) b"
    unfolding assms(5) using assms(4) by (intro life_conserves [OF assms(1) fit0]) (simp add: fields)
  then have len: "int (length (buffer b)) \<le> n" by (simp add: conserves_def fit_def bounded_def fields)
  obtain w v ov un pr rm where k: "subseq (w @ buffer b) ?acc"
    "mset ?acc = mset (w @ buffer b) + mset (ov @ un @ pr)" "v \<in> shuffles w (life_writes ms ?b0)"
    "subseq (persisted b) (contents (sq_sql s) @ map stored_form v)"
    "mset (contents (sq_sql s) @ map stored_form v) = mset (persisted b) + mset rm"
    "length ?acc \<le> nat n \<longrightarrow> ov = []"
    "list_all (refused_by (fst ` set ms)) un" "list_all (life_deletes ms ?b0) pr" "list_all (life_deletes ms ?b0) rm"
    using cons unfolding conserves_def fields append_Nil by (elim exE conjE) (rule that)
  have "list_all sql_sane un"
    using arg_cong [OF k(2), of set_mset] assms(4) by (auto simp: list_all_iff)
  then have "list_all sql_poisoned un" if "\<forall>(eng, env, c) \<in> set ms. accepting eng"
    using refused_poisoned [of "fst ` set ms"] k(7) that assms(1) by (fastforce simp: list_all_iff)
  then have un: "(\<forall>(eng, env, c) \<in> set ms. accepting eng) \<longrightarrow> list_all sql_poisoned un" by blast
  have ov: "int (length ?acc) \<le> n \<longrightarrow> ov = []" using k(6) by auto
  show ?thesis
    by (intro conjI exI) (fact len, fact k(1), fact k(2), fact k(3), fact k(4), fact k(5), fact ov, fact k(7), fact un,
      fact k(8), fact k(9))
qed

text \<open>Two telegrams stored and flushed, one more stored, an eviction, a clear and the close.\<close>

definition sample_life :: "moment list" where
  "sample_life = map (\<lambda>c. (reference_engine, calm, c))
     [Initialize [], Store (sample 0 ''1/2/3''), Store (sample 1 ''1/2/3''), Flush [], Store (sample 2 ''4/5/6''),
      EvictOlderThan (timestamp (sample 1 ''1/2/3'')) False [], Clear [], Close]"

lemma sample_life_sane:
  "list_all sql_sane (life_hears sample_life b @ life_writes sample_life b)"
  by (simp add: sample_life_def heard_def flush_hears_def arrivals_def)

theorem buffered_conservation_witness:
  "int (length (buffer (life sample_life (buffered_init (sqlite_init False None) 10)))) \<le> 10"
proof -
  have s: "sql_ready (sq_sql (sqlite_init False None))" "1 \<le> (10::int)"
    using sql_inv_init by (simp_all add: sql_ready_def sqlite_init_def sql_init_def)
  have e: "\<forall>(eng, env, c) \<in> set sample_life. wf_engine eng" using wf_reference_engine by (auto simp: sample_life_def)
  show ?thesis
    by (rule buffered_conservation [OF e s sample_life_sane refl, THEN conjunct1])
qed

text \<open>
  C6: The flush refines the state machine of BufferRuns: whatever the backing store answers and
  whatever arrives between its awaited calls, \<open>_flush\<close> is a sequence of its steps, batches taken,
  written, failed, given back or pruned of what is refused, that leaves no batch in flight and
  accepts exactly the telegrams that arrived during the calls it made.
\<close>

theorem flush_refines_steps:
  assumes "bounded (base r)" and "in_flight r = []"
  shows "\<exists>r'. buf_steps store_many r r' \<and> in_flight r' = [] \<and>
    base r' = snd (buf_flush_private store_many raising arr (base r)) \<and>
    accepted r' = accepted r @ (if closing (base r) then [] else arrivals (flush_calls store_many arr (base r)) arr)"
proof (cases "closing (base r)")
  case True
  with assms(2) show ?thesis by (intro exI [of _ r]) (simp add: buf_flush_private_def mutation_def)
next
  case False
  with flush_locked_steps [OF assms, of store_many raising arr] show ?thesis
    by (auto simp: buf_flush_private_def mutation_def leads_def heard_def)
qed

theorem flush_refines_steps_witness:
  "\<exists>r'. buf_steps (sqlite_store_many reference_engine) ((run_init full_sqlite 4)\<lparr>base := busy_buffer\<rparr>) r' \<and>
    in_flight r' = [] \<and> base r' = snd (buf_flush_private (sqlite_store_many reference_engine) True [[sample 8 ''1/2/3'']]
      (base ((run_init full_sqlite 4)\<lparr>base := busy_buffer\<rparr>))) \<and>
    accepted r' = accepted ((run_init full_sqlite 4)\<lparr>base := busy_buffer\<rparr>) @
      (if closing (base ((run_init full_sqlite 4)\<lparr>base := busy_buffer\<rparr>)) then [] else
       arrivals (flush_calls (sqlite_store_many reference_engine) [[sample 8 ''1/2/3'']]
         (base ((run_init full_sqlite 4)\<lparr>base := busy_buffer\<rparr>))) [[sample 8 ''1/2/3'']])"
  by (rule flush_refines_steps) (simp_all add: run_init_def)

section \<open>Accepting telegrams\<close>

text \<open>
  Storing is bounded and never touches the database: a full buffer gives up its oldest telegram
  for the new one, a store that is closing drops the new one, and the call does not raise.
\<close>

lemma buffered_store_bounded:
  assumes "bounded b"
  shows "\<exists>b'. buf_store b t = (Inr (), b') \<and> bounded b' \<and> backing b' = backing b \<and>
    buffer b' = (if closing b then buffer b else take_last (room b) (buffer b @ [t]))"
proof (cases "closing b")
  case True
  with assms show ?thesis by (simp add: buf_store_def wrapped_def buf_store_sync_closing)
next
  case False
  with buf_store_sync_ok [OF assms False, of t] show ?thesis
    by (auto simp: buf_store_def wrapped_def)
qed

section \<open>Reading\<close>

text \<open>
  C15: Read your writes: a query with \<open>flush_first\<close> answers the query contract over the persisted
  telegrams and everything that was in the buffer and can be stored.
\<close>

theorem buffered_read_your_writes:
  assumes "wf_engine eng" and "accepting eng" and "buffer_ready b" and "writes_allowed b" and "\<not> closing b"
    and "sql_queryable q"
  shows "\<exists>r b'. buf_query (sqlite_ops eng env) q True arr b = (Inr r, b') \<and>
    answers q (persisted b @ map stored_form (filter (\<lambda>t. \<not> sql_poisoned t) (buffer b))) r"
proof -
  have h: "healthy_engine eng" using assms(1,2) by unfold_locales
  obtain b1 where b1: "flush_locked (sqlite_store_many eng) True arr b = (Inr (), b1)"
    "sql_ready (sq_sql (backing b1))" "persisted b1 = persisted b @ deliverable (buffer b)"
    using healthy_engine.sqlite_flush_locked [OF h assms(3,4), of True arr] by blast
  have "sql_inv (sq_sql (backing b1))" using b1(2) by (simp add: sql_ready_def)
  from sql_query_answers [OF assms(1,2) this assms(6)] obtain r where
    r: "sql_query eng (sq_sql (backing b1)) q = Inr r" "answers q (persisted b1) r" by blast
  have "backing (restart_timer b1) = backing b1" by (simp add: restart_timer_def)
  with b1 r show ?thesis using assms(5)
    by (simp add: buf_query_def buf_flush_def buf_flush_private_def mutation_def wrapped_def deliverable_def)
qed

theorem buffered_read_your_writes_witness:
  "\<exists>r b'. buf_query (sqlite_ops reference_engine calm) window_query True [] busy_buffer = (Inr r, b') \<and>
    answers window_query (persisted busy_buffer @ map stored_form (filter (\<lambda>t. \<not> sql_poisoned t) (buffer busy_buffer))) r"
  by (rule buffered_read_your_writes [OF wf_reference_engine accepting_reference_engine]) simp_all

section \<open>Closing\<close>

text \<open>
  C14: Closing persists the buffer: the store of an initialised buffer, also one in a backup, ends up
  with every telegram of the buffer that can be stored, the buffer is empty, the flush task is
  gone and every later call of \<open>store\<close> is ignored.
\<close>

theorem buffered_close_persists:
  assumes "wf_engine eng" and "accepting eng" and "buffer_ready b" and "initialized b"
    and "undisturbed env" and "backup_in_progress (sq_backup (backing b)) = (\<not> writes_allowed b)"
  shows "\<exists>b'. buf_close (sqlite_ops eng env) b = (Inr (), b') \<and>
    persisted b' = persisted b @ map stored_form (filter (\<lambda>t. \<not> sql_poisoned t) (buffer b)) \<and>
    buffer b' = [] \<and> flush_task b' = None \<and> writes_allowed b' \<and>
    (\<forall>t. buf_store b' t = (Inr (), b'))"
proof -
  have h: "healthy_engine eng" using assms(1,2) by unfold_locales
  let ?b0 = "b\<lparr>closing := True\<rparr>"
  let ?ops = "sqlite_ops eng env"
  obtain b1 where b1: "(if \<not> writes_allowed b then buf_end_backup ?ops [] ?b0 else (Inr (), ?b0)) = (Inr (), b1)"
    "buffer_ready b1" "writes_allowed b1" "closing b1" "initialized b1" "buffer b1 = buffer b"
    "persisted b1 = persisted b" "\<not> backup_in_progress (sq_backup (backing b1))"
    using assms(3-6)
    by (cases "writes_allowed b")
      (auto simp: buf_end_backup_def await_backing_def arrive_def on_backing_def sqlite_ops_def on_backup_def sqlite_end_backup_def
        undisturbed_def wrapped_def Let_def buffer_ready_def bounded_def split: if_splits)
  let ?b2 = "b1\<lparr>flush_task := None\<rparr>"
  obtain b3 where b3: "flush_locked (sqlite_store_many eng) True [] ?b2 = (Inr (), b3)"
    "persisted b3 = persisted b @ deliverable (buffer b)" "same_frame ?b2 b3" "buffer b3 = []"
    using healthy_engine.sqlite_flush_locked [OF h, of ?b2 True "[]"] b1 by auto
  have bk: "\<not> backup_in_progress (sq_backup (backing b3))"
    using flush_locked_backup [of eng True "[]" ?b2] b3(1) b1(8) by simp
  have fr: "flush_task b3 = None" "writes_allowed b3" "closing b3"
    using b3(3) b1(3,4) by (simp_all add: same_frame_def)
  have close3: "on_backing (op_close ?ops) b3 = (Inr (), b3)"
    using bk assms(5) by (simp add: on_backing_def sqlite_close_def raise_opt_def undisturbed_def wrapped_def)
  have start: "(if \<not> writes_allowed ?b0 then buf_end_backup ?ops [] ?b0 else (Inr (), ?b0)) = (Inr (), b1)"
    using b1(1) by simp
  have "buf_close ?ops b = (Inr (), b3)"
    unfolding buf_close_def close_locked_def Let_def start andthen_simps
    using b1(5) b3(1) close3 by (simp add: wrapped_def)
  with b3(2,4) fr show ?thesis
    by (auto simp: deliverable_def buf_store_def wrapped_def buf_store_sync_closing)
qed

theorem buffered_close_persists_witness:
  "\<exists>b'. buf_close (sqlite_ops reference_engine calm) busy_buffer = (Inr (), b') \<and>
    persisted b' = persisted busy_buffer @ map stored_form (filter (\<lambda>t. \<not> sql_poisoned t) (buffer busy_buffer)) \<and>
    buffer b' = [] \<and> flush_task b' = None \<and> writes_allowed b' \<and> (\<forall>t. buf_store b' t = (Inr (), b'))"
  by (rule buffered_close_persists [OF wf_reference_engine accepting_reference_engine]) simp_all

section \<open>Backups\<close>

text \<open>
  C11: A backup sees no write: whatever the tasks of a buffered SQLite store do, in any interleaving
  of waiting for the flag, waiting for the lock, working and releasing, while the flag is cleared no
  task behind the write gate works, and from the moment it is cleared up to the step that sets it
  again the telegrams of the store stay as they are; so do all its tables unless \<open>initialize\<close>, which
  takes no lock, is called meanwhile.
\<close>

theorem backup_isolates:
  assumes "any_step\<^sup>*\<^sup>* (world_init b) w" and "\<not> writes_allowed (shared w)" and "(backup_step marks)\<^sup>*\<^sup>* w w'"
  shows "persisted (shared w') = persisted (shared w) \<and>
    (True \<in> marks \<or> sq_sql (backing (shared w')) = sq_sql (backing (shared w))) \<and>
    \<not> (\<exists>i c. task w i = Locked c \<and> gated c)"
  using backup_steps_isolated [OF assms(3) gate_inv_reachable [OF assms(1)]] gate_inv_reachable [OF assms(1)] assms(2)
  by (auto simp: gate_inv_def)

text \<open>
  A backup begins while another task, which has seen the flag, waits for the lock; once it has the
  lock it is sent back to wait.
\<close>

definition gate_start :: "sqlite_store buffered" where
  "gate_start = busy_buffer\<lparr>buffer := []\<rparr>"

definition gate_batch :: call where
  "gate_batch = StoreMany [sample 9 ''1/2/3''] []"

definition gate_backup :: call where
  "gate_backup = BeginBackup [] []"

lemma task_step_any: "task_step l u v \<Longrightarrow> any_step u v"
  by blast

lemma any_step_then: "any_step u v \<Longrightarrow> any_step\<^sup>*\<^sup>* v w \<Longrightarrow> any_step\<^sup>*\<^sup>* u w"
  by (rule converse_rtranclp_into_rtranclp)

lemma gate_run:
  "\<exists>w. any_step\<^sup>*\<^sup>* (world_init gate_start) w \<and> \<not> writes_allowed (shared w) \<and> \<not> closing (shared w) \<and>
     task w 1 = AtLock gate_batch \<and> lock_owner w = None"
proof -
  let ?w0 = "world_init gate_start"
  let ?w1 = "goto 1 (AtFlag gate_batch) ?w0"
  let ?w2 = "goto 1 (AtLock gate_batch) ?w1"
  let ?w3 = "goto 0 (AtLock gate_backup) ?w2"
  let ?w4 = "take_lock 0 gate_backup ?w3"
  let ?w5 = "begin_flush (sqlite_ops reference_engine calm) 0 [] [] ?w4"
  let ?w6 = "begin_done (sqlite_ops reference_engine calm) 0 [] ?w5"
  have s: "\<not> closing gate_start" "writes_allowed gate_start" "buffer gate_start = []"
    by (simp_all add: gate_start_def)
  have w3: "task ?w3 0 = AtLock gate_backup" "task ?w3 1 = AtLock gate_batch" "shared ?w3 = gate_start" "lock_owner ?w3 = None"
    by (simp_all add: world_init_def)
  then have w4: "task ?w4 0 = Locked gate_backup" "task ?w4 1 = AtLock gate_batch" "shared ?w4 = gate_start"
    using s by (simp_all add: take_lock_def gate_backup_def Let_def)
  have w5: "task ?w5 0 = Preparing []" "task ?w5 1 = AtLock gate_batch" "shared ?w5 = gate_start"
    using s w4 by (simp_all add: begin_flush_def flush_locked_def)
  have "fst (await_backing (op_begin_backup (sqlite_ops reference_engine calm)) [] gate_start) = Inr ()"
    by (auto simp: gate_start_def await_backing_def on_backing_def sqlite_ops_def on_backup_def sqlite_begin_backup_def
      calm_def wrapped_def Let_def split: prod.split)
  then obtain b where b: "await_backing (op_begin_backup (sqlite_ops reference_engine calm)) [] gate_start = (Inr (), b)"
    by (cases "await_backing (op_begin_backup (sqlite_ops reference_engine calm)) [] gate_start") auto
  then have "\<not> closing b" using s(1) by (auto simp: await_backing_def arrive_def on_backing_def split: prod.splits)
  then have w6: "\<not> writes_allowed (shared ?w6)" "\<not> closing (shared ?w6)" "task ?w6 1 = AtLock gate_batch" "lock_owner ?w6 = None"
    using w5 b by (simp_all add: begin_done_def)
  have st1: "any_step ?w0 ?w1"
    by (rule task_step_any [OF calls_gated]) (simp_all add: world_init_def gate_batch_def)
  have st2: "any_step ?w1 ?w2"
    by (rule task_step_any [OF sees_flag]) (simp_all add: world_init_def s)
  have st3: "any_step ?w2 ?w3"
    by (rule task_step_any [OF calls_locking]) (simp_all add: world_init_def gate_backup_def)
  have st4: "any_step ?w3 ?w4" by (rule task_step_any [OF gets_lock [OF w3(1,4)]])
  have "task ?w4 0 = Locked (BeginBackup [] [])" using w4(1) unfolding gate_backup_def .
  then have st5: "any_step ?w4 ?w5" by (intro task_step_any [OF begins])
  have st6: "any_step ?w5 ?w6" by (rule task_step_any [OF prepared [OF w5(1)]])
  have "any_step\<^sup>*\<^sup>* ?w0 ?w6"
    by (rule any_step_then [OF st1 any_step_then [OF st2 any_step_then [OF st3 any_step_then [OF st4
      any_step_then [OF st5 any_step_then [OF st6 rtranclp.rtrancl_refl]]]]]])
  with w6 show ?thesis by blast
qed

theorem backup_isolates_witness:
  "\<exists>(w :: world) (w' :: world). \<not> writes_allowed (shared w) \<and> task w 1 = AtLock gate_batch \<and> task w' 1 = AtFlag gate_batch \<and>
    persisted (shared w') = persisted (shared w) \<and>
    (True \<in> {False} \<or> sq_sql (backing (shared w')) = sq_sql (backing (shared w))) \<and>
    \<not> (\<exists>i c. task w i = Locked c \<and> gated c)"
proof -
  obtain w where w: "any_step\<^sup>*\<^sup>* (world_init gate_start) w" "\<not> writes_allowed (shared w)" "\<not> closing (shared w)"
    "task w 1 = AtLock gate_batch" "lock_owner w = None"
    using gate_run by blast
  let ?w' = "take_lock 1 gate_batch w"
  have "backup_step {False} w ?w'"
    unfolding backup_step_def using w(2) gets_lock [OF w(4,5)] by blast
  then have "(backup_step {False})\<^sup>*\<^sup>* w ?w'" by (rule r_into_rtranclp)
  note same = backup_isolates [OF w(1,2) this]
  have sent:  "task ?w' 1 = AtFlag gate_batch"
    using w(2,3) by (simp add: take_lock_def gate_batch_def gate_check_def mutation_def Let_def)
  show ?thesis
    using w(2,4) sent same by blast
qed

lemma flush_delivers_all:
  assumes "healthy_engine eng" and "buffer_ready b" and "writes_allowed b" and "list_all (\<lambda>t. \<not> sql_poisoned t) (buffer b)"
  shows "\<exists>b'. flush_locked (sqlite_store_many eng) raising [] b = (Inr (), b') \<and>
    sql_ready (sq_sql (backing b')) \<and> persisted b' = persisted b @ map stored_form (buffer b) \<and>
    same_frame b b' \<and> bounded b' \<and> buffer b' = [] \<and> sq_backup (backing b') = sq_backup (backing b)"
proof -
  have "deliverable (buffer b) = map stored_form (buffer b)"
    using assms(4) by (simp add: deliverable_def list_all_iff filter_True)
  moreover have "take_last n [] = []" for n :: nat by (simp add: take_last_def)
  ultimately show ?thesis
    using healthy_engine.sqlite_flush_locked [OF assms(1-3), of raising "[]"]
      flush_locked_backup [of eng raising "[]" b] by (auto simp: arrivals_def)
qed

lemma backup_ops_ok:
  assumes "undisturbed env" and "\<not> backup_in_progress (sq_backup s)" and "\<not> bk_read_only (sq_backup s)"
  shows "\<exists>s1. op_begin_backup (sqlite_ops eng env) s = (Inr (), s1) \<and> sq_sql s1 = sq_sql s \<and>
    (\<exists>s2. op_end_backup (sqlite_ops eng env) s1 = (Inr (), s2) \<and> sq_sql s2 = sq_sql s)"
  using assms
  by (auto simp: sqlite_ops_def on_backup_def sqlite_begin_backup_def sqlite_end_backup_def undisturbed_def wrapped_def Let_def)

text \<open>
  A call of \<open>close\<close> that meets a \<open>begin_backup\<close> still at work finds the flag set, does not end the
  backup, and once it has the lock its flush finds the flag cleared: a telegram that arrived in
  between is lost, although the store is in order and initialised.
\<close>

lemma close_meets_begin:
  "\<exists>w. any_step\<^sup>*\<^sup>* (world_init gate_start) w \<and> initialized gate_start \<and> closing (shared w) \<and>
     task w 0 = Idle \<and> task w 1 = Idle \<and> buffer (shared w) = [sample 9 ''1/2/3''] \<and>
     persisted (shared w) = persisted gate_start"
proof -
  let ?w0 = "world_init gate_start" and ?ops = "sqlite_ops reference_engine calm"
  let ?w1 = "goto 0 (AtLock gate_backup) ?w0"
  let ?w2 = "take_lock 0 gate_backup ?w1"
  let ?w3 = "begin_flush ?ops 0 [] [] ?w2"
  let ?w4 = "?w3\<lparr>shared := snd (buf_store (shared ?w3) (sample 9 ''1/2/3''))\<rparr>"
  let ?w5 = "close_start 1 ?w4"
  let ?w6 = "begin_done ?ops 0 [] ?w5"
  let ?w7 = "take_lock 1 Close ?w6"
  let ?w8 = "release 1 (under_lock ?ops Close (shared ?w7)) ?w7"
  have s: "\<not> closing gate_start" "writes_allowed gate_start" "buffer gate_start = []" "initialized gate_start"
    "max_buffer_size gate_start = 4"
    by (simp_all add: gate_start_def)
  have w1: "task ?w1 0 = AtLock gate_backup" "task ?w1 1 = Idle" "shared ?w1 = gate_start" "lock_owner ?w1 = None"
    by (simp_all add: world_init_def)
  then have w2: "task ?w2 0 = Locked gate_backup" "task ?w2 1 = Idle" "shared ?w2 = gate_start"
    using s by (simp_all add: take_lock_def gate_backup_def Let_def)
  have w3: "task ?w3 0 = Preparing []" "task ?w3 1 = Idle" "shared ?w3 = gate_start"
    using s w2 by (simp_all add: begin_flush_def flush_locked_def)
  have w4: "task ?w4 0 = Preparing []" "task ?w4 1 = Idle" "shared ?w4 = gate_start\<lparr>buffer := [sample 9 ''1/2/3'']\<rparr>"
    using s w3 by (simp_all add: buf_store_def buf_store_sync_def)
  let ?b = "gate_start\<lparr>buffer := [sample 9 ''1/2/3''], closing := True, flush_task := None\<rparr>"
  have w5: "task ?w5 0 = Preparing []" "task ?w5 1 = AtLock Close" "shared ?w5 = ?b"
    using s w4 by (simp_all add: close_start_def wait_to_close_def Let_def)
  have bk: "backing gate_start = full_sqlite" by (simp add: gate_start_def busy_buffer_def buffered_init_def)
  obtain sq where sq: "op_begin_backup ?ops full_sqlite = (Inr (), sq)" "sq_sql sq = sq_sql full_sqlite"
    using backup_ops_ok [of calm full_sqlite reference_engine] by (auto simp: full_sqlite_def sqlite_init_def)
  then have aw: "await_backing (op_begin_backup ?ops) [] ?b = (Inr (), ?b\<lparr>backing := sq\<rparr>)"
    using bk by (simp add: await_backing_def on_backing_def arrive_def)
  let ?b6 = "?b\<lparr>backing := sq, writes_allowed := False\<rparr>"
  have w6: "task ?w6 0 = Idle" "task ?w6 1 = AtLock Close" "shared ?w6 = ?b6" "lock_owner ?w6 = None"
    using w5 aw by (simp_all add: begin_done_def)
  have w7: "task ?w7 0 = Idle" "task ?w7 1 = Locked Close" "shared ?w7 = ?b6"
    using w6 by (simp_all add: take_lock_def Let_def)
  have "under_lock ?ops Close ?b6 = ?b6\<lparr>backing := snd (op_close ?ops sq)\<rparr>"
    using s(4) by (simp add: close_locked_def flush_shut snd_on_backing del: sqlite_ops_simps)
  then have w8: "task ?w8 0 = Idle" "task ?w8 1 = Idle" "closing (shared ?w8)" "buffer (shared ?w8) = [sample 9 ''1/2/3'']"
    "persisted (shared ?w8) = persisted gate_start"
    using w7 sq(2) bk sql_of_backup_ops(3) [of reference_engine calm sq] by simp_all
  have st1: "any_step ?w0 ?w1"
    by (rule task_step_any [OF calls_locking]) (simp_all add: world_init_def gate_backup_def)
  have st2: "any_step ?w1 ?w2" by (rule task_step_any [OF gets_lock [OF w1(1,4)]])
  have "task ?w2 0 = Locked (BeginBackup [] [])" using w2(1) unfolding gate_backup_def .
  then have st3: "any_step ?w2 ?w3" by (intro task_step_any [OF begins])
  have st4: "any_step ?w3 ?w4" by (rule task_step_any [OF stores])
  have st5: "any_step ?w4 ?w5" by (rule task_step_any [OF closes [OF w4(2)]])
  have st6: "any_step ?w5 ?w6" by (rule task_step_any [OF prepared [OF w5(1)]])
  have st7: "any_step ?w6 ?w7" by (rule task_step_any [OF gets_lock [OF w6(2,4)]])
  have st8: "any_step ?w7 ?w8" by (rule task_step_any [OF works [OF w7(2)]]) simp
  have "any_step\<^sup>*\<^sup>* ?w0 ?w8"
    by (rule any_step_then [OF st1 any_step_then [OF st2 any_step_then [OF st3 any_step_then [OF st4
      any_step_then [OF st5 any_step_then [OF st6 any_step_then [OF st7 any_step_then [OF st8 rtranclp.rtrancl_refl]]]]]]]])
  with w8 s(4) show ?thesis by (intro exI [of _ ?w8] conjI)
qed

lemma await_op_ok:
  assumes "f (backing b) = (Inr u, s)" and "bounded b" and "\<not> closing b"
  shows "\<exists>b'. await_backing f ts b = (Inr u, b') \<and> backing b' = s \<and> same_frame b b' \<and> bounded b' \<and>
    buffer b' = take_last (room b) (buffer b @ ts)"
proof -
  have "bounded (b\<lparr>backing := s\<rparr>)" using assms(2) by (simp add: bounded_def)
  from arrive_ok [OF this, of ts] assms show ?thesis
    by (simp add: await_backing_def on_backing_def)
qed



section \<open>Eviction\<close>

text \<open>
  An eviction covers both places a telegram can be in: the count is that of the expired telegrams
  persisted and buffered, and afterwards, unless it was a dry run, neither place has one, while
  every other telegram stays.
\<close>

lemma buffered_evict_both:
  assumes "accepting eng" and "undisturbed env" and "buffer_ready b" and "writes_allowed b"
    and "\<not> closing b" and "is_aware cutoff" and "in_range (instant cutoff)"
  shows "\<exists>b'. buf_evict_older_than (sqlite_ops eng env) cutoff dry_run [] at_once b =
      (Some (Inr (int (length (filter (\<lambda>t. time_of t < instant cutoff) (persisted b @ buffer b))))), b') \<and>
    persisted b' = (if dry_run then persisted b else filter (\<lambda>t. \<not> time_of t < instant cutoff) (persisted b)) \<and>
    buffer b' = (if dry_run then buffer b else filter (\<lambda>t. instant cutoff \<le> time_of t) (buffer b))"
proof -
  let ?s = "backing b" and ?ops = "sqlite_ops eng env"
  have "sql_inv (sq_sql ?s)" "\<not> sql_read_only (sq_sql ?s)" using assms(3) by (simp_all add: buffer_ready_def sql_ready_def)
  from sql_evict_older_than_ok [OF assms(1) this assms(7), of dry_run] obtain d where
    d: "sql_evict_older_than eng (sq_sql ?s) cutoff dry_run =
      (Inr (int (length (filter (\<lambda>t. time_of t < instant cutoff) (persisted b)))), d)"
    "contents d = (if dry_run then persisted b else filter (\<lambda>t. \<not> time_of t < instant cutoff) (persisted b))" by blast
  have sq: "op_evict_older_than ?ops ?s cutoff dry_run =
    (Inr (int (length (filter (\<lambda>t. time_of t < instant cutoff) (persisted b)))), ?s\<lparr>sq_sql := d\<rparr>)"
    using assms(2) d(1) by (simp add: sqlite_ops_def on_sql_def sqlite_evict_older_than_def wrapped_def undisturbed_def)
  have aware: "\<forall>t \<in> set (buffer b). is_aware (timestamp t)"
    using assms(3) by (auto simp: buffer_ready_def list_all_iff sql_sane_def)
  have old: "filter_res (\<lambda>t. dt_less (timestamp t) cutoff) (buffer b) = Inr (filter (\<lambda>t. time_of t < instant cutoff) (buffer b))"
    using aware assms(6) by (intro filter_res_Inr) (simp add: dt_compare comparable_aware)
  have new: "filter_res (\<lambda>t. dt_le cutoff (timestamp t)) (buffer b) = Inr (filter (\<lambda>t. instant cutoff \<le> time_of t) (buffer b))"
    using aware assms(6) by (intro filter_res_Inr) (simp add: dt_compare comparable_aware)
  show ?thesis
    using assms(4,5) sq old new d(2)
    by (simp add: buf_evict_older_than_def at_once_def gate_check_def mutation_def evict_locked_def await_backing_def
        on_backing_def arrive_def wrapped_def)
qed

section \<open>The buffered memory store\<close>

text \<open>
  The buffered memory store is the memory store, later: a flush moves the buffer behind what the
  store holds, the newest telegrams up to its capacity stay, and nothing is ever dropped as
  undeliverable.
\<close>

lemma buffered_memory_flush:
  assumes "bounded b" and "memory_inv (backing b)" and "writes_allowed b" and "\<not> closing b"
  shows "\<exists>b'. buf_flush memory_ops False arr b = (Inr (), b') \<and>
    mem_telegrams (backing b') = take_last (max_telegrams (backing b)) (mem_telegrams (backing b) @ buffer b) \<and>
    memory_inv (backing b') \<and>
    buffer b' = take_last (room b) (arrivals (if buffer b = [] then 0 else 1) arr)"
proof -
  have aw: "flush_awaits (\<lambda>_. False) b = (if buffer b = [] then 0 else 1)"
    by (simp add: flush_awaits_def list_ex_iff)
  obtain b1 where "flush_locked memory_store_many True arr b = (Inr (), b1)" "memory_inv (backing b1)"
    "mem_telegrams (backing b1) = take_last (max_telegrams (backing b)) (mem_telegrams (backing b) @ buffer b)"
    "buffer b1 = take_last (room b) (arrivals (flush_awaits (\<lambda>_. False) b) arr)"
    using mem.flush_locked_ok [of b True arr] assms by (auto simp: list_all_iff memory_capacity_def)
  then show ?thesis using assms(4) unfolding aw
    by (simp add: buf_flush_def buf_flush_private_def mutation_def wrapped_def restart_timer_def memory_ops_def)
qed

section \<open>Errors of the data\<close>

text \<open>
  C32: The search for a data error is complete and ends, also on cyclic chains: it finds one exactly
  if some exception reached from the given one over \<open>__cause__\<close>, \<open>__context__\<close> and \<open>orig\<close> is of a
  data error class.
\<close>

theorem data_error_cause_complete:
  "data_error_cause sqlalchemy (nodes, r) \<noteq> None \<longleftrightarrow>
   (\<exists>i. exc_reach nodes r i \<and> isinstance (exc_class (nodes ! i)) (data_error_types sqlalchemy))"
  by (rule data_error_cause_pair)

text \<open>
  Wrapping a failure into the store's own exception does not hide what it was: the wrapped
  exception is a data error exactly if the original one is, so the buffer drops a telegram for
  the same failures whichever layer it calls.
\<close>

lemma wrapping_keeps_cause:
  assumes "wf_exc e" and "wrap_store_errors (Inl e :: exc + 'a) = Inl e'"
  shows "(data_error_cause True e' \<noteq> None) = (data_error_cause True e \<noteq> None)"
proof -
  have "\<not> isinstance KnxTelegramStoreException (data_error_types True)"
    by (simp add: isinstance_def data_error_types_def)
  from data_error_cause_raise_from [OF assms(1) this] assms(2) show ?thesis
    by (auto simp: wrap_store_errors_def split: if_splits)
qed

end
