(* ===== verification/McpTools.thy ===== *)
theory McpTools
  imports StoreInterface PyStrings
begin

text \<open>
  The MCP tool functions of src/knx_telegram_store/mcp/tools.py with their inputs and outputs
  (src/knx_telegram_store/mcp/types.py), over any backend.
  \<open>datetime.fromisoformat\<close> and \<open>isoformat\<close> are the parameters \<open>fromisoformat\<close> and
  \<open>isoformat\<close>.
\<close>

section \<open>Inputs and outputs\<close>

record query_input =
  in_start_time :: "string option"
  in_end_time :: "string option"
  in_sources :: "string list"
  in_destinations :: "string list"
  in_telegram_types :: "string list"
  in_directions :: "string list"
  in_dpt_mains :: "int list"
  in_dpts :: "string list"
  in_delta_before_ms :: int
  in_delta_after_ms :: int
  in_limit :: int
  in_offset :: int
  in_order_descending :: bool

definition query_input :: query_input where
  "query_input =
     \<lparr>in_start_time = None, in_end_time = None, in_sources = [], in_destinations = [],
      in_telegram_types = [], in_directions = [], in_dpt_mains = [], in_dpts = [],
      in_delta_before_ms = 0, in_delta_after_ms = 0, in_limit = 100, in_offset = 0,
      in_order_descending = True\<rparr>"

record telegram_summary =
  sum_timestamp :: string
  sum_source :: string
  sum_destination :: string
  sum_telegramtype :: string
  sum_direction :: string
  sum_dpt :: "string option"
  sum_value :: pyval
  sum_value_numeric :: "pyfloat option"
  sum_raw_data :: "string option"
  sum_source_name :: string
  sum_destination_name :: string

record query_output =
  out_telegrams :: "telegram_summary list"
  out_total_count :: int
  out_offset :: int
  out_next_offset :: "int option"
  out_limit_reached :: bool

record stats_output =
  out_telegram_count :: int
  out_oldest_timestamp :: "string option"
  out_newest_timestamp :: "string option"
  out_size_bytes :: "int option"
  out_backend :: string
  out_retention_days :: "int option"

section \<open>The tools\<close>

definition MAX_QUERY_LIMIT :: int where "MAX_QUERY_LIMIT = 1000"

definition validate_pagination :: "query_input \<Rightarrow> exc + unit" where
  "validate_pagination inp =
     (if \<not> (1 \<le> in_limit inp \<and> in_limit inp \<le> MAX_QUERY_LIMIT) then Inl (raise_exc ValueError)
      else if in_offset inp < 0 then Inl (raise_exc ValueError)
      else Inr ())"

text \<open>\<open>value.replace("Z", "+00:00")\<close>, at every Z.\<close>

definition replace_z :: "string \<Rightarrow> string" where
  "replace_z s = concat (map (\<lambda>c. if c = CHR ''Z'' then ''+00:00'' else [c]) s)"

definition parse_dt :: "(string \<Rightarrow> exc + datetime) \<Rightarrow> string option \<Rightarrow> exc + datetime option" where
  "parse_dt fromisoformat v = (case v of
     None \<Rightarrow> Inr None
   | Some s \<Rightarrow> (case fromisoformat (replace_z s) of
        Inr d \<Rightarrow> Inr (Some d)
      | Inl e \<Rightarrow> if isinstance (class_of e) [ValueError] then Inl (raise_from ValueError e) else Inl e))"

definition iso :: "(datetime \<Rightarrow> string) \<Rightarrow> datetime \<Rightarrow> string" where
  "iso isoformat d = isoformat (if utcoffset d = None then Datetime (wall d) (Some 0) else d)"

definition iso_opt :: "(datetime \<Rightarrow> string) \<Rightarrow> datetime option \<Rightarrow> string option" where
  "iso_opt isoformat d = map_option (iso isoformat) d"

definition TYPE_ALIASES :: "(string \<times> string) list" where
  "TYPE_ALIASES = [(''write'', ''GroupValueWrite''), (''read'', ''GroupValueRead''),
     (''response'', ''GroupValueResponse'')]"

definition normalize_type :: "string \<Rightarrow> string" where
  "normalize_type tt = (case map_of TYPE_ALIASES (lower (strip tt)) of None \<Rightarrow> tt | Some full \<Rightarrow> full)"

definition parse_dpt :: "string \<Rightarrow> exc + int \<times> int option" where
  "parse_dpt entry =
     (let (main_str, sep, sub_str) = partition_dot (strip entry) in
      if \<not> isdigit main_str \<or> sep \<and> \<not> isdigit sub_str then Inl (raise_exc ValueError)
      else bind_res (int_of_str main_str) (\<lambda>main.
           if sep then bind_res (int_of_str sub_str) (\<lambda>sub. Inr (main, Some sub))
           else Inr (main, None)))"

definition format_dpt :: "int option \<Rightarrow> int option \<Rightarrow> string option" where
  "format_dpt main sub = (case main of
     None \<Rightarrow> None
   | Some m \<Rightarrow> (case sub of
        None \<Rightarrow> Some (str_int m)
      | Some s \<Rightarrow> Some (str_int m @ ''.'' @ format_03d s)))"

definition summarize :: "(datetime \<Rightarrow> string) \<Rightarrow> stored_telegram \<Rightarrow> telegram_summary" where
  "summarize isoformat t =
     \<lparr>sum_timestamp = iso isoformat (timestamp t), sum_source = source t,
      sum_destination = destination t, sum_telegramtype = telegramtype t,
      sum_direction = direction t, sum_dpt = format_dpt (dpt_main t) (dpt_sub t),
      sum_value = telegram_value t, sum_value_numeric = value_numeric t,
      sum_raw_data = raw_data t, sum_source_name = source_name t,
      sum_destination_name = destination_name t\<rparr>"

text \<open>The \<open>TelegramQuery\<close> an input asks for; its arguments are evaluated in this order.\<close>

definition query_of_input :: "(string \<Rightarrow> exc + datetime) \<Rightarrow> query_input \<Rightarrow> exc + telegram_query" where
  "query_of_input fromisoformat inp =
     bind_res (map_res parse_dpt (in_dpts inp)) (\<lambda>parsed.
     bind_res (parse_dt fromisoformat (in_start_time inp)) (\<lambda>st.
     bind_res (parse_dt fromisoformat (in_end_time inp)) (\<lambda>en.
       Inr \<lparr>sources = in_sources inp, destinations = in_destinations inp,
            telegram_types = map normalize_type (in_telegram_types inp),
            directions = in_directions inp, dpt_mains = in_dpt_mains inp, dpts = parsed,
            start_time = st, end_time = en, delta_before_ms = in_delta_before_ms inp,
            delta_after_ms = in_delta_after_ms inp, limit = in_limit inp, offset = in_offset inp,
            order_descending = in_order_descending inp\<rparr>)))"

definition query_telegrams ::
  "(string \<Rightarrow> exc + datetime) \<Rightarrow> (datetime \<Rightarrow> string) \<Rightarrow>
   (telegram_query \<Rightarrow> exc + telegram_query_result) \<Rightarrow> query_input \<Rightarrow> exc + query_output"
where
  "query_telegrams fromisoformat isoformat query inp =
     bind_res (validate_pagination inp) (\<lambda>_.
     bind_res (query_of_input fromisoformat inp) (\<lambda>q.
     bind_res (query q) (\<lambda>result.
       Inr \<lparr>out_telegrams = map (summarize isoformat) (res_telegrams result),
            out_total_count = total_count result, out_offset = in_offset inp,
            out_next_offset = (if limit_reached result then Some (in_offset inp + in_limit inp) else None),
            out_limit_reached = limit_reached result\<rparr>)))"

definition get_last_values ::
  "(datetime \<Rightarrow> string) \<Rightarrow> exc + stored_telegram list \<Rightarrow> string list \<Rightarrow> exc + telegram_summary list" where
  "get_last_values isoformat last_unique wanted =
     bind_res last_unique (\<lambda>ts.
       Inr (map (summarize isoformat)
         (if wanted \<noteq> [] then filter (\<lambda>t. destination t \<in> set wanted) ts else ts)))"

definition get_store_stats :: "(datetime \<Rightarrow> string) \<Rightarrow> exc + store_stats \<Rightarrow> exc + stats_output" where
  "get_store_stats isoformat stats_result =
     bind_res stats_result (\<lambda>stats.
       Inr \<lparr>out_telegram_count = telegram_count stats,
            out_oldest_timestamp = iso_opt isoformat (oldest_timestamp stats),
            out_newest_timestamp = iso_opt isoformat (newest_timestamp stats),
            out_size_bytes = size_bytes stats, out_backend = stats_backend stats,
            out_retention_days = stats_retention_days stats\<rparr>)"

text \<open>The capabilities record is copied field by field into one with the same fields.\<close>

definition get_store_capabilities :: "store_capabilities \<Rightarrow> store_capabilities" where
  "get_store_capabilities caps =
     \<lparr>supports_time_range = supports_time_range caps,
      supports_time_delta = supports_time_delta caps,
      supports_pagination = supports_pagination caps, supports_count = supports_count caps,
      supports_size_stats = supports_size_stats caps, supports_optimize = supports_optimize caps,
      caps_read_only = caps_read_only caps, max_storage = max_storage caps\<rparr>"

section \<open>DPT texts\<close>

lemma dpt_roundtrip_lemma:
  assumes "0 \<le> m" and "case sub of None \<Rightarrow> True | Some s \<Rightarrow> 0 \<le> s"
  shows "\<exists>text. format_dpt (Some m) sub = Some text \<and> parse_dpt text = Inr (m, sub)"
proof (cases sub)
  case None
  let ?m = "str_int m"
  note m = str_int_ok [OF assms(1)]
  have "strip ?m = ?m" using m(1) decimal_not_special by (intro strip_no_space) (auto simp: list_all_iff)
  then show ?thesis
    using None m isdigit_decimal [OF m(1,2)]
    by (simp add: format_dpt_def parse_dpt_def partition_dot_none int_of_str_def)
next
  case (Some s)
  let ?m = "str_int m" and ?s = "format_03d s"
  note m = str_int_ok [OF assms(1)]
  have s0: "0 \<le> s" using assms(2) Some by simp
  note s = format_03d_ok [OF s0]
  have "strip (?m @ ''.'' @ ?s) = ?m @ ''.'' @ ?s"
    using m(1) s(1) decimal_not_special by (intro strip_no_space) (auto simp: list_all_iff is_space_def)
  then show ?thesis
    using Some m s isdigit_decimal [OF m(1,2)] isdigit_decimal [OF s(1,2)] partition_dot_one [OF m(1), of ?s]
    by (simp add: format_dpt_def parse_dpt_def int_of_str_def)
qed

section \<open>Following the pages\<close>

text \<open>
  A client that passes each \<open>next_offset\<close> as the next \<open>offset\<close> until there is none, with fuel for
  the number of pages.
\<close>

fun all_pages :: "nat \<Rightarrow> (query_input \<Rightarrow> exc + query_output) \<Rightarrow> query_input \<Rightarrow>
  (exc + telegram_summary list) option"
where
  "all_pages 0 run inp = None"
| "all_pages (Suc n) run inp = (case run inp of
     Inl e \<Rightarrow> Some (Inl e)
   | Inr out \<Rightarrow> (case out_next_offset out of
        None \<Rightarrow> Some (Inr (out_telegrams out))
      | Some off \<Rightarrow> map_option (\<lambda>later. bind_res later (\<lambda>ts. Inr (out_telegrams out @ ts)))
          (all_pages n run (inp\<lparr>in_offset := off\<rparr>))))"

lemma query_of_input_offset:
  "query_of_input f inp = Inr q \<Longrightarrow> query_of_input f (inp\<lparr>in_offset := off\<rparr>) = Inr (q\<lparr>offset := off\<rparr>)"
  by (auto simp: query_of_input_def bind_res_Inr_conv)

lemma query_of_input_fields:
  "query_of_input f inp = Inr q \<Longrightarrow> limit q = in_limit inp \<and> offset q = in_offset inp"
  by (auto simp: query_of_input_def bind_res_Inr_conv)

text \<open>One ordering of the selection behind every page makes the pages its consecutive parts.\<close>

lemma all_pages_complete:
  assumes pages: "\<And>off. 0 \<le> off \<Longrightarrow> \<exists>r. query (q\<lparr>offset := off\<rparr>) = Inr r \<and>
      res_telegrams r = page (q\<lparr>offset := off\<rparr>) os \<and> limit_reached r = (int (length os) > off + limit q)"
    and "query_of_input f inp = Inr q" and "1 \<le> in_limit inp" and "in_limit inp \<le> MAX_QUERY_LIMIT"
    and "0 \<le> in_offset inp" and "length os < n + nat (in_offset inp)" and "0 < n"
  shows "all_pages n (query_telegrams f isoformat query) inp =
    Some (Inr (map (summarize isoformat) (drop (nat (in_offset inp)) os)))"
  using assms
proof (induction n arbitrary: inp q)
  case (Suc n)
  let ?off = "in_offset inp" and ?lim = "in_limit inp"
  note fields = query_of_input_fields [OF Suc.prems(2)]
  have q: "q\<lparr>offset := ?off\<rparr> = q" using fields by (metis telegram_query.surjective telegram_query.update_convs(12))
  obtain r where r: "query q = Inr r" "res_telegrams r = page q os"
    "limit_reached r = (int (length os) > ?off + ?lim)"
    using Suc.prems(1) [OF Suc.prems(5)] q fields by auto
  have valid: "validate_pagination inp = Inr ()"
    using Suc.prems(3-5) by (simp add: validate_pagination_def)
  have run: "query_telegrams f isoformat query inp =
    Inr \<lparr>out_telegrams = map (summarize isoformat) (page q os), out_total_count = total_count r,
      out_offset = ?off, out_next_offset = (if limit_reached r then Some (?off + ?lim) else None),
      out_limit_reached = limit_reached r\<rparr>"
    using valid Suc.prems(2) r by (simp add: query_telegrams_def)
  show ?case
  proof (cases "limit_reached r")
    case False
    then have "page q os = drop (nat ?off) os"
      using r(3) fields Suc.prems(3,5) by (auto simp: page_def intro!: take_all)
    with False run show ?thesis by simp
  next
    case True
    let ?next = "inp\<lparr>in_offset := ?off + ?lim\<rparr>"
    let ?q = "q\<lparr>offset := ?off + ?lim\<rparr>"
    have more_pages: "0 < n" using True r(3) Suc.prems(3,5,6) by (cases n) auto
    have rest: "all_pages n (query_telegrams f isoformat query) ?next =
      Some (Inr (map (summarize isoformat) (drop (nat (?off + ?lim)) os)))"
      using Suc.IH [of ?q ?next] Suc.prems(1,3-6) query_of_input_offset [OF Suc.prems(2)] more_pages
      by simp
    have "page q os @ drop (nat (?off + ?lim)) os = drop (nat ?off) os"
      using fields Suc.prems(3,5) by (simp add: page_def nat_add_distrib add.commute flip: drop_drop)
    with True run rest show ?thesis by (simp flip: map_append)
  qed
qed simp

end
