(* ===== verification/ToolProperties.thy ===== *)
theory ToolProperties
  imports McpTools Samples
begin

text \<open>
  What the tools guarantee to a client that reads page by page and hands back the datapoint types
  it was shown.
\<close>

section \<open>Pages\<close>

lemma selects_offset [simp]: "selects (q\<lparr>offset := off\<rparr>) ts t = selects q ts t"
  by (simp add: selects_def matches_def dpt_group_def in_time_range_def window_on_def near_def)

lemma selection_offset [simp]: "selection (q\<lparr>offset := off\<rparr>) ts = selection q ts"
  unfolding selection_def by (rule filter_cong [OF refl]) simp

lemma queryable_offset [simp]: "memory_queryable s (q\<lparr>offset := off\<rparr>) = memory_queryable s q"
  by (simp add: memory_queryable_def bounds_aware_def window_on_def shifts_ok_def)



section \<open>Datapoint types\<close>

text \<open>
  A datapoint type survives the trip to the client and back: the text a telegram is shown with,
  main number or main and three-digit sub number, is accepted as a filter entry and parsed as the
  numbers it was made of.
\<close>

lemma dpt_text_roundtrip:
  assumes "0 \<le> m" and "case sub of None \<Rightarrow> True | Some s \<Rightarrow> 0 \<le> s"
  shows "\<exists>txt. format_dpt (Some m) sub = Some txt \<and> parse_dpt txt = Inr (m, sub)"
  by (rule dpt_roundtrip_lemma [OF assms])

end
