(* ===== verification/FileProperties.thy ===== *)
theory FileProperties
  imports SqliteFile StoreInterface
begin

text \<open>
  What the conversions guarantee: of a value to its column and back, of the timestamps of an old
  SQLite file to UTC and to integers; and what a backup does with its connection.
\<close>

section \<open>Columns\<close>

text \<open>
  A timestamp column keeps the instant to the microsecond on every dialect: what is bound comes
  back as the aware UTC datetime of the same instant, a naive value taken as UTC, and SQLite's
  integers order like the instants.
\<close>

lemma utc_column_roundtrip:
  assumes "in_range (instant v)"
  shows "bind_res (process_bind_param dialect (DbDatetime v)) (process_result_value dialect) =
      Inr (DbDatetime (Datetime (instant v) (Some 0))) \<and>
    (datetime_to_micros v < datetime_to_micros w) = (instant v < instant w)"
  using utc_column_roundtrip_lemma [OF assms] by (simp add: to_utc_def)

section \<open>Pre-UTC timestamps\<close>

text \<open>
  The boundary between two offsets is found to the second: bisecting an hour in which the offset
  changes once, at a whole second, ends at that second, though the bisection only narrows the
  change down to a second and rounds half microseconds to even.
\<close>

lemma transition_found:
  assumes "changes_at z before after t"
  shows "transition_between before after z (offset_at z before) = t"
  by (rule transition_between_ok [OF assms])

text \<open>Central European time in spring 2023: from 2023-03-26 02:00:00 local time two hours ahead of UTC.\<close>

definition spring :: zone where
  "spring = \<lparr>offset_at = (\<lambda>w. if w < 1679796000000000 then 3600 else 7200),
     local_at = (\<lambda>u. if u < 1679792400000000 then u + 3600000000 else u + 7200000000)\<rparr>"

lemma spring_changes:
  "changes_at spring (1679796000000000 - 1800000000) (1679796000000000 + 1800000000) 1679796000000000"
  by (simp add: changes_at_def spring_def second_def)

text \<open>
  C10: The conversion to UTC shifts every legacy row by the offset of its own wall clock, also across
  changes of the offset, and no other row; it flags the file, and a second run touches nothing.
\<close>

theorem migration_converts_each_row:
  assumes "\<not> read_only" and "\<not> utc_flag f" and "require_free_space free file_size = Inr ()"
    and "legacy_row_scopes z f = (tscope, lscope)"
    and "convertible z (map u_timestamp (filter tscope (u_telegrams f)))"
    and "convertible z (map u_timestamp (filter lscope (u_last_ga f)))"
  shows "\<exists>n f'. migrate_timestamps_to_utc read_only free file_size z f = (Inr n, f') \<and>
    u_telegrams f' = map (\<lambda>r. if tscope r
      then r\<lparr>u_timestamp := u_timestamp r - offset_at z (u_timestamp r) * 1000000\<rparr> else r) (u_telegrams f) \<and>
    u_last_ga f' = map (\<lambda>r. if lscope r
      then r\<lparr>u_timestamp := u_timestamp r - offset_at z (u_timestamp r) * 1000000\<rparr> else r) (u_last_ga f) \<and>
    migrate_timestamps_to_utc read_only free' file_size' z' f' = (Inr 0, f')"
proof -
  obtain n f' where "migrate_timestamps_to_utc read_only free file_size z f = (Inr n, f')" "utc_flag f'"
    "u_telegrams f' = map (\<lambda>r. if tscope r then to_utc_row z r else r) (u_telegrams f)"
    "u_last_ga f' = map (\<lambda>r. if lscope r then to_utc_row z r else r) (u_last_ga f)"
    using migrate_ok [OF assms] by blast
  with migrate_done [OF assms(1), of f'] show ?thesis by (auto simp: to_utc_row_def second_def)
qed

text \<open>Two rows an hour before and after the change, and a summary row after it.\<close>

definition spring_file :: utc_file where
  "spring_file = \<lparr>u_telegrams = [\<lparr>u_rowid = 1, u_timestamp = 1679796000000000 - hour\<rparr>,
       \<lparr>u_rowid = 2, u_timestamp = 1679796000000000 + hour\<rparr>],
     u_last_ga = [\<lparr>u_rowid = 1, u_timestamp = 1679796000000000 + hour\<rparr>],
     utc_flag = False, utc_boundary = None, legacy_max_rowid = None, utc_source_zone = None\<rparr>"

lemma spring_regular: "c0 mod hour = 0 \<Longrightarrow> regular spring c0 hi"
  unfolding regular_def
proof (intro allI impI)
  fix c
  assume "c0 \<le> c \<and> c \<le> hi \<and> c mod hour = 0"
  then obtain k where c: "c = hour * k" by (auto simp: mod_eq_0_iff_dvd dvd_def)
  have t: "1679796000000000 = hour * 466610" by (simp add: hour_def)
  consider "c + hour < 1679796000000000" | "c + hour = 1679796000000000" | "1679796000000000 \<le> c"
    unfolding c t by (cases "k + 1 < 466610"; cases "k + 1 = 466610") (auto simp: hour_def)
  then show "steady spring c (c + hour) \<or> (\<exists>t. changes_at spring c (c + hour) t)"
  proof cases
    case 1
    then show ?thesis by (simp add: steady_def spring_def)
  next
    case 2
    then have "changes_at spring c (c + hour) 1679796000000000"
      by (auto simp: changes_at_def spring_def second_def hour_def)
    then show ?thesis by blast
  next
    case 3
    then show ?thesis by (simp add: steady_def spring_def hour_def)
  qed
qed

theorem migration_converts_each_row_witness:
  "\<exists>n f'. migrate_timestamps_to_utc False (Some 100) 10 spring spring_file = (Inr n, f') \<and>
    u_telegrams f' = map (\<lambda>r. if (\<lambda>_. True) r
      then r\<lparr>u_timestamp := u_timestamp r - offset_at spring (u_timestamp r) * 1000000\<rparr> else r) (u_telegrams spring_file) \<and>
    u_last_ga f' = map (\<lambda>r. if (\<lambda>_. True) r
      then r\<lparr>u_timestamp := u_timestamp r - offset_at spring (u_timestamp r) * 1000000\<rparr> else r) (u_last_ga spring_file) \<and>
    migrate_timestamps_to_utc False None 0 spring f' = (Inr 0, f')"
  by (rule migration_converts_each_row)
    (simp_all add: spring_file_def require_free_space_def legacy_row_scopes_def convertible_def Let_def
      spring_regular in_range_def min_wall_def max_wall_def hour_def)

text \<open>
  The conversion to UTC is one transaction: a run that raises, for want of space, on a read-only
  store or because a timestamp would leave the calendar, leaves rows and markers as they were, and
  one that returns has flagged the file.
\<close>

lemma migration_all_or_nothing:
  "case migrate_timestamps_to_utc read_only free file_size z f of
     (Inl e, f') \<Rightarrow> f' = f
   | (Inr n, f') \<Rightarrow> utc_flag f'"
  using migrate_failed_unchanged [of read_only free file_size z f]
  by (auto simp: migrate_timestamps_to_utc_def wrapped_def Let_def split: sum.splits prod.splits if_splits)

section \<open>Integer timestamps\<close>

text \<open>A pass that reports success was not stopped.\<close>

lemma convert_batches_success:
  "convert_batches fails lows rows = (Inr (), rows') \<Longrightarrow> \<forall>low \<in> set lows. fails low = None"
  by (induction fails lows rows rule: convert_batches.induct) (auto split: option.splits)

lemma convert_table_success:
  assumes "convert_table_to_integers fails rows = (Inr (), rows')" and "\<forall>r \<in> set rows. 0 < c_rowid r"
  shows "rows' = map convert_cell rows"
proof -
  let ?lows = "py_range_from_0 (if rows = [] then 0 else Max (c_rowid ` set rows)) CONVERSION_BATCH_ROWS"
  have "convert_batches fails ?lows rows = (Inr (), rows')"
    using assms(1) by (simp add: convert_table_to_integers_def Let_def)
  from convert_batches_success [OF this] have "convert_batches fails ?lows rows = convert_batches (\<lambda>_. None) ?lows rows"
    by (simp add: convert_batches_all)
  with \<open>convert_batches fails ?lows rows = (Inr (), rows')\<close> convert_table_complete [OF assms(2), of "\<lambda>_. None"]
  show ?thesis by (simp add: convert_table_to_integers_def Let_def)
qed

lemma partly_rowids:
  assumes "partly_converted rows rows'" and "\<forall>r \<in> set rows. 0 < c_rowid r"
  shows "\<forall>r \<in> set rows'. 0 < c_rowid r"
proof -
  have "map c_rowid rows' = map c_rowid rows"
    using arg_cong [OF assms(1) [unfolded partly_converted_def], of "map c_rowid"] by (simp add: comp_def)
  with assms(2) show ?thesis by (metis imageE imageI list.set_map)
qed

lemma convert_table_resume:
  assumes "\<forall>r \<in> set rows. 0 < c_rowid r"
  shows "partly_converted rows (snd (convert_table_to_integers fails rows))"
    and "map convert_cell (snd (convert_table_to_integers fails rows)) = map convert_cell rows"
proof -
  show "partly_converted rows (snd (convert_table_to_integers fails rows))"
    by (simp add: convert_table_to_integers_def Let_def convert_batches_partly)
  then show "map convert_cell (snd (convert_table_to_integers fails rows)) = map convert_cell rows"
    by (simp add: partly_converted_def)
qed

text \<open>A start that nothing stops.\<close>

lemma full_conversion:
  assumes "\<not> integer_flag f" and "\<forall>r \<in> set (i_telegrams f). 0 < c_rowid r" and "\<forall>r \<in> set (i_last_ga f). 0 < c_rowid r"
  shows "\<exists>rewritten f'. convert_timestamps_to_integers (\<lambda>_. None) None file_size f = (Inr rewritten, f') \<and>
    i_telegrams f' = map convert_cell (i_telegrams f) \<and> i_last_ga f' = map convert_cell (i_last_ga f) \<and> integer_flag f'"
proof (cases "list_ex is_text (i_telegrams f) \<or> list_ex is_text (i_last_ga f)")
  case True
  with assms convert_table_complete [OF assms(2), of "\<lambda>_. None"] convert_table_complete [OF assms(3), of "\<lambda>_. None"]
  show ?thesis by (auto simp: convert_timestamps_to_integers_def require_free_space_def Let_def)
next
  case False
  with assms(1) no_text_converted [of "i_telegrams f"] no_text_converted [of "i_last_ga f"] show ?thesis
    by (auto simp: convert_timestamps_to_integers_def)
qed

text \<open>A start that something may stop: some rows are converted, all of them if the flag is set.\<close>

lemma interrupted_conversion:
  assumes "convert_timestamps_to_integers fails free file_size f = (res, f')" and "\<not> integer_flag f"
    and pos: "\<forall>r \<in> set (i_telegrams f). 0 < c_rowid r" "\<forall>r \<in> set (i_last_ga f). 0 < c_rowid r"
  shows "partly_converted (i_telegrams f) (i_telegrams f')" and "partly_converted (i_last_ga f) (i_last_ga f')"
    and "integer_flag f' \<Longrightarrow> i_telegrams f' = map convert_cell (i_telegrams f) \<and>
      i_last_ga f' = map convert_cell (i_last_ga f)"
proof -
  let ?tg = "convert_table_to_integers fails (i_telegrams f)" and ?lga = "convert_table_to_integers fails (i_last_ga f)"
  have part: "partly_converted (i_telegrams f) (snd ?tg)" "partly_converted (i_last_ga f) (snd ?lga)"
    using convert_table_resume(1) pos by blast+
  have all: "fst ?tg = Inr () \<Longrightarrow> snd ?tg = map convert_cell (i_telegrams f)"
    "fst ?lga = Inr () \<Longrightarrow> snd ?lga = map convert_cell (i_last_ga f)"
    using convert_table_success pos by (metis prod.collapse)+
  have refl: "partly_converted rows rows" for rows by (simp add: partly_converted_def)
  consider (none) "\<not> (list_ex is_text (i_telegrams f) \<or> list_ex is_text (i_last_ga f))"
    | (space) e where "list_ex is_text (i_telegrams f) \<or> list_ex is_text (i_last_ga f)"
        "require_free_space free (file_size div 2) = Inl e"
    | (first) e where "list_ex is_text (i_telegrams f) \<or> list_ex is_text (i_last_ga f)"
        "require_free_space free (file_size div 2) = Inr ()" "fst ?tg = Inl e"
    | (both) "list_ex is_text (i_telegrams f) \<or> list_ex is_text (i_last_ga f)"
        "require_free_space free (file_size div 2) = Inr ()" "fst ?tg = Inr ()"
    by (cases "require_free_space free (file_size div 2)"; cases "fst ?tg") auto
  then have "partly_converted (i_telegrams f) (i_telegrams f') \<and> partly_converted (i_last_ga f) (i_last_ga f') \<and>
    (integer_flag f' \<longrightarrow> i_telegrams f' = map convert_cell (i_telegrams f) \<and> i_last_ga f' = map convert_cell (i_last_ga f))"
  proof cases
    case none
    with assms(1,2) no_text_converted [of "i_telegrams f"] no_text_converted [of "i_last_ga f"] refl show ?thesis
      by (auto simp: convert_timestamps_to_integers_def)
  next
    case space
    with assms(1,2) refl show ?thesis by (auto simp: convert_timestamps_to_integers_def)
  next
    case first
    with assms(1,2) refl part show ?thesis
      by (cases ?tg) (auto simp: convert_timestamps_to_integers_def Let_def)
  next
    case both
    with assms(1,2) refl part all show ?thesis
      by (cases ?tg; cases ?lga; cases "fst ?lga") (auto simp: convert_timestamps_to_integers_def Let_def)
  qed
  then show "partly_converted (i_telegrams f) (i_telegrams f')" "partly_converted (i_last_ga f) (i_last_ga f')"
    "integer_flag f' \<Longrightarrow> i_telegrams f' = map convert_cell (i_telegrams f) \<and> i_last_ga f' = map convert_cell (i_last_ga f)"
    by blast+
qed


text \<open>An old file: one row with a fraction, one without, one converted already.\<close>

definition old_file :: int_file where
  "old_file = \<lparr>i_telegrams = [\<lparr>c_rowid = 1, c_timestamp = TextCell 1700000000 (Some ''25'')\<rparr>,
       \<lparr>c_rowid = 60000, c_timestamp = TextCell 1700000001 None\<rparr>],
     i_last_ga = [\<lparr>c_rowid = 1, c_timestamp = IntCell 1700000002000000\<rparr>],
     integer_flag = False, vacuum_pending = False, timestamp_index = True\<rparr>"


section \<open>Backups\<close>

lemma case_wrapped:
  "(case wrapped rs of (Inl e, s) \<Rightarrow> P s | (Inr v, s) \<Rightarrow> Q s) = (case rs of (Inl e, s) \<Rightarrow> P s | (Inr v, s) \<Rightarrow> Q s)"
  by (cases rs; cases "fst rs") (auto simp: wrapped_def wrap_store_errors_def)

text \<open>
  A backup never leaks its connection: over the other connections of the pool there is exactly
  the one a running backup of a file holds, after every begin and every end, whatever of them
  fails, and a begin that fails leaves everything as it was.
\<close>

lemma backup_connection_kept:
  assumes "backup_inv others b"
  shows "backup_inv others (snd (sqlite_begin_backup connect locking b)) \<and>
    backup_inv others (snd (sqlite_end_backup commit b)) \<and>
    (case sqlite_begin_backup connect locking b of
       (Inl e, b') \<Rightarrow> b' = b
     | (Inr _, b') \<Rightarrow> \<not> backup_in_progress b \<and> backup_in_progress b')"
proof (intro conjI)
  show "backup_inv others (snd (sqlite_begin_backup connect locking b))"
    "backup_inv others (snd (sqlite_end_backup commit b))"
    by (rule backup_inv_step [OF assms])+
  show "case sqlite_begin_backup connect locking b of
      (Inl e, b') \<Rightarrow> b' = b | (Inr _, b') \<Rightarrow> \<not> backup_in_progress b \<and> backup_in_progress b'"
    unfolding sqlite_begin_backup_def case_wrapped Let_def
    by (cases "bk_read_only b"; cases "backup_in_progress b"; cases "bk_is_memory b"; cases connect; cases locking) simp_all
qed

section \<open>JSON columns\<close>

text \<open>
  A JSON column either refuses a value with TypeError or gives it back with every tuple turned
  into a list, whatever its nesting; it refuses exactly the values that contain something JSON
  cannot express.
\<close>

lemma json_column_roundtrip:
  "case json_dumps v of
     Inl e \<Rightarrow> \<not> json_ok v \<and> e = raise_exc TypeError
   | Inr j \<Rightarrow> json_ok v \<and> json_loads j = as_json v"
proof (cases "json_ok v")
  case True
  with json_dumps_Inr [OF True] show ?thesis by auto
next
  case False
  with json_dumps_Inl [OF False] show ?thesis by simp
qed

end
