(* ===== verification/Connection.thy ===== *)
theory Connection
  imports Errors
begin

text \<open>
  Checks of a store's configuration and connection (src/knx_telegram_store/connection.py and the
  methods \<open>check_config\<close> and \<open>check_connection\<close> of the backends), and the part of
  \<open>SqliteStore.__init__\<close> that touches the file system.
\<close>

section \<open>Results\<close>

datatype error_kind =
    OK | AUTH | HOST_UNREACHABLE | DATABASE_MISSING | PERMISSION | TIMEOUT
  | MISSING_DEPENDENCY | MISSING_TIMESCALEDB | UNKNOWN

text \<open>The detail is the text of an exception: here the exception.\<close>

record check_result =
  check_ok :: bool
  check_kind :: error_kind
  check_message :: string
  check_detail :: "exc option"

definition check_success :: "string \<Rightarrow> check_result" where
  "check_success msg = \<lparr>check_ok = True, check_kind = OK, check_message = msg, check_detail = None\<rparr>"

definition check_failure :: "error_kind \<Rightarrow> string \<Rightarrow> exc option \<Rightarrow> check_result" where
  "check_failure k msg det = \<lparr>check_ok = False, check_kind = k, check_message = msg, check_detail = det\<rparr>"

lemma check_result_simps [simp]:
  "check_ok (check_success msg)" "check_kind (check_success msg) = OK"
  "check_message (check_success msg) = msg"
  "\<not> check_ok (check_failure k msg det)" "check_kind (check_failure k msg det) = k"
  "check_message (check_failure k msg det) = msg"
  by (simp_all add: check_success_def check_failure_def)

section \<open>The file system\<close>

text \<open>
  Absolute paths as their components, without \<open>..\<close> and symbolic links. A node has the permissions
  of the calling process.
\<close>

type_synonym path = "string list"

datatype node =
    File (readable: bool) (writable: bool)
  | Dir (readable: bool) (writable: bool) (traversable: bool)

type_synonym fs = "path \<rightharpoonup> node"

definition wf_fs :: "fs \<Rightarrow> bool" where
  "wf_fs fs \<longleftrightarrow> (\<exists>r w x. fs [] = Some (Dir r w x)) \<and>
     (\<forall>p c. fs (p @ [c]) \<noteq> None \<longrightarrow> (\<exists>r w x. fs p = Some (Dir r w x)))"

definition str_path :: "path \<Rightarrow> string" where
  "str_path p = (if p = [] then ''/'' else concat (map (\<lambda>c. ''/'' @ c) p))"

abbreviation parent :: "path \<Rightarrow> path" where
  "parent \<equiv> butlast"

text \<open>\<open>os.stat\<close>: every directory on the way has to be traversable.\<close>

fun stat_from :: "fs \<Rightarrow> path \<Rightarrow> path \<Rightarrow> exc + node" where
  "stat_from fs pre [] = (case fs pre of
     None \<Rightarrow> Inl (raise_exc FileNotFoundError) | Some nd \<Rightarrow> Inr nd)"
| "stat_from fs pre (c # cs) = (case fs pre of
     None \<Rightarrow> Inl (raise_exc FileNotFoundError)
   | Some (File _ _) \<Rightarrow> Inl (raise_exc NotADirectoryError)
   | Some (Dir _ _ x) \<Rightarrow>
       if x then stat_from fs (pre @ [c]) cs else Inl (raise_exc PermissionError))"

definition stat :: "fs \<Rightarrow> path \<Rightarrow> exc + node" where
  "stat fs p = stat_from fs [] p"

definition is_dir_node :: "node \<Rightarrow> bool" where
  "is_dir_node nd = (case nd of Dir _ _ _ \<Rightarrow> True | File _ _ \<Rightarrow> False)"

text \<open>\<open>Path.exists\<close> and \<open>Path.is_dir\<close>: a missing file or directory on the way reads as no.\<close>

definition stat_holds :: "(node \<Rightarrow> bool) \<Rightarrow> fs \<Rightarrow> path \<Rightarrow> exc + bool" where
  "stat_holds P fs p = (case stat fs p of
     Inr nd \<Rightarrow> Inr (P nd)
   | Inl e \<Rightarrow> if class_of e \<in> {FileNotFoundError, NotADirectoryError} then Inr False else Inl e)"

abbreviation path_exists :: "fs \<Rightarrow> path \<Rightarrow> exc + bool" where
  "path_exists \<equiv> stat_holds (\<lambda>_. True)"

abbreviation path_is_dir :: "fs \<Rightarrow> path \<Rightarrow> exc + bool" where
  "path_is_dir \<equiv> stat_holds is_dir_node"

definition os_access :: "(node \<Rightarrow> bool) \<Rightarrow> fs \<Rightarrow> path \<Rightarrow> bool" where
  "os_access mode fs p = (case stat fs p of Inr nd \<Rightarrow> mode nd | Inl _ \<Rightarrow> False)"

section \<open>evaluate\_sqlite\_path\<close>

text \<open>The \<open>while\<close> loop that climbs to the nearest existing ancestor.\<close>

function ancestor_loop :: "fs \<Rightarrow> path \<Rightarrow> exc + path" where
  "ancestor_loop fs p = (case path_exists fs p of
     Inl e \<Rightarrow> Inl e
   | Inr found \<Rightarrow>
       if found then Inr p
       else if parent p = p then Inr p
       else ancestor_loop fs (parent p))"
  by pat_completeness auto

termination
proof (relation "measure (\<lambda>(fs, p). length p)", goal_cases)
  case (2 fs p b)
  then show ?case by (cases p) auto
qed simp

declare ancestor_loop.simps [simp del]

datatype location = InMemory | OnDisk path

definition quoted :: "path \<Rightarrow> string" where
  "quoted p = [CHR 0x27] @ str_path p @ [CHR 0x27]"

text \<open>The body of the \<open>try\<close> block and what follows it; an \<open>OSError\<close> in the block is a failure.\<close>

definition check_readable :: "fs \<Rightarrow> path \<Rightarrow> exc + check_result" where
  "check_readable fs p =
     bind_res (path_exists fs p) (\<lambda>found.
       if \<not> found then
         Inr (check_failure PERMISSION
           (''SQLite file '' @ quoted p @ '' does not exist (required for read-only access)'') None)
       else bind_res (path_is_dir fs p) (\<lambda>directory.
         if directory then
           Inr (check_failure PERMISSION (''SQLite path '' @ quoted p @ '' is a directory, not a file'') None)
         else if os_access readable fs p then
           Inr (check_success (''SQLite file '' @ quoted p @ '' is readable''))
         else Inr (check_failure PERMISSION (''SQLite file '' @ quoted p @ '' exists but is not readable'') None)))"

definition check_creatable :: "fs \<Rightarrow> path \<Rightarrow> exc + check_result" where
  "check_creatable fs p =
     bind_res (ancestor_loop fs (parent p)) (\<lambda>ancestor.
     bind_res (path_exists fs ancestor) (\<lambda>found.
       if \<not> found then
         Inr (check_failure PERMISSION (''No existing parent directory found for SQLite file '' @ quoted p) None)
       else bind_res (path_is_dir fs ancestor) (\<lambda>directory.
         if directory \<and> os_access writable fs ancestor then
           Inr (check_success (''SQLite file '' @ quoted p @ '' can be created (directory '' @
             quoted ancestor @ '' is writeable)''))
         else
           Inr (check_failure PERMISSION (''Cannot create SQLite file '' @ quoted p @ '': directory '' @
             quoted ancestor @ '' is not writeable'') None))))"

definition check_writable :: "fs \<Rightarrow> path \<Rightarrow> exc + check_result" where
  "check_writable fs p =
     bind_res (path_exists fs p) (\<lambda>found.
       if found then
         bind_res (path_is_dir fs p) (\<lambda>directory.
           if directory then
             Inr (check_failure PERMISSION (''SQLite path '' @ quoted p @ '' is a directory, not a file'') None)
           else if os_access writable fs p then
             Inr (check_success (''SQLite file '' @ quoted p @ '' is writeable''))
           else
             Inr (check_failure PERMISSION (''SQLite file '' @ quoted p @ '' exists but is not writeable'') None))
       else check_creatable fs p)"

definition evaluate_sqlite_path :: "fs \<Rightarrow> location \<Rightarrow> bool \<Rightarrow> exc + check_result" where
  "evaluate_sqlite_path fs loc read_only = (case loc of
     InMemory \<Rightarrow>
       if read_only then
         Inr (check_failure UNKNOWN ''read_only is not supported for in-memory databases'' None)
       else Inr (check_success ''In-memory SQLite database'')
   | OnDisk p \<Rightarrow>
       (case if read_only then check_readable fs p else check_writable fs p of
          Inr r \<Rightarrow> Inr r
        | Inl e \<Rightarrow>
            if isinstance (class_of e) [OSError] then
              Inr (check_failure PERMISSION (''Cannot access SQLite path '' @ quoted p) (Some e))
            else Inl e))"

section \<open>Opening a SQLite store\<close>

definition os_mkdir :: "fs \<Rightarrow> path \<Rightarrow> (exc + unit) \<times> fs" where
  "os_mkdir fs p =
     (if p = [] then (Inl (raise_exc FileExistsError), fs)
      else (case stat fs (parent p) of
        Inl e \<Rightarrow> (Inl e, fs)
      | Inr (File _ _) \<Rightarrow> (Inl (raise_exc NotADirectoryError), fs)
      | Inr (Dir _ w x) \<Rightarrow>
          if \<not> x then (Inl (raise_exc PermissionError), fs)
          else if fs p \<noteq> None then (Inl (raise_exc FileExistsError), fs)
          else if \<not> w then (Inl (raise_exc PermissionError), fs)
          else (Inr (), fs(p \<mapsto> Dir True True True))))"

text \<open>The \<open>except OSError\<close> clause of \<open>Path.mkdir\<close> with \<open>exist_ok\<close>.\<close>

definition unless_dir :: "exc \<Rightarrow> fs \<Rightarrow> path \<Rightarrow> (exc + unit) \<times> fs" where
  "unless_dir e fs p = (case path_is_dir fs p of
     Inl e' \<Rightarrow> (Inl e', fs) | Inr directory \<Rightarrow> (if directory then Inr () else Inl e, fs))"

definition mkdir_exist_ok :: "fs \<Rightarrow> path \<Rightarrow> (exc + unit) \<times> fs" where
  "mkdir_exist_ok fs p = (case os_mkdir fs p of
     (Inr _, fs) \<Rightarrow> (Inr (), fs)
   | (Inl e, fs) \<Rightarrow> if class_of e = FileNotFoundError then (Inl e, fs) else unless_dir e fs p)"

text \<open>\<open>Path.mkdir(parents=True, exist_ok=True)\<close>\<close>

function mkdir_parents :: "fs \<Rightarrow> path \<Rightarrow> (exc + unit) \<times> fs" where
  "mkdir_parents fs p = (case os_mkdir fs p of
     (Inr _, fs') \<Rightarrow> (Inr (), fs')
   | (Inl e, fs') \<Rightarrow>
       if class_of e = FileNotFoundError then
         if parent p = p then (Inl e, fs')
         else (case mkdir_parents fs (parent p) of
                 (Inl e', fs') \<Rightarrow> (Inl e', fs')
               | (Inr _, fs') \<Rightarrow> mkdir_exist_ok fs' p)
       else unless_dir e fs' p)"
  by pat_completeness auto

termination
proof (relation "measure (\<lambda>(fs, p). length p)", goal_cases)
  case (2 fs p r fs' e)
  then show ?case by (cases p) auto
qed simp

declare mkdir_parents.simps [simp del]

text \<open>\<open>quote(..., safe="/:")\<close> on the bytes of the path.\<close>

definition hex_digit :: "nat \<Rightarrow> char" where
  "hex_digit n = ''0123456789ABCDEF'' ! n"

definition quote_char :: "char \<Rightarrow> string" where
  "quote_char c = (let n = of_char c :: nat in
     if (48 \<le> n \<and> n \<le> 57) \<or> (65 \<le> n \<and> n \<le> 90) \<or> (97 \<le> n \<and> n \<le> 122) \<or> c \<in> set ''_.-~/:''
     then [c] else [CHR 0x25, hex_digit (n div 16), hex_digit (n mod 16)])"

record url =
  url_database :: string
  url_query :: "(string \<times> string) list"

text \<open>The URL the engine is made with, and the directories made for it.\<close>

definition sqlite_url :: "fs \<Rightarrow> location \<Rightarrow> bool \<Rightarrow> (exc + url) \<times> fs" where
  "sqlite_url fs loc read_only = (case loc of
     InMemory \<Rightarrow>
       if read_only then (Inl (raise_exc ValueError), fs)
       else (Inr \<lparr>url_database = '':memory:'', url_query = []\<rparr>, fs)
   | OnDisk p \<Rightarrow>
       if read_only then
         (Inr \<lparr>url_database = ''file:'' @ concat (map quote_char (str_path p)),
               url_query = [(''mode'', ''ro''), (''uri'', ''true'')]\<rparr>, fs)
       else (case mkdir_parents fs (parent p) of
               (Inl e, fs') \<Rightarrow> (Inl e, fs')
             | (Inr _, fs') \<Rightarrow> (Inr \<lparr>url_database = str_path p, url_query = []\<rparr>, fs')))"

text \<open>
  SQLite opens a file it may write, or read with \<open>mode=ro\<close>, and creates a missing one, unless
  read-only, in a directory it may write.
\<close>

definition opens :: "fs \<Rightarrow> location \<Rightarrow> bool \<Rightarrow> bool" where
  "opens fs loc read_only = (case loc of
     InMemory \<Rightarrow> True
   | OnDisk p \<Rightarrow> (case stat fs p of
       Inr (File r w) \<Rightarrow> if read_only then r else w
     | Inr (Dir _ _ _) \<Rightarrow> False
     | Inl _ \<Rightarrow> \<not> read_only \<and>
         (case stat fs (parent p) of Inr (Dir _ w x) \<Rightarrow> w \<and> x | _ \<Rightarrow> False)))"

section \<open>The check is exact\<close>

lemma stat_from_snoc: "stat_from fs pre (cs @ [c]) = (case stat_from fs pre cs of
    Inl e \<Rightarrow> Inl e
  | Inr (File _ _) \<Rightarrow> Inl (raise_exc NotADirectoryError)
  | Inr (Dir _ _ x) \<Rightarrow>
      if \<not> x then Inl (raise_exc PermissionError)
      else (case fs (pre @ cs @ [c]) of None \<Rightarrow> Inl (raise_exc FileNotFoundError) | Some nd \<Rightarrow> Inr nd))"
  by (induction cs arbitrary: pre) (auto split: option.splits node.splits)

lemma stat_snoc: "stat fs (p @ [c]) = (case stat fs p of
    Inl e \<Rightarrow> Inl e
  | Inr (File _ _) \<Rightarrow> Inl (raise_exc NotADirectoryError)
  | Inr (Dir _ _ x) \<Rightarrow>
      if \<not> x then Inl (raise_exc PermissionError)
      else (case fs (p @ [c]) of None \<Rightarrow> Inl (raise_exc FileNotFoundError) | Some nd \<Rightarrow> Inr nd))"
  unfolding stat_def by (subst stat_from_snoc) (unfold append_Nil, rule refl)

lemma stat_Nil: "stat fs [] = (case fs [] of None \<Rightarrow> Inl (raise_exc FileNotFoundError) | Some nd \<Rightarrow> Inr nd)"
  by (simp add: stat_def)

lemma stat_Inr: "stat fs p = Inr nd \<Longrightarrow> fs p = Some nd"
  by (cases p rule: rev_cases) (auto simp: stat_Nil stat_snoc split: sum.splits node.splits if_splits option.splits)

lemma stat_errors: "stat fs p = Inl e \<Longrightarrow>
    e \<in> raise_exc ` {FileNotFoundError, NotADirectoryError, PermissionError}"
proof (induction p rule: rev_induct)
  case (snoc c p)
  then show ?case by (auto simp: stat_snoc split: sum.splits node.splits if_splits option.splits)
qed (auto simp: stat_Nil split: option.splits)

lemma stat_holds_simps [simp]:
  "stat fs p = Inr nd \<Longrightarrow> stat_holds P fs p = Inr (P nd)"
  "stat fs p = Inl (raise_exc FileNotFoundError) \<Longrightarrow> stat_holds P fs p = Inr False"
  "stat fs p = Inl (raise_exc NotADirectoryError) \<Longrightarrow> stat_holds P fs p = Inr False"
  "stat fs p = Inl (raise_exc PermissionError) \<Longrightarrow> stat_holds P fs p = Inl (raise_exc PermissionError)"
  by (simp_all add: stat_holds_def)

lemma stat_cases [consumes 1, case_names found missing not_dir denied]:
  assumes "wf_fs fs"
  obtains nd where "stat fs p = Inr nd" "fs p = Some nd"
  | "stat fs p = Inl (raise_exc FileNotFoundError)" "fs p = None"
  | "stat fs p = Inl (raise_exc NotADirectoryError)" "fs p = None"
  | "stat fs p = Inl (raise_exc PermissionError)"
proof -
  have some: "stat fs p = Inr nd \<or> stat fs p = Inl (raise_exc PermissionError)" if "fs p = Some nd" for p nd
    using that
  proof (induction p arbitrary: nd rule: rev_induct)
    case (snoc c p)
    with assms obtain r w x where "fs p = Some (Dir r w x)" unfolding wf_fs_def by blast
    with snoc show ?case by (auto simp: stat_snoc split: if_splits)
  qed (simp add: stat_Nil)
  show thesis
  proof (cases "stat fs p")
    case (Inl e)
    then show ?thesis using stat_errors [OF Inl] some [of p] that by (cases "fs p") auto
  qed (auto dest: stat_Inr intro: that)
qed

lemma root_dir: "wf_fs fs \<Longrightarrow> \<exists>r w x. stat fs [] = Inr (Dir r w x)"
  by (auto simp: wf_fs_def stat_Nil)

lemma ancestor_found [simp]: "stat fs p = Inr nd \<Longrightarrow> ancestor_loop fs p = Inr p"
  by (subst ancestor_loop.simps) simp

lemma ancestor_denied [simp]:
  "stat fs p = Inl (raise_exc PermissionError) \<Longrightarrow> ancestor_loop fs p = Inl (raise_exc PermissionError)"
  by (subst ancestor_loop.simps) simp

lemma ancestor_up:
  "stat fs (p @ [c]) \<in> Inl ` raise_exc ` {FileNotFoundError, NotADirectoryError} \<Longrightarrow>
    ancestor_loop fs (p @ [c]) = ancestor_loop fs p"
  by (subst ancestor_loop.simps) auto

text \<open>What the climb ends at.\<close>

lemma ancestor_node:
  assumes "wf_fs fs"
  shows "(\<exists>a nd. ancestor_loop fs p = Inr a \<and> stat fs a = Inr nd \<and>
      (stat fs p = Inl (raise_exc NotADirectoryError) \<longrightarrow> \<not> is_dir_node nd) \<and>
      (stat fs p = Inl (raise_exc FileNotFoundError) \<longrightarrow> (\<exists>r w. nd = Dir r w True))) \<or>
    ancestor_loop fs p = Inl (raise_exc PermissionError) \<and> stat fs p = Inl (raise_exc PermissionError)"
proof (induction p rule: rev_induct)
  case Nil
  then show ?case using root_dir [OF assms] by auto
next
  case (snoc c p)
  show ?case using assms
  proof (cases rule: stat_cases [where p = p])
    case (found nd)
    then show ?thesis
      by (cases nd) (auto simp: stat_snoc ancestor_up is_dir_node_def split: option.splits)
  qed (use snoc in \<open>auto simp: stat_snoc ancestor_up\<close>)
qed

lemma stat_update [simp]: "length p < length q \<Longrightarrow> stat (fs(q \<mapsto> nd)) p = stat fs p"
proof (induction p rule: rev_induct)
  case (snoc c p)
  then have "p @ [c] \<noteq> q" by auto
  with snoc show ?case by (simp add: stat_snoc)
qed (auto simp: stat_Nil)

lemma mkdir_found:
  assumes "wf_fs fs" and "stat fs p = Inr nd"
  shows "mkdir_parents fs p = (if is_dir_node nd then Inr () else Inl (raise_exc FileExistsError), fs)"
proof -
  have "os_mkdir fs p = (Inl (raise_exc FileExistsError), fs)"
    using assms by (cases p rule: rev_cases)
      (auto simp: os_mkdir_def stat_snoc split: sum.splits node.splits if_splits option.splits)
  with assms(2) show ?thesis by (subst mkdir_parents.simps) (simp add: unless_dir_def)
qed

definition creatable :: "fs \<Rightarrow> path \<Rightarrow> bool" where
  "creatable fs p \<longleftrightarrow> (\<exists>a r. ancestor_loop fs p = Inr a \<and> stat fs a = Inr (Dir r True True))"

lemma mkdir_spec:
  assumes wf: "wf_fs fs" and "stat fs p = Inl e"
  shows "if creatable fs p
    then \<exists>fs'. mkdir_parents fs p = (Inr (), fs') \<and> stat fs' p = Inr (Dir True True True) \<and>
      (\<forall>q. length p < length q \<longrightarrow> fs' q = fs q)
    else \<exists>e' fs'. mkdir_parents fs p = (Inl e', fs')"
  using assms(2)
proof (induction p arbitrary: e rule: rev_induct)
  case Nil
  then show ?case using root_dir [OF wf] by auto
next
  case (snoc c p)
  let ?p = "p @ [c]"
  show ?case using wf
  proof (cases rule: stat_cases [where p = p])
    case (found nd)
    then show ?thesis using snoc.prems
      by (cases nd) (auto simp: stat_snoc ancestor_up creatable_def mkdir_parents.simps [of fs ?p]
        os_mkdir_def unless_dir_def split: option.splits if_splits)
  next
    case missing
    then have up: "stat fs ?p = Inl (raise_exc FileNotFoundError)" by (simp add: stat_snoc)
    then have same: "creatable fs ?p = creatable fs p" by (simp add: creatable_def ancestor_up)
    have none: "fs ?p = None" using missing(2) wf by (metis option.distinct(1) wf_fs_def)
    have mk: "mkdir_parents fs ?p = (case mkdir_parents fs p of
        (Inl e', fs') \<Rightarrow> (Inl e', fs') | (Inr _, fs') \<Rightarrow> mkdir_exist_ok fs' ?p)"
      using missing by (subst mkdir_parents.simps) (simp add: os_mkdir_def)
    show ?thesis
    proof (cases "creatable fs p")
      case True
      with snoc.IH [OF missing(1)] obtain fs' where fs': "mkdir_parents fs p = (Inr (), fs')"
        "stat fs' p = Inr (Dir True True True)" "\<forall>q. length p < length q \<longrightarrow> fs' q = fs q" by auto
      then have "os_mkdir fs' ?p = (Inr (), fs'(?p \<mapsto> Dir True True True))"
        using none by (simp add: os_mkdir_def)
      moreover have "stat (fs'(?p \<mapsto> Dir True True True)) ?p = Inr (Dir True True True)"
        using fs'(2) by (simp add: stat_snoc)
      ultimately show ?thesis using True same mk fs'
        by (auto simp: mkdir_exist_ok_def)
    next
      case False
      with snoc.IH [OF missing(1)] same mk show ?thesis by auto
    qed
  qed (use snoc.prems ancestor_node [OF wf, of p] in \<open>auto simp: stat_snoc ancestor_up creatable_def
      mkdir_parents.simps [of fs ?p] os_mkdir_def unless_dir_def is_dir_node_def\<close>)
qed

lemma writable_dir: "is_dir_node nd \<and> writable nd \<longleftrightarrow> (\<exists>r x. nd = Dir r True x)"
  by (cases nd) (auto simp: is_dir_node_def)

text \<open>Climbing from a missing path, being a writable directory is enough: it is traversable too.\<close>

lemma creatable_iff:
  assumes "wf_fs fs" and "stat fs p \<in> Inl ` raise_exc ` {FileNotFoundError, NotADirectoryError}"
  shows "creatable fs p \<longleftrightarrow>
    (\<exists>a nd. ancestor_loop fs p = Inr a \<and> stat fs a = Inr nd \<and> is_dir_node nd \<and> writable nd)"
  using ancestor_node [OF assms(1), of p] assms(2)
  by (auto simp: creatable_def writable_dir) (auto simp: is_dir_node_def)

lemma check_creatable_eval:
  assumes "wf_fs fs" and "stat fs (parent p) \<noteq> Inl (raise_exc PermissionError)"
  shows "\<exists>r. check_creatable fs p = Inr r \<and> (check_ok r \<longleftrightarrow>
    (\<exists>a nd. ancestor_loop fs (parent p) = Inr a \<and> stat fs a = Inr nd \<and> is_dir_node nd \<and> writable nd))"
  using ancestor_node [OF assms(1), of "parent p"] assms(2)
  by (auto simp: check_creatable_def os_access_def)

lemma check_writable_exact:
  assumes "wf_fs fs"
  shows "\<exists>r. evaluate_sqlite_path fs (OnDisk p) False = Inr r \<and>
    (check_ok r \<longleftrightarrow> (\<exists>u fs'. sqlite_url fs (OnDisk p) False = (Inr u, fs') \<and> opens fs' (OnDisk p) False))"
proof (cases p rule: rev_cases)
  case Nil
  then show ?thesis using root_dir [OF assms]
    by (auto simp: evaluate_sqlite_path_def check_writable_def is_dir_node_def sqlite_url_def opens_def mkdir_found [OF assms])
next
  case (snoc q c)
  note defs = snoc evaluate_sqlite_path_def check_writable_def sqlite_url_def opens_def os_access_def stat_snoc
  show ?thesis using assms
  proof (cases rule: stat_cases [where p = q])
    case (found nd)
    then show ?thesis
      using check_creatable_eval [OF assms, of p]
      by (cases nd) (auto simp: defs mkdir_found [OF assms] is_dir_node_def isinstance_def split: option.splits node.splits)
  next
    case missing
    have q: "stat fs q \<in> Inl ` raise_exc ` {FileNotFoundError, NotADirectoryError}" using missing by simp
    have none: "fs p = None" using missing(2) assms snoc by (metis option.distinct(1) wf_fs_def)
    obtain r where r: "check_creatable fs p = Inr r" "check_ok r \<longleftrightarrow> creatable fs q"
      using check_creatable_eval [OF assms, of p] missing snoc by (auto simp: creatable_iff [OF assms q])
    have "creatable fs q \<longleftrightarrow> (\<exists>u fs'. sqlite_url fs (OnDisk p) False = (Inr u, fs') \<and> opens fs' (OnDisk p) False)"
      using mkdir_spec [OF assms missing(1)] none snoc
      by (cases "creatable fs q") (auto simp: sqlite_url_def opens_def stat_snoc)
    with r missing show ?thesis
      by (simp add: evaluate_sqlite_path_def check_writable_def snoc stat_snoc)
  next
    case not_dir
    have q: "stat fs q \<in> Inl ` raise_exc ` {FileNotFoundError, NotADirectoryError}" using not_dir by simp
    obtain r where r: "check_creatable fs p = Inr r" "check_ok r \<longleftrightarrow> creatable fs q"
      using check_creatable_eval [OF assms, of p] not_dir snoc by (auto simp: creatable_iff [OF assms q])
    moreover have no: "\<not> creatable fs q"
      using ancestor_node [OF assms, of q] not_dir by (auto simp: creatable_def is_dir_node_def)
    ultimately show ?thesis using mkdir_spec [OF assms not_dir(1)] not_dir
      by (auto simp: evaluate_sqlite_path_def check_writable_def snoc stat_snoc sqlite_url_def)
  next
    case denied
    then show ?thesis using mkdir_spec [OF assms denied]
      by (auto simp: defs isinstance_def creatable_def)
  qed
qed

lemma check_readable_exact:
  assumes "wf_fs fs"
  shows "\<exists>r. evaluate_sqlite_path fs (OnDisk p) True = Inr r \<and>
    (check_ok r \<longleftrightarrow> (\<exists>u fs'. sqlite_url fs (OnDisk p) True = (Inr u, fs') \<and> opens fs' (OnDisk p) True))"
  using assms
proof (cases rule: stat_cases [where p = p])
  case (found nd)
  then show ?thesis
    by (cases nd) (auto simp: evaluate_sqlite_path_def check_readable_def os_access_def is_dir_node_def
      sqlite_url_def opens_def)
qed (auto simp: evaluate_sqlite_path_def check_readable_def sqlite_url_def opens_def isinstance_def)

section \<open>Classifying failures\<close>

text \<open>\<open>getattr(exc, "orig", None) or exc\<close>\<close>

definition unwrapped :: "exc \<Rightarrow> exc" where
  "unwrapped e = (case e of (nodes, r) \<Rightarrow>
     if r < length nodes then (case exc_orig (nodes ! r) of Some j \<Rightarrow> (nodes, j) | None \<Rightarrow> e) else e)"

definition classify_sqlite_error :: "exc \<Rightarrow> error_kind" where
  "classify_sqlite_error e =
     (if isinstance (class_of (unwrapped e)) [PermissionError, OSError] then PERMISSION else UNKNOWN)"

text \<open>\<open>asyncpg\<close> says whether asyncpg can be imported.\<close>

definition classify_postgres_error :: "bool \<Rightarrow> exc \<Rightarrow> error_kind" where
  "classify_postgres_error asyncpg e =
     (let c = class_of (unwrapped e) in
      if isinstance c [TimeoutError] then TIMEOUT
      else if isinstance c [ModuleNotFoundError, ImportError] then MISSING_DEPENDENCY
      else if asyncpg \<and> isinstance c [InvalidPasswordError, InvalidAuthorizationSpecificationError] then AUTH
      else if asyncpg \<and> isinstance c [InvalidCatalogNameError] then DATABASE_MISSING
      else if asyncpg \<and> isinstance c [InsufficientPrivilegeError] then PERMISSION
      else if isinstance c [GaiError, ConnectionRefusedError, OSError] then HOST_UNREACHABLE
      else UNKNOWN)"

fun message_for_kind :: "error_kind \<Rightarrow> string" where
  "message_for_kind AUTH = ''Authentication failed (check user and password)''"
| "message_for_kind HOST_UNREACHABLE = ''Could not reach the database host (check host and port)''"
| "message_for_kind DATABASE_MISSING = ''The specified database does not exist''"
| "message_for_kind PERMISSION = ''Insufficient privileges for this operation''"
| "message_for_kind TIMEOUT = ''Connection timed out''"
| "message_for_kind MISSING_DEPENDENCY = ''Required database driver is not installed''"
| "message_for_kind MISSING_TIMESCALEDB = ''The TimescaleDB extension is not available on the database server''"
| "message_for_kind UNKNOWN = ''Connection failed''"
| "message_for_kind OK = ''Connection failed''"

section \<open>Probing a connection\<close>

text \<open>
  The outcome of \<open>asyncio.wait_for(_probe(), timeout)\<close> is an argument: a TimeoutError when the time
  runs out, the exception of the engine, or the row. \<open>timeout_text\<close> is the timeout in format \<open>g\<close>.
\<close>

definition probe_failure :: "string \<Rightarrow> (exc \<Rightarrow> error_kind) \<Rightarrow> exc \<Rightarrow> exc + check_result" where
  "probe_failure timeout_text classify e =
     (if isinstance (class_of e) [TimeoutError] then
        Inr (check_failure TIMEOUT (''Connection timed out after '' @ timeout_text @ ''s'') (Some e))
      else if is_exception e then
        Inr (check_failure (classify e) (message_for_kind (classify e)) (Some e))
      else Inl e)"

definition probe_engine :: "string \<Rightarrow> (exc \<Rightarrow> error_kind) \<Rightarrow> exc + unit \<Rightarrow> exc + check_result" where
  "probe_engine timeout_text classify outcome = (case outcome of
     Inl e \<Rightarrow> probe_failure timeout_text classify e
   | Inr _ \<Rightarrow> Inr (check_success ''Connection OK''))"

definition probe_timescaledb :: "bool \<Rightarrow> string \<Rightarrow> exc + unit option \<Rightarrow> exc + check_result" where
  "probe_timescaledb asyncpg timeout_text outcome = (case outcome of
     Inl e \<Rightarrow> probe_failure timeout_text (classify_postgres_error asyncpg) e
   | Inr None \<Rightarrow> Inr (check_failure MISSING_TIMESCALEDB (message_for_kind MISSING_TIMESCALEDB) None)
   | Inr (Some _) \<Rightarrow> Inr (check_success ''Connection OK''))"

definition timescale_advisory :: "check_result \<Rightarrow> check_result" where
  "timescale_advisory r =
     (if check_ok r then check_success ''Connection OK (TimescaleDB available)''
      else if check_kind r = MISSING_TIMESCALEDB then
        check_success (''Connection OK (TimescaleDB not available '' @ [CHR 0xE2, CHR 0x80, CHR 0x94] @
          '' using plain PostgreSQL)'')
      else r)"

text \<open>
  \<open>PostgresStore.check_connection\<close>, and \<open>check_config\<close> on an engine that is disposed afterwards,
  which may raise: \<open>connected\<close> is the outcome of the first probe, \<open>extension\<close> of the second.
\<close>

definition postgres_check_connection :: "bool \<Rightarrow> string \<Rightarrow> exc + unit \<Rightarrow> exc + unit option \<Rightarrow> exc + check_result" where
  "postgres_check_connection asyncpg timeout_text connected extension =
     bind_res (probe_engine timeout_text (classify_postgres_error asyncpg) connected) (\<lambda>result.
       if \<not> check_ok result then Inr result
       else bind_res (probe_timescaledb asyncpg timeout_text extension) (\<lambda>r. Inr (timescale_advisory r)))"

text \<open>
  \<open>_build_engine\<close>: the URL for asyncpg and the \<open>ssl\<close> argument of the connection, None being the default
  False. The parser of URLs and the decoding of percent signs are parameters; a key of the query is
  given once.
\<close>

record db_url =
  url_query :: "string \<rightharpoonup> string"
  url_database :: "string option"
  url_rest :: string

definition asyncpg_dsn :: "string \<Rightarrow> string" where
  "asyncpg_dsn dsn =
     (if take 13 dsn = ''postgresql://'' then ''postgresql+asyncpg://'' @ drop 13 dsn else dsn)"

text \<open>\<open>query.pop("sslmode", None) or query.pop("ssl", None)\<close>: the second only if the first gives nothing.\<close>

definition pop_key :: "string \<Rightarrow> (string \<rightharpoonup> string) \<Rightarrow> string option \<times> (string \<rightharpoonup> string)" where
  "pop_key k q = (case q k of Some v \<Rightarrow> (if v = [] then None else Some v) | None \<Rightarrow> None, q(k := None))"

definition pop_ssl :: "(string \<rightharpoonup> string) \<Rightarrow> string option \<times> (string \<rightharpoonup> string)" where
  "pop_ssl q = (case pop_key ''sslmode'' q of (Some v, q) \<Rightarrow> (Some v, q) | (None, q) \<Rightarrow> pop_key ''ssl'' q)"

definition build_engine ::
  "(string \<Rightarrow> exc + db_url) \<Rightarrow> (string \<Rightarrow> string) \<Rightarrow> string \<Rightarrow> exc + db_url \<times> string option" where
  "build_engine make_url unquote dsn =
     bind_res (make_url (asyncpg_dsn dsn)) (\<lambda>url.
       case pop_ssl (url_query url) of (ssl, query) \<Rightarrow>
         let url = url\<lparr>url_query := query\<rparr> in
         Inr (case url_database url of
                Some name \<Rightarrow> if name = [] then url else url\<lparr>url_database := Some (unquote name)\<rparr>
              | None \<Rightarrow> url, ssl))"

text \<open>\<open>sslmode\<close> is never forwarded, it wins over \<open>ssl\<close>, and every other key of the query is kept.\<close>

lemma build_engine_ssl:
  assumes "build_engine make_url unquote dsn = Inr (url, ssl)" and "make_url (asyncpg_dsn dsn) = Inr given"
  shows "url_query url ''sslmode'' = None"
    and "k \<noteq> ''sslmode'' \<Longrightarrow> k \<noteq> ''ssl'' \<Longrightarrow> url_query url k = url_query given k"
    and "url_query given ''sslmode'' = Some mode \<Longrightarrow> mode \<noteq> [] \<Longrightarrow> ssl = Some mode"
    and "url_query given ''sslmode'' = None \<Longrightarrow> url_query given ''ssl'' = None \<Longrightarrow> ssl = None"
  using assms
  by (auto simp: build_engine_def pop_ssl_def pop_key_def Let_def split: option.splits if_splits)

definition postgres_check_config ::
  "exc + db_url \<times> string option \<Rightarrow> bool \<Rightarrow> string \<Rightarrow> exc + unit \<Rightarrow> exc + unit option \<Rightarrow> exc option \<Rightarrow> exc + check_result"
where
  "postgres_check_config built asyncpg timeout_text connected extension dispose =
     bind_res built (\<lambda>_. case dispose of
        Some e \<Rightarrow> Inl e
      | None \<Rightarrow> postgres_check_connection asyncpg timeout_text connected extension)"

text \<open>A connection string that cannot be parsed makes the check raise instead of reporting it.\<close>

lemma postgres_check_config_raises:
  "make_url (asyncpg_dsn dsn) = Inl e \<Longrightarrow>
    postgres_check_config (build_engine make_url unquote dsn) asyncpg timeout_text connected extension dispose = Inl e"
  by (simp add: postgres_check_config_def build_engine_def)

definition sqlite_check_connection :: "string \<Rightarrow> exc + unit \<Rightarrow> exc + check_result" where
  "sqlite_check_connection timeout_text connected = probe_engine timeout_text classify_sqlite_error connected"

definition sqlite_check_config :: "fs \<Rightarrow> location \<Rightarrow> bool \<Rightarrow> exc + check_result" where
  "sqlite_check_config fs loc read_only = evaluate_sqlite_path fs loc read_only"

text \<open>The default of \<open>TelegramStore\<close>, which the memory store has.\<close>

definition default_check_connection :: "exc + check_result" where
  "default_check_connection = Inr (check_success ''Connection OK'')"

text \<open>A result is a success exactly if its kind says so.\<close>

definition consistent :: "check_result \<Rightarrow> bool" where
  "consistent r \<longleftrightarrow> (check_ok r \<longleftrightarrow> check_kind r = OK)"

lemma consistent_simps [simp]:
  "consistent (check_success msg)"
  "consistent (check_failure k msg det) \<longleftrightarrow> k \<noteq> OK"
  by (simp_all add: consistent_def)

lemma classify_not_OK [simp]: "classify_postgres_error a e \<noteq> OK" "classify_sqlite_error e \<noteq> OK"
  "classify_postgres_error a e \<noteq> MISSING_TIMESCALEDB"
  by (simp_all add: classify_postgres_error_def classify_sqlite_error_def Let_def)

lemma evaluate_consistent: "evaluate_sqlite_path fs loc read_only = Inr r \<Longrightarrow> consistent r"
  by (auto simp: evaluate_sqlite_path_def check_readable_def check_writable_def check_creatable_def bind_res_def
      split: location.splits sum.splits if_splits)

section \<open>What the checks promise\<close>


text \<open>A data directory the process may write, with a directory it may not; a path below each.\<close>

definition sample_fs :: fs where
  "sample_fs = [[] \<mapsto> Dir True False True, [''data''] \<mapsto> Dir True True True,
     [''data'', ''ro''] \<mapsto> Dir True False True]"




end
