(* ===== verification/MigrateStore.thy ===== *)
theory MigrateStore
  imports StoreProperties Connection
begin

text \<open>
  The tool that copies the telegrams of one store to another (src/tools/migrate_store.py). Its loops
  end only if the stores answer as they should, so they are partial functions: None means that a
  loop does not end. What the tool prints is left out, but for the two totals.
\<close>

section \<open>The tool\<close>

record 's migration_ops =
  mg_initialize :: "'s \<Rightarrow> (exc + unit) \<times> 's"
  mg_count :: "'s \<Rightarrow> exc + int"
  mg_query :: "'s \<Rightarrow> telegram_query \<Rightarrow> exc + telegram_query_result"
  mg_store_many :: "'s \<Rightarrow> stored_telegram list \<Rightarrow> (exc + unit) \<times> 's"

text \<open>
  The set of datetimes: aware ones are equal when they denote the same instant, and never equal to
  a naive one.
\<close>

definition dt_key :: "datetime \<Rightarrow> int \<times> bool" where
  "dt_key d = (instant d, is_aware d)"

abbreviation ts_key :: "stored_telegram \<Rightarrow> int \<times> bool" where
  "ts_key t \<equiv> dt_key (timestamp t)"

text \<open>The loop that reads the timestamps the destination has.\<close>

partial_function (option) load_timestamps ::
  "(telegram_query \<Rightarrow> exc + telegram_query_result) \<Rightarrow> int \<Rightarrow> int \<Rightarrow> (int \<times> bool) set \<Rightarrow>
   (exc + (int \<times> bool) set) option"
where
  "load_timestamps query batch_size off existing =
     (case query (telegram_query\<lparr>limit := batch_size, offset := off\<rparr>) of
        Inl e \<Rightarrow> Some (Inl e)
      | Inr result \<Rightarrow>
          let existing = existing \<union> set (map ts_key (res_telegrams result)) in
          if limit_reached result then load_timestamps query batch_size (off + batch_size) existing
          else Some (Inr existing))"

text \<open>The loop that copies; the destination is its state.\<close>

partial_function (option) migrate_loop ::
  "(telegram_query \<Rightarrow> exc + telegram_query_result) \<Rightarrow> ('d \<Rightarrow> stored_telegram list \<Rightarrow> (exc + unit) \<times> 'd) \<Rightarrow>
   int \<Rightarrow> bool \<Rightarrow> int \<Rightarrow> int \<Rightarrow> int \<Rightarrow> int \<Rightarrow> (int \<times> bool) set \<Rightarrow> 'd \<Rightarrow> ((exc + int \<times> int) \<times> 'd) option"
where
  "migrate_loop query store_many batch_size descending limit_count off processed migrated existing d =
     (if processed < limit_count then
        let current_batch_size = min batch_size (limit_count - processed) in
        if current_batch_size \<le> 0 then Some (Inr (processed, migrated), d)
        else
          (case query (telegram_query\<lparr>limit := current_batch_size, offset := off, order_descending := descending\<rparr>) of
             Inl e \<Rightarrow> Some (Inl e, d)
           | Inr result \<Rightarrow>
               let found = res_telegrams result in
               if found = [] then Some (Inr (processed, migrated), d)
               else
                 let fresh = filter (\<lambda>t. ts_key t \<notin> existing) found in
                 (case (if fresh \<noteq> [] then store_many d fresh else (Inr (), d)) of
                    (Inl e, d) \<Rightarrow> Some (Inl e, d)
                  | (Inr _, d) \<Rightarrow>
                      let migrated = migrated + int (length fresh);
                          existing = existing \<union> set (map ts_key fresh);
                          processed = processed + int (length found) in
                      if limit_reached result then
                        migrate_loop query store_many batch_size descending limit_count
                          (off + int (length found)) processed migrated existing d
                      else Some (Inr (processed, migrated), d)))
      else Some (Inr (processed, migrated), d))"

definition migrate ::
  "'s migration_ops \<Rightarrow> 'd migration_ops \<Rightarrow> int \<Rightarrow> int option \<Rightarrow> 's \<Rightarrow> 'd \<Rightarrow>
   ((exc + int \<times> int) \<times> 's \<times> 'd) option"
where
  "migrate src dst batch_size limit_newest s d =
     (case mg_initialize src s of
        (Inl e, s) \<Rightarrow> Some (Inl e, s, d)
      | (Inr _, s) \<Rightarrow>
        (case mg_initialize dst d of
           (Inl e, d) \<Rightarrow> Some (Inl e, s, d)
         | (Inr _, d) \<Rightarrow>
           (case mg_count dst d of
              Inl e \<Rightarrow> Some (Inl e, s, d)
            | Inr dest_count \<Rightarrow>
              (case (if 0 < dest_count then load_timestamps (mg_query dst d) batch_size 0 {} else Some (Inr {})) of
                 None \<Rightarrow> None
               | Some (Inl e) \<Rightarrow> Some (Inl e, s, d)
               | Some (Inr existing) \<Rightarrow>
                 (case mg_count src s of
                    Inl e \<Rightarrow> Some (Inl e, s, d)
                  | Inr source_count \<Rightarrow>
                    let limit_count = (case limit_newest of Some n \<Rightarrow> n | None \<Rightarrow> source_count) in
                    map_option (\<lambda>(r, d). (r, s, d))
                      (migrate_loop (mg_query src s) (mg_store_many dst) batch_size (limit_newest \<noteq> None)
                        limit_count 0 0 0 existing d))))))"

text \<open>
  The command: both stores are checked first, then the migration runs; \<open>sys.exit(1)\<close> is an outcome.
  Whatever happens, both stores are closed, and an exception there is the one that is raised.
\<close>

definition get_store :: "string \<Rightarrow> exc + dialect" where
  "get_store backend_type =
     (if backend_type = ''sqlite'' then Inr Sqlite
      else if backend_type = ''postgres'' then Inr Postgresql
      else Inl (raise_exc ValueError))"

datatype command_outcome = Exit1 | ChecksPassed | Completed int int

definition migrate_command ::
  "exc + check_result \<Rightarrow> exc + check_result \<Rightarrow> bool \<Rightarrow> exc + int \<times> int \<Rightarrow> exc option \<Rightarrow> exc option \<Rightarrow>
   exc + command_outcome"
where
  "migrate_command source_check dest_check check_only run close_source close_dest =
     (let body =
        bind_res source_check (\<lambda>a.
        bind_res dest_check (\<lambda>b.
          if \<not> (check_ok a \<and> check_ok b) then Inr Exit1
          else if check_only then Inr ChecksPassed
          else bind_res run (\<lambda>(processed, migrated). Inr (Completed processed migrated))))
      in case close_source of
           Some e \<Rightarrow> Inl e
         | None \<Rightarrow> (case close_dest of Some e \<Rightarrow> Inl e | None \<Rightarrow> body))"

text \<open>The stores \<open>get_store\<close> makes are SQL stores.\<close>

definition sql_migration_ops :: "sql_engine \<Rightarrow> sql_store migration_ops" where
  "sql_migration_ops eng = \<lparr>mg_initialize = sql_initialize eng, mg_count = sql_count eng,
     mg_query = sql_query eng, mg_store_many = sql_store_many eng\<rparr>"

lemma sql_migration_ops_simps [simp]:
  "mg_initialize (sql_migration_ops eng) = sql_initialize eng"
  "mg_count (sql_migration_ops eng) = sql_count eng"
  "mg_query (sql_migration_ops eng) = sql_query eng"
  "mg_store_many (sql_migration_ops eng) = sql_store_many eng"
  by (simp_all add: sql_migration_ops_def)

section \<open>Pages of a whole store\<close>

text \<open>The keys of a store in the order of the pages.\<close>

definition ordered_keys :: "bool \<Rightarrow> stored_telegram list \<Rightarrow> (int \<times> bool) list" where
  "ordered_keys descending ts = map ts_key (sort_key (time_key descending) ts)"

definition all_aware :: "stored_telegram list \<Rightarrow> bool" where
  "all_aware ts \<longleftrightarrow> (\<forall>t \<in> set ts. is_aware (timestamp t))"

definition page_query :: "int \<Rightarrow> int \<Rightarrow> bool \<Rightarrow> telegram_query" where
  "page_query lim off descending = telegram_query\<lparr>limit := lim, offset := off, order_descending := descending\<rparr>"

lemma page_query_simps [simp]:
  "limit (page_query lim off de) = lim" "offset (page_query lim off de) = off"
  "order_descending (page_query lim off de) = de"
  "telegram_query\<lparr>limit := lim, offset := off\<rparr> = page_query lim off True"
  by (simp_all add: page_query_def telegram_query_def)

lemma page_query_all: "selection (page_query lim off de) ts = ts"
  by (simp add: selection_def selects_def window_on_def matches_def passes_def dpt_group_def in_time_range_def
      page_query_def telegram_query_def)

lemma page_query_ok:
  "0 \<le> lim \<Longrightarrow> 0 \<le> off \<Longrightarrow> wf_query (page_query lim off de) \<and> sql_queryable (page_query lim off de)"
  by (simp add: wf_query_def sql_queryable_def bounds_ok_def page_query_def telegram_query_def
      in_range_def min_wall_def max_wall_def)

lemma key_of_time_key:
  "is_aware (timestamp t) \<Longrightarrow> ts_key t = (if de then - time_key de t else time_key de t, True)"
  by (simp add: dt_key_def time_key_def)

lemma same_time_keys:
  assumes "mset os = mset ts" and "sorted (map (time_key de) os)" and "all_aware ts"
  shows "map ts_key os = ordered_keys de ts"
proof -
  let ?g = "\<lambda>k :: int. (if de then - k else k, True)"
  have "mset (map (time_key de) os) = mset (map (time_key de) (sort_key (time_key de) ts))"
    using assms(1) by simp
  then have k: "map (time_key de) os = map (time_key de) (sort_key (time_key de) ts)"
    using assms(2) sorted_sort_key by (metis properties_for_sort)
  have g: "map ts_key xs = map ?g (map (time_key de) xs)" if "set xs \<subseteq> set ts" for xs
    using that assms(3) by (auto simp: all_aware_def key_of_time_key [of _ de])
  have "set os = set ts" using assms(1) by (rule mset_eq_setD)
  then have "map ts_key os = map ?g (map (time_key de) (sort_key (time_key de) ts))"
    using g [of os] k by simp
  also have "\<dots> = ordered_keys de ts" using g [of "sort_key (time_key de) ts"] by (simp add: ordered_keys_def)
  finally show ?thesis .
qed

lemma page_keys:
  assumes "answers (page_query lim off de) ts r" and "all_aware ts"
  shows "map ts_key (res_telegrams r) = take (nat lim) (drop (nat off) (ordered_keys de ts))"
    and "mset (res_telegrams r) \<subseteq># mset ts"
    and "limit_reached r \<longleftrightarrow> off + lim < int (length ts)"
proof -
  obtain os where os: "mset os = mset ts" "sorted (map (time_key de) os)"
    "res_telegrams r = take (nat lim) (drop (nat off) os)"
    using assms(1) by (auto simp: answers_def page_query_all page_def)
  show "map ts_key (res_telegrams r) = take (nat lim) (drop (nat off) (ordered_keys de ts))"
    unfolding os(3) same_time_keys [OF os(1,2) assms(2), symmetric] by (simp only: take_map drop_map)
  have "mset (res_telegrams r) \<subseteq># mset os"
    unfolding os(3)
    by (metis append_take_drop_id mset_append mset_subset_eq_add_left mset_subset_eq_add_right subset_mset.order_trans)
  then show "mset (res_telegrams r) \<subseteq># mset ts" by (simp add: os(1))
  show "limit_reached r \<longleftrightarrow> off + lim < int (length ts)"
    using assms(1) by (auto simp: answers_def page_query_all)
qed

lemma length_ordered_keys [simp]: "length (ordered_keys de ts) = length ts"
  by (simp add: ordered_keys_def)

lemma set_ordered_keys [simp]: "set (ordered_keys de ts) = ts_key ` set ts"
  by (simp add: ordered_keys_def)

lemma contents_aware [simp]: "all_aware (contents s)"
  by (auto simp: all_aware_def contents_def row_telegram_def is_aware_def)

lemma ts_key_stored_form [simp]: "is_aware (timestamp t) \<Longrightarrow> ts_key (stored_form t) = ts_key t"
  using stored_form_simps(1,3) [of t] by (simp add: dt_key_def)

section \<open>The loops end and copy everything\<close>

context healthy_engine
begin

lemma page_ok:
  assumes "sql_ready s" and "0 \<le> lim" and "0 \<le> off"
  shows "\<exists>r. sql_query eng s (page_query lim off de) = Inr r \<and>
    map ts_key (res_telegrams r) = take (nat lim) (drop (nat off) (ordered_keys de (contents s))) \<and>
    mset (res_telegrams r) \<subseteq># mset (contents s) \<and>
    (limit_reached r \<longleftrightarrow> off + lim < int (length (contents s)))"
  using query_ok [OF assms(1), of "page_query lim off de"] page_query_ok [OF assms(2,3)]
    page_keys [of lim off de "contents s"] by (metis contents_aware)

lemma load_timestamps_ok:
  assumes "sql_ready s" and "1 \<le> batch" and "0 \<le> off"
  shows "load_timestamps (sql_query eng s) batch off existing =
    Some (Inr (existing \<union> set (drop (nat off) (ordered_keys True (contents s)))))"
  using assms(3)
proof (induction "nat (int (length (contents s)) - off)" arbitrary: off existing rule: less_induct)
  case less
  let ?keys = "ordered_keys True (contents s)"
  obtain r where r: "sql_query eng s (page_query batch off True) = Inr r"
    "map ts_key (res_telegrams r) = take (nat batch) (drop (nat off) ?keys)"
    "limit_reached r \<longleftrightarrow> off + batch < int (length (contents s))"
    using page_ok [OF assms(1), of batch off True] assms(2) less.prems by auto
  have split: "set (drop (nat off) ?keys) =
    set (take (nat batch) (drop (nat off) ?keys)) \<union> set (drop (nat (off + batch)) ?keys)"
    by (metis append_take_drop_id assms(2) drop_drop add.commute less.prems nat_add_distrib set_append
        zero_le_one order.trans)
  let ?seen = "existing \<union> set (take (nat batch) (drop (nat off) ?keys))"
  have step: "load_timestamps (sql_query eng s) batch off existing =
    (if limit_reached r then load_timestamps (sql_query eng s) batch (off + batch) ?seen else Some (Inr ?seen))"
    by (subst load_timestamps.simps) (simp only: page_query_simps r(1,2) sum.case Let_def)
  show ?case
  proof (cases "limit_reached r")
    case True
    with step have "load_timestamps (sql_query eng s) batch off existing =
      load_timestamps (sql_query eng s) batch (off + batch) ?seen" by simp
    also have "\<dots> = Some (Inr (?seen \<union> set (drop (nat (off + batch)) ?keys)))"
      using True r(3) assms(2) less.prems by (intro less.hyps) auto
    finally show ?thesis by (simp only: split Un_assoc)
  next
    case False
    then have "drop (nat (off + batch)) ?keys = []" using r(3) assms(2) less.prems by simp
    moreover from False step have "load_timestamps (sql_query eng s) batch off existing = Some (Inr ?seen)" by simp
    ultimately show ?thesis unfolding split by simp
  qed
qed

end

text \<open>What a run of the copying loop from \<open>off\<close> on achieves.\<close>

definition copied ::
  "bool \<Rightarrow> int \<Rightarrow> int \<Rightarrow> (int \<times> bool) set \<Rightarrow> stored_telegram list \<Rightarrow> stored_telegram list \<Rightarrow> bool" where
  "copied de limit_count off existing ts w \<longleftrightarrow>
     (let wanted = set (take (nat (limit_count - off)) (drop (nat off) (ordered_keys de ts))) in
      mset w \<subseteq># mset ts \<and> ts_key ` set w \<inter> existing = {} \<and> ts_key ` set w \<subseteq> wanted \<and>
      wanted \<subseteq> existing \<union> ts_key ` set w)"

lemma copied_Nil: "wanted_len \<le> off \<or> length ts \<le> nat off \<Longrightarrow> copied de wanted_len off existing ts []"
  by (auto simp: copied_def)

lemma mset_disjoint_append:
  "mset xs \<subseteq># M \<Longrightarrow> mset ys \<subseteq># M \<Longrightarrow> set xs \<inter> set ys = {} \<Longrightarrow> mset (xs @ ys) \<subseteq># M"
  unfolding subseteq_mset_def
  by (metis (no_types, lifting) add.right_neutral add_0 count_mset_0_iff count_union disjoint_iff mset_append)

lemma copied_step:
  assumes page: "map ts_key found = take (nat n) (drop (nat off) (ordered_keys de ts))"
    and "mset found \<subseteq># mset ts" and "fresh = filter (\<lambda>t. ts_key t \<notin> existing) found"
    and rest: "copied de limit_count (off + n) (existing \<union> ts_key ` set fresh) ts w"
    and "0 \<le> off" and "0 \<le> n" and "off + n \<le> limit_count"
  shows "copied de limit_count off existing ts (fresh @ w)"
proof -
  let ?keys = "ordered_keys de ts" and ?seen = "existing \<union> ts_key ` set fresh"
  have "nat (limit_count - off) = nat n + nat (limit_count - (off + n))" "nat (off + n) = nat off + nat n"
    using assms(5-7) by auto
  then have wanted: "take (nat (limit_count - off)) (drop (nat off) ?keys) =
    map ts_key found @ take (nat (limit_count - (off + n))) (drop (nat (off + n)) ?keys)"
    by (simp add: page take_add add.commute)
  have r: "mset w \<subseteq># mset ts" "ts_key ` set w \<inter> ?seen = {}"
    "ts_key ` set w \<subseteq> set (take (nat (limit_count - (off + n))) (drop (nat (off + n)) ?keys))"
    "set (take (nat (limit_count - (off + n))) (drop (nat (off + n)) ?keys)) \<subseteq> ?seen \<union> ts_key ` set w"
    using rest by (simp_all add: copied_def Let_def)
  have "mset fresh \<subseteq># mset ts"
    using assms(2,3) by (metis mset_filter multiset_filter_subset subset_mset.order_trans)
  moreover have "set fresh \<inter> set w = {}" using r(2) by auto
  ultimately have "mset (fresh @ w) \<subseteq># mset ts" using r(1) by (intro mset_disjoint_append)
  moreover have "ts_key ` set fresh \<inter> existing = {}" "ts_key ` set fresh \<subseteq> ts_key ` set found"
    "ts_key ` set found \<subseteq> existing \<union> ts_key ` set fresh" using assms(3) by auto
  ultimately show ?thesis using r(2-4) unfolding copied_def Let_def wanted by auto
qed

locale migration = src: healthy_engine eng + dst: healthy_engine eng' for eng eng'
begin

text \<open>One round of the loop: a page, the telegrams of it that are new, and whether there is another page.\<close>

lemma migrate_page:
  assumes s: "sql_ready s" "list_all storable (contents s)" and d: "sql_ready d"
    and n: "n = min batch (limit_count - off)" "0 < n" and off: "0 \<le> off" "off \<le> int (length (contents s))"
  shows "\<exists>found fresh d1. map ts_key found = take (nat n) (drop (nat off) (ordered_keys de (contents s))) \<and>
    mset found \<subseteq># mset (contents s) \<and> fresh = filter (\<lambda>t. ts_key t \<notin> existing) found \<and>
    int (length found) = min n (int (length (contents s)) - off) \<and>
    sql_ready d1 \<and> contents d1 = contents d @ map stored_form fresh \<and>
    migrate_loop (sql_query eng s) (sql_store_many eng') batch de limit_count off off m existing d =
      (if off + n < int (length (contents s))
       then migrate_loop (sql_query eng s) (sql_store_many eng') batch de limit_count (off + n) (off + n)
         (m + int (length fresh)) (existing \<union> ts_key ` set fresh) d1
       else Some (Inr (off + int (length found), m + int (length fresh)), d1))"
proof -
  let ?N = "int (length (contents s))" and ?loop = "migrate_loop (sql_query eng s) (sql_store_many eng') batch de limit_count"
  obtain r where r: "sql_query eng s (page_query n off de) = Inr r"
    "map ts_key (res_telegrams r) = take (nat n) (drop (nat off) (ordered_keys de (contents s)))"
    "mset (res_telegrams r) \<subseteq># mset (contents s)" "limit_reached r \<longleftrightarrow> off + n < ?N"
    using src.page_ok [OF s(1), of n off de] n(2) off(1) by auto
  define found where "found = res_telegrams r"
  define fresh where "fresh = filter (\<lambda>t. ts_key t \<notin> existing) found"
  have len: "int (length found) = min n (?N - off)"
    using arg_cong [OF r(2), of length] off n(2)
    by (simp add: found_def del: of_nat_min)
  have "set found \<subseteq> set (contents s)" using r(3) by (metis found_def set_mset_mono set_mset_mset)
  then have "list_all storable fresh" using s(2) by (auto simp: fresh_def list_all_iff)
  then obtain d1 where d1: "(if fresh \<noteq> [] then sql_store_many eng' d fresh else (Inr (), d)) = (Inr (), d1)"
    "sql_ready d1" "contents d1 = contents d @ map stored_form fresh"
    using dst.store_many_holds [OF d, of fresh] d by (cases "fresh = []") auto
  have "\<not> n \<le> 0" and "off < limit_count" using n by linarith+
  then have step: "?loop off off m existing d =
    (if found = [] then Some (Inr (off, m), d)
     else if limit_reached r then ?loop (off + int (length found)) (off + int (length found)) (m + int (length fresh))
       (existing \<union> ts_key ` set fresh) d1
     else Some (Inr (off + int (length found), m + int (length fresh)), d1))"
    by (subst migrate_loop.simps) (simp only: n(1) [symmetric] if_True if_False Let_def r(1) [unfolded page_query_def]
      sum.case prod.case found_def [symmetric] fresh_def [symmetric] d1(1) set_map)
  have "?loop off off m existing d =
      (if off + n < ?N then ?loop (off + n) (off + n) (m + int (length fresh)) (existing \<union> ts_key ` set fresh) d1
       else Some (Inr (off + int (length found), m + int (length fresh)), d1))"
  proof (cases "found = []")
    case True
    then have "\<not> off + n < ?N" "fresh = []" using len n(2) by (auto simp: fresh_def)
    with True step d1(1) show ?thesis by simp
  next
    case False
    with step len r(4) show ?thesis by simp
  qed
  with r(2,3) len d1(2,3) show ?thesis
    unfolding found_def [symmetric] by (intro exI [of _ found] exI [of _ fresh] exI [of _ d1]) (simp add: fresh_def)
qed

lemma migrate_loop_ok:
  assumes s: "sql_ready s" "list_all storable (contents s)" and batch: "1 \<le> batch"
    and "sql_ready d" and "0 \<le> off" and "off \<le> int (length (contents s))"
  shows "\<exists>w d'. migrate_loop (sql_query eng s) (sql_store_many eng') batch de limit_count off off m existing d =
      Some (Inr (max off (min limit_count (int (length (contents s)))), m + int (length w)), d') \<and>
    sql_ready d' \<and> contents d' = contents d @ map stored_form w \<and>
    copied de limit_count off existing (contents s) w"
  using assms(4-6)
proof (induction "nat (limit_count - off)" arbitrary: off m existing d rule: less_induct)
  case less
  let ?N = "int (length (contents s))" and ?n = "min batch (limit_count - off)"
  let ?loop = "migrate_loop (sql_query eng s) (sql_store_many eng') batch de limit_count"
  show ?case
  proof (cases "off < limit_count")
    case False
    then have "?loop off off m existing d = Some (Inr (off, m), d)"
      by (subst migrate_loop.simps) simp
    then show ?thesis using False less.prems(1)
      by (intro exI [of _ "[]"] exI [of _ d]) (simp add: copied_Nil max_def)
  next
    case True
    then have n: "0 < ?n" using batch by simp
    obtain found fresh d1 where page: "map ts_key found = take (nat ?n) (drop (nat off) (ordered_keys de (contents s)))"
        "mset found \<subseteq># mset (contents s)" "fresh = filter (\<lambda>t. ts_key t \<notin> existing) found"
      and len: "int (length found) = min ?n (?N - off)"
      and d1: "sql_ready d1" "contents d1 = contents d @ map stored_form fresh"
      and step: "?loop off off m existing d =
        (if off + ?n < ?N then ?loop (off + ?n) (off + ?n) (m + int (length fresh)) (existing \<union> ts_key ` set fresh) d1
         else Some (Inr (off + int (length found), m + int (length fresh)), d1))"
      using migrate_page [OF s less.prems(1) refl n less.prems(2,3)] by blast
    note more = copied_step [OF page _ less.prems(2) less_imp_le [OF n]]
    show ?thesis
    proof (cases "off + ?n < ?N")
      case more_pages: True
      have "nat (limit_count - (off + ?n)) < nat (limit_count - off)" using n True by linarith
      moreover have "0 \<le> off + ?n" "off + ?n \<le> ?N" using less.prems(2) n more_pages by linarith+
      ultimately obtain w d' where w: "?loop (off + ?n) (off + ?n) (m + int (length fresh)) (existing \<union> ts_key ` set fresh) d1 =
          Some (Inr (max (off + ?n) (min limit_count ?N), m + int (length fresh) + int (length w)), d')"
        "sql_ready d'" "contents d' = contents d1 @ map stored_form w"
        "copied de limit_count (off + ?n) (existing \<union> ts_key ` set fresh) (contents s) w"
        using less.hyps [OF _ d1(1), of "off + ?n" "m + int (length fresh)" "existing \<union> ts_key ` set fresh"] by blast
      have "copied de limit_count off existing (contents s) (fresh @ w)"
        using w(4) by (intro more) simp_all
      moreover have "max (off + ?n) (min limit_count ?N) = max off (min limit_count ?N)"
        using n more_pages by linarith
      ultimately show ?thesis using step more_pages w(1-3) d1(2)
        by (intro exI [of _ "fresh @ w"] exI [of _ d']) simp
    next
      case False
      then have "int (length found) = ?N - off" "?N \<le> off + ?n" using len by linarith+
      moreover from \<open>?N \<le> off + ?n\<close> have "copied de limit_count (off + ?n) (existing \<union> ts_key ` set fresh) (contents s) []"
        by (intro copied_Nil) linarith
      then have "copied de limit_count off existing (contents s) (fresh @ [])"
        by (intro more) simp_all
      moreover have "max off (min limit_count ?N) = ?N"
        using \<open>?N \<le> off + ?n\<close> less.prems(3) by linarith
      ultimately show ?thesis using step False d1
        by (intro exI [of _ fresh] exI [of _ d1]) simp
    qed
  qed
qed

lemma copies_ok:
  assumes "sql_ready s" and "sql_ready d" and "list_all storable (contents s)" and "1 \<le> batch"
    and "summary_trusted (sql_db s)" and "summary_trusted (sql_db d)"
    and count: "limit_count = (case limit_newest of Some n \<Rightarrow> n | None \<Rightarrow> int (length (contents s)))"
  shows "\<exists>w s' d'. migrate (sql_migration_ops eng) (sql_migration_ops eng') batch limit_newest s d =
      Some (Inr (max 0 (min limit_count (int (length (contents s)))), int (length w)), s', d') \<and>
    sql_ready s' \<and> contents s' = contents s \<and> sql_ready d' \<and> contents d' = contents d @ map stored_form w \<and>
    copied (limit_newest \<noteq> None) limit_count 0 (ts_key ` set (contents d)) (contents s) w"
proof -
  obtain s1 where s1: "sql_initialize eng s = (Inr (), s1)" "sql_ready s1" "contents s1 = contents s"
    using sql_initialize_ok [OF src.wf src.accepting, of s] assms(1,5)
    by (auto simp: sql_ready_def summary_trusted_def)
  obtain d1 where d1: "sql_initialize eng' d = (Inr (), d1)" "sql_ready d1" "contents d1 = contents d"
    using sql_initialize_ok [OF dst.wf dst.accepting, of d] assms(2,6)
    by (auto simp: sql_ready_def summary_trusted_def)
  have counts: "sql_count eng s1 = Inr (int (length (contents s)))" "sql_count eng' d1 = Inr (int (length (contents d)))"
    using src.count_ok [OF s1(2)] dst.count_ok [OF d1(2)] s1(3) d1(3) by simp_all
  have load: "(if 0 < int (length (contents d)) then load_timestamps (sql_query eng' d1) batch 0 {} else Some (Inr {})) =
    Some (Inr (ts_key ` set (contents d)))"
    using dst.load_timestamps_ok [OF d1(2) assms(4), of 0 "{}"] d1(3) by simp
  obtain w d' where w: "migrate_loop (sql_query eng s1) (sql_store_many eng') batch (limit_newest \<noteq> None)
      limit_count 0 0 0 (ts_key ` set (contents d)) d1 =
      Some (Inr (max 0 (min limit_count (int (length (contents s)))), int (length w)), d')"
    "sql_ready d'" "contents d' = contents d @ map stored_form w"
    "copied (limit_newest \<noteq> None) limit_count 0 (ts_key ` set (contents d)) (contents s) w"
    using migrate_loop_ok [OF s1(2) _ assms(4) d1(2), of 0 "limit_newest \<noteq> None" limit_count 0
      "ts_key ` set (contents d)"] assms(3) s1(3) d1(3) by auto
  have "migrate (sql_migration_ops eng) (sql_migration_ops eng') batch limit_newest s d =
      Some (Inr (max 0 (min limit_count (int (length (contents s)))), int (length w)), s1, d')"
    by (simp only: migrate_def sql_migration_ops_simps s1(1) d1(1) prod.case sum.case option.case counts load
        count [symmetric] Let_def w(1) option.map)
  with w(2-4) s1(2,3) show ?thesis by blast
qed

end

interpretation ref: migration reference_engine reference_engine
  by unfold_locales

section \<open>The tool copies what is missing\<close>

lemma inj_image_diff:
  assumes "B \<subseteq> A" and "inj_on f A" and "f ` B = f ` A - H"
  shows "B = {x \<in> A. f x \<notin> H}"
proof (intro equalityI subsetI)
  fix x
  assume "x \<in> {x \<in> A. f x \<notin> H}"
  with assms(3) have "x \<in> A" "f x \<in> f ` B" by auto
  then show "x \<in> B" using assms(1,2) by (auto dest: inj_onD)
qed (use assms in auto)


lemma damaged_samples:
  "sql_ready damaged_store" "list_all storable (contents damaged_store)"
  "summary_trusted (sql_db damaged_store)" "summary_trusted (sql_db fresh_store)"
proof -
  have "contents damaged_store = contents full_store" by (simp add: damaged_store_def contents_def)
  then show "list_all storable (contents damaged_store)" by (simp add: storable_stored_form)
qed (simp_all add: sql_ready_def summary_trusted_def, simp_all add: damaged_store_def fresh_store_def sql_init_def
    empty_db_def)


end
