(* ===== verification/LegacySchema.thy ===== *)
theory LegacySchema
  imports SqlWrites PyStrings
begin

text \<open>
  Databases written by earlier versions, as both SQL backends upgrade them: a table \<open>telegrams\<close> with
  any columns, the table \<open>string_lookup\<close> and the flags in \<open>store_metadata\<close>. The steps the backends
  share are here: moving strings into \<open>string_lookup\<close>, adding columns, recovering values from
  \<open>value_numeric\<close> and unwrapping \<open>{"value": x}\<close>.
\<close>

section \<open>Tables\<close>

text \<open>
  A cell. \<open>SJson\<close> is a value of a JSON column, an object being the dict its text parses to;
  \<open>SBadJson\<close> is a text in such a column that is no JSON; \<open>SBytes\<close> holds bytes as characters.
\<close>

datatype sqlval =
    SNull | SInt int | SReal pyfloat | SText string | SBool bool
  | SJson json | SBadJson string | SBytes string

type_synonym cells = "string \<Rightarrow> sqlval"

text \<open>The columns with their declared types; a cell of a column the table lacks does not count.\<close>

record legacy_db =
  ld_columns :: "(string \<times> string) list"
  ld_rows :: "cells list"
  ld_lookup :: "lookup_row list"
  ld_flags :: "string \<rightharpoonup> string"

definition column_names :: "legacy_db \<Rightarrow> string list" where
  "column_names db = map fst (ld_columns db)"

abbreviation has_column :: "legacy_db \<Rightarrow> string \<Rightarrow> bool" where
  "has_column db c \<equiv> c \<in> set (column_names db)"

text \<open>\<open>_metadata_flag_set\<close> on this state.\<close>

definition flag_set :: "legacy_db \<Rightarrow> string \<Rightarrow> bool" where
  "flag_set db key \<longleftrightarrow> ld_flags db key = Some ''true''"

definition set_flag :: "string \<Rightarrow> legacy_db \<Rightarrow> legacy_db" where
  "set_flag key db = db\<lparr>ld_flags := (ld_flags db)(key \<mapsto> ''true'')\<rparr>"

text \<open>
  What the database contributes: the ids of new lookup rows, \<open>CAST(x AS TEXT)\<close>, and the JSON value a
  JSON column gives back for a number put into it.
\<close>

record legacy_engine =
  le_new_id :: "lookup_row list \<Rightarrow> int"
  le_cast_text :: "sqlval \<Rightarrow> string"
  le_number_json :: "sqlval \<Rightarrow> json"

section \<open>Strings into string\_lookup\<close>

definition COLS_TO_MIGRATE :: "string list" where
  "COLS_TO_MIGRATE =
     [''source'', ''destination'', ''telegramtype'', ''direction'', ''source_name'', ''destination_name'']"

definition id_col :: "string \<Rightarrow> string" where
  "id_col cat = cat @ ''_id''"

text \<open>\<open>INSERT ... SELECT DISTINCT\<close>; duplicates are skipped by the unique constraint anyway.\<close>

definition populate_lookup :: "legacy_engine \<Rightarrow> cells list \<Rightarrow> lookup_row list \<Rightarrow> string \<Rightarrow> lookup_row list" where
  "populate_lookup eng rows table cat =
     foldl (insert_ignore (le_new_id eng)) table
       (map (\<lambda>r. (cat, le_cast_text eng (r cat))) (filter (\<lambda>r. r cat \<noteq> SNull) rows))"

text \<open>The scalar subquery for the id of a value.\<close>

definition lookup_id :: "lookup_row list \<Rightarrow> pair \<Rightarrow> sqlval" where
  "lookup_id table p = (case find (\<lambda>r. lk_pair r = p) table of None \<Rightarrow> SNull | Some r \<Rightarrow> SInt (lk_id r))"

text \<open>The UPDATE of one category.\<close>

definition set_id :: "legacy_engine \<Rightarrow> lookup_row list \<Rightarrow> string \<Rightarrow> cells \<Rightarrow> cells" where
  "set_id eng table cat r = r(id_col cat :=
     (if r cat = SNull then SNull else lookup_id table (cat, le_cast_text eng (r cat))))"

definition set_ids :: "legacy_engine \<Rightarrow> lookup_row list \<Rightarrow> cells \<Rightarrow> cells" where
  "set_ids eng table r = fold (set_id eng table) COLS_TO_MIGRATE r"

section \<open>Columns\<close>

definition clear_column :: "string \<Rightarrow> cells \<Rightarrow> cells" where
  "clear_column c r = r(c := SNull)"

definition add_column :: "string \<times> string \<Rightarrow> legacy_db \<Rightarrow> legacy_db" where
  "add_column c db = db\<lparr>ld_columns := ld_columns db @ [c], ld_rows := map (clear_column (fst c)) (ld_rows db)\<rparr>"

text \<open>The guard of both backends: not there, nor a column with its name and \<open>_id\<close>.\<close>

definition add_missing :: "legacy_db \<Rightarrow> string \<times> string \<Rightarrow> legacy_db" where
  "add_missing db c =
     (if has_column db (fst c) \<or> has_column db (id_col (fst c)) then db else add_column c db)"

definition add_id_column :: "legacy_db \<Rightarrow> string \<Rightarrow> legacy_db" where
  "add_id_column db cat = (if has_column db (id_col cat) then db else add_column (id_col cat, ''INTEGER'') db)"

section \<open>Values\<close>

text \<open>The value of a telegram that only has \<open>value_numeric\<close>.\<close>

definition null_value :: "sqlval \<Rightarrow> bool" where
  "null_value v \<longleftrightarrow> v = SNull \<or> v = SJson JNull"

definition recover_value :: "legacy_engine \<Rightarrow> cells \<Rightarrow> cells" where
  "recover_value eng r =
     (if null_value (r ''value'') \<and> r ''value_numeric'' \<noteq> SNull
      then r(''value'' := SJson (le_number_json eng (r ''value_numeric''))) else r)"

text \<open>\<open>{"value": x}\<close> and nothing else.\<close>

definition unwrapped_cell :: "sqlval \<Rightarrow> sqlval option" where
  "unwrapped_cell v = (case v of
     SJson (JObject [(k, x)]) \<Rightarrow> if k = ''value'' then Some (SJson x) else None
   | _ \<Rightarrow> None)"

definition unwrap_or_keep :: "sqlval \<Rightarrow> sqlval" where
  "unwrap_or_keep v = (case unwrapped_cell v of Some x \<Rightarrow> x | None \<Rightarrow> v)"

text \<open>\<open>LIKE '{"value":%'\<close> ignores case; of a JSON value it sees the first key.\<close>

definition like_wrapped :: "sqlval \<Rightarrow> bool" where
  "like_wrapped v = (case v of
     SJson (JObject ((k, _) # _)) \<Rightarrow> lower k = ''value''
   | SBadJson s \<Rightarrow> lower (take 9 s) = [CHR 0x7B, CHR 0x22] @ ''value'' @ [CHR 0x22, CHR 0x3A]
   | _ \<Rightarrow> False)"

section \<open>Facts\<close>

lemma flag_simps [simp]:
  "flag_set (set_flag key db) k \<longleftrightarrow> k = key \<or> flag_set db k"
  "ld_columns (set_flag key db) = ld_columns db" "ld_rows (set_flag key db) = ld_rows db"
  "ld_lookup (set_flag key db) = ld_lookup db" "column_names (set_flag key db) = column_names db"
  by (auto simp: flag_set_def set_flag_def column_names_def)

lemma lookup_id_has_id: "lookup_ok table \<Longrightarrow> has_id table p i \<Longrightarrow> lookup_id table p = SInt i"
proof -
  assume ok: "lookup_ok table" and i: "has_id table p i"
  then obtain r where r: "r \<in> set table" "lk_pair r = p" "lk_id r = i" by (auto simp: has_id_def)
  then obtain r' where "find (\<lambda>r. lk_pair r = p) table = Some r'"
    by (cases "find (\<lambda>r. lk_pair r = p) table") (auto simp: find_None_iff)
  moreover from this have "r' \<in> set table" "lk_pair r' = p" by (auto simp: find_Some_iff in_set_conv_nth)
  ultimately show ?thesis using lookup_ok_inj(1) [OF ok r(1), of r'] r by (auto simp: lookup_id_def)
qed

lemma populate_ok:
  assumes "fresh_ids (le_new_id eng)" and "lookup_ok table"
  shows "lookup_ok (populate_lookup eng rows table cat) \<and>
    (\<exists>new. populate_lookup eng rows table cat = table @ new) \<and>
    (\<forall>r \<in> set rows. r cat \<noteq> SNull \<longrightarrow>
      (\<exists>i. has_id (populate_lookup eng rows table cat) (cat, le_cast_text eng (r cat)) i))"
  using insert_all_ok [OF assms, of "map (\<lambda>r. (cat, le_cast_text eng (r cat))) (filter (\<lambda>r. r cat \<noteq> SNull) rows)"]
  by (auto simp: populate_lookup_def)

lemma populate_all_ok:
  assumes "fresh_ids (le_new_id eng)"
  shows "lookup_ok table \<Longrightarrow> lookup_ok (foldl (populate_lookup eng rows) table cats) \<and>
    (\<exists>new. foldl (populate_lookup eng rows) table cats = table @ new) \<and>
    (\<forall>cat \<in> set cats. \<forall>r \<in> set rows. r cat \<noteq> SNull \<longrightarrow>
      (\<exists>i. has_id (foldl (populate_lookup eng rows) table cats) (cat, le_cast_text eng (r cat)) i))"
proof (induction cats arbitrary: table)
  case (Cons cat cats)
  have one: "lookup_ok (populate_lookup eng rows table cat)"
    "\<exists>new. populate_lookup eng rows table cat = table @ new"
    "\<forall>r \<in> set rows. r cat \<noteq> SNull \<longrightarrow>
      (\<exists>i. has_id (populate_lookup eng rows table cat) (cat, le_cast_text eng (r cat)) i)"
    using populate_ok [OF assms Cons.prems] by blast+
  note rest = Cons.IH [OF one(1)]
  then obtain new where new: "foldl (populate_lookup eng rows) table (cat # cats) = populate_lookup eng rows table cat @ new"
    by auto
  have "\<forall>r \<in> set rows. r cat \<noteq> SNull \<longrightarrow>
      (\<exists>i. has_id (foldl (populate_lookup eng rows) table (cat # cats)) (cat, le_cast_text eng (r cat)) i)"
    unfolding new using one(3) has_id_append by blast
  with one(2) rest show ?case by auto
qed simp

text \<open>An id column after the updates, and every other column.\<close>

lemma id_col_distinct [simp]:
  "id_col c = id_col c' \<longleftrightarrow> c = c'"
  "c \<in> set COLS_TO_MIGRATE \<Longrightarrow> id_col c \<notin> set COLS_TO_MIGRATE"
  by (auto simp: id_col_def COLS_TO_MIGRATE_def)

lemma set_ids_ids:
  "cat \<in> set COLS_TO_MIGRATE \<Longrightarrow> set_ids eng table r (id_col cat) =
    (if r cat = SNull then SNull else lookup_id table (cat, le_cast_text eng (r cat)))"
  by (auto simp: set_ids_def set_id_def id_col_def COLS_TO_MIGRATE_def)

lemma set_ids_other: "c \<notin> id_col ` set COLS_TO_MIGRATE \<Longrightarrow> set_ids eng table r c = r c"
  by (auto simp: set_ids_def set_id_def id_col_def COLS_TO_MIGRATE_def)

lemma column_simps [simp]:
  "column_names (add_column c db) = column_names db @ [fst c]"
  "column_names (db\<lparr>ld_rows := rows\<rparr>) = column_names db"
  "column_names (db\<lparr>ld_lookup := table\<rparr>) = column_names db"
  "flag_set (add_column c db) k = flag_set db k"
  "flag_set (db\<lparr>ld_rows := rows\<rparr>) k = flag_set db k"
  "flag_set (db\<lparr>ld_lookup := table\<rparr>) k = flag_set db k"
  "ld_lookup (add_column c db) = ld_lookup db"
  by (simp_all add: column_names_def add_column_def flag_set_def)

lemma add_ids:
  "ld_lookup (foldl add_id_column db cats) = ld_lookup db"
  "flag_set (foldl add_id_column db cats) k = flag_set db k"
  "has_column (foldl add_id_column db cats) c \<longleftrightarrow> has_column db c \<or> c \<in> id_col ` set cats"
  by (induction cats arbitrary: db) (auto simp: add_id_column_def)

lemma add_ids_rows:
  "\<exists>g. ld_rows (foldl add_id_column db cats) = map g (ld_rows db) \<and> (\<forall>r c. c \<notin> id_col ` set cats \<longrightarrow> g r c = r c)"
proof (induction cats arbitrary: db)
  case (Cons cat cats)
  obtain g where g: "ld_rows (foldl add_id_column (add_id_column db cat) cats) = map g (ld_rows (add_id_column db cat))"
    "\<forall>r c. c \<notin> id_col ` set cats \<longrightarrow> g r c = r c" using Cons.IH by blast
  have "ld_rows (add_id_column db cat) = map (if has_column db (id_col cat) then id else clear_column (id_col cat)) (ld_rows db)"
    by (simp add: add_id_column_def add_column_def)
  with g show ?case
    by (intro exI [of _ "g \<circ> (if has_column db (id_col cat) then id else clear_column (id_col cat))"])
      (auto simp: clear_column_def)
qed (auto intro: exI [of _ "\<lambda>r. r"])

text \<open>The strings of a row, in its id columns.\<close>

definition strings_moved :: "legacy_engine \<Rightarrow> lookup_row list \<Rightarrow> cells \<Rightarrow> cells \<Rightarrow> bool" where
  "strings_moved eng table r r' \<longleftrightarrow> (\<forall>cat \<in> set COLS_TO_MIGRATE.
     if r cat = SNull then r' (id_col cat) = SNull
     else (\<exists>i. r' (id_col cat) = SInt i \<and> lookup_value table cat i = Some (le_cast_text eng (r cat))))"

lemma strings_moved_cong:
  "(\<And>cat. cat \<in> set COLS_TO_MIGRATE \<Longrightarrow> r1 (id_col cat) = r' (id_col cat)) \<Longrightarrow>
    strings_moved eng table r r1 = strings_moved eng table r r'"
  by (simp add: strings_moved_def)

text \<open>What becomes of a row: \<open>had\<close> says which columns the old table had.\<close>

definition column_or_null :: "(string \<Rightarrow> bool) \<Rightarrow> cells \<Rightarrow> string \<Rightarrow> sqlval" where
  "column_or_null had r c = (if had c then r c else SNull)"

end
