(* ===== verification/PostgresSchema.thy ===== *)
theory PostgresSchema
  imports LegacySchema
begin

text \<open>
  The schema upgrade of a PostgreSQL database, the backfill of old rows and the check that announces
  them (\<open>_upgrade_schema\<close>, \<open>_backfill_legacy_data\<close> and \<open>_needs_migration_sync\<close> of
  src/knx_telegram_store/backends/postgres.py).
\<close>

section \<open>Statements in a transaction\<close>

text \<open>
  A transaction: whether an earlier statement failed, and the database so far. PostgreSQL refuses
  every statement after one that failed, also when the code has swallowed the exception.
\<close>

type_synonym pg_tx = "bool \<times> legacy_db"

definition pg_execute :: "(legacy_db \<Rightarrow> exc + legacy_db) \<Rightarrow> pg_tx \<Rightarrow> exc + pg_tx" where
  "pg_execute stmt tx = (case tx of (aborted, db) \<Rightarrow>
     if aborted then Inl (raise_exc OperationalError)
     else (case stmt db of Inl e \<Rightarrow> Inl e | Inr db \<Rightarrow> Inr (False, db)))"

text \<open>\<open>try: ... except Exception: pass\<close>\<close>

definition pg_swallow :: "(legacy_db \<Rightarrow> exc + legacy_db) \<Rightarrow> pg_tx \<Rightarrow> pg_tx" where
  "pg_swallow stmt tx = (case pg_execute stmt tx of Inl _ \<Rightarrow> (True, snd tx) | Inr tx \<Rightarrow> tx)"

fun pg_all :: "(legacy_db \<Rightarrow> exc + legacy_db) list \<Rightarrow> pg_tx \<Rightarrow> exc + pg_tx" where
  "pg_all [] tx = Inr tx"
| "pg_all (s # ss) tx = bind_res (pg_execute s tx) (pg_all ss)"

text \<open>What the statements do; a column that is missing, or there already, is an error.\<close>

definition need_columns :: "string list \<Rightarrow> legacy_db \<Rightarrow> exc + unit" where
  "need_columns cs db =
     (if list_all (has_column db) cs then Inr () else Inl (raise_exc ProgrammingError))"

definition rename_column :: "string \<Rightarrow> string \<Rightarrow> legacy_db \<Rightarrow> exc + legacy_db" where
  "rename_column old new db =
     (if \<not> has_column db old \<or> has_column db new then Inl (raise_exc ProgrammingError)
      else Inr (db\<lparr>ld_columns := map (\<lambda>(c, t). (if c = old then new else c, t)) (ld_columns db),
                   ld_rows := map (\<lambda>r. r(new := r old, old := SNull)) (ld_rows db)\<rparr>))"

definition drop_column :: "string \<Rightarrow> legacy_db \<Rightarrow> exc + legacy_db" where
  "drop_column c db =
     (if \<not> has_column db c then Inl (raise_exc ProgrammingError)
      else Inr (db\<lparr>ld_columns := filter (\<lambda>d. fst d \<noteq> c) (ld_columns db),
                   ld_rows := map (clear_column c) (ld_rows db)\<rparr>))"

definition pg_add_column :: "string \<times> string \<Rightarrow> legacy_db \<Rightarrow> exc + legacy_db" where
  "pg_add_column c db =
     (if has_column db (fst c) then Inl (raise_exc ProgrammingError) else Inr (add_column c db))"

text \<open>\<open>encode(raw_data, 'hex')\<close>: two lower-case digits for each byte.\<close>

definition hex_lower :: "char \<Rightarrow> string" where
  "hex_lower c = [''0123456789abcdef'' ! (code c div 16), ''0123456789abcdef'' ! (code c mod 16)]"

definition encode_hex :: "sqlval \<Rightarrow> sqlval" where
  "encode_hex v = (case v of SBytes bs \<Rightarrow> SText (concat (map hex_lower bs)) | _ \<Rightarrow> v)"

definition raw_data_to_text :: "legacy_db \<Rightarrow> exc + legacy_db" where
  "raw_data_to_text db =
     bind_res (need_columns [''raw_data''] db) (\<lambda>_.
       Inr (db\<lparr>ld_columns := map (\<lambda>(c, t). (c, if c = ''raw_data'' then ''TEXT'' else t)) (ld_columns db),
               ld_rows := map (\<lambda>r. r(''raw_data'' := encode_hex (r ''raw_data''))) (ld_rows db)\<rparr>))"

definition pg_populate :: "legacy_engine \<Rightarrow> string \<Rightarrow> legacy_db \<Rightarrow> exc + legacy_db" where
  "pg_populate eng cat db =
     bind_res (need_columns [cat] db) (\<lambda>_.
       Inr (db\<lparr>ld_lookup := populate_lookup eng (ld_rows db) (ld_lookup db) cat\<rparr>))"

text \<open>\<open>UPDATE ... FROM\<close> leaves rows without a match alone.\<close>

definition pg_set_id :: "legacy_engine \<Rightarrow> lookup_row list \<Rightarrow> string \<Rightarrow> cells \<Rightarrow> cells" where
  "pg_set_id eng table cat r =
     (if r cat = SNull then r
      else (case lookup_id table (cat, le_cast_text eng (r cat)) of
              SNull \<Rightarrow> r | i \<Rightarrow> r(id_col cat := i)))"

definition pg_update_ids :: "legacy_engine \<Rightarrow> string \<Rightarrow> legacy_db \<Rightarrow> exc + legacy_db" where
  "pg_update_ids eng cat db =
     bind_res (need_columns [cat, id_col cat] db) (\<lambda>_.
       Inr (db\<lparr>ld_rows := map (pg_set_id eng (ld_lookup db) cat) (ld_rows db)\<rparr>))"

section \<open>The upgrade\<close>

text \<open>\<open>existing\<close> is the Python set of column names, \<open>columns\<close> what the inspector said at first.\<close>

definition contains_text :: "string \<Rightarrow> string \<Rightarrow> bool" where
  "contains_text sub s = list_ex (\<lambda>i. take (length sub) (drop i s) = sub) [0..<Suc (length s)]"

definition column_is :: "(string \<times> string) list \<Rightarrow> string \<Rightarrow> string \<Rightarrow> bool" where
  "column_is columns c type_part = list_ex (\<lambda>(d, t). d = c \<and> contains_text type_part (lower t)) columns"

definition RENAMES :: "(string \<times> string) list" where
  "RENAMES = [(''source_address'', ''source''), (''target_address'', ''destination''),
     (''telegram_type'', ''telegramtype''), (''value_json'', ''payload''), (''value'', ''value_numeric'')]"

definition rename_step ::
  "(string \<times> string) list \<Rightarrow> string \<times> string \<Rightarrow> string set \<times> pg_tx \<Rightarrow> exc + string set \<times> pg_tx"
where
  "rename_step columns rn st = (case rn of (old, new) \<Rightarrow> case st of (existing, tx) \<Rightarrow>
     if old \<in> existing then
       if new \<notin> existing then
         bind_res (pg_execute (rename_column old new) tx) (\<lambda>tx. Inr (insert new (existing - {old}), tx))
       else if old = ''value'' \<and> column_is columns ''value'' ''double'' then
         bind_res (pg_execute (rename_column ''value'' ''value_legacy_float'') tx) (\<lambda>tx.
           Inr (insert ''value_legacy_float'' (existing - {''value''}), tx))
       else Inr (existing, tx)
     else Inr (existing, tx))"

fun rename_loop ::
  "(string \<times> string) list \<Rightarrow> (string \<times> string) list \<Rightarrow> string set \<times> pg_tx \<Rightarrow> exc + string set \<times> pg_tx"
where
  "rename_loop columns [] st = Inr st"
| "rename_loop columns (rn # rns) st = bind_res (rename_step columns rn st) (rename_loop columns rns)"

text \<open>
  Step 2. At its end the columns are asked of the same inspector again: \<open>refetch\<close> is its answer,
  given the columns it reported before and those the table has now.
\<close>

definition pg_normalize ::
  "legacy_engine \<Rightarrow> string set \<Rightarrow> pg_tx \<Rightarrow> exc + pg_tx"
where
  "pg_normalize eng existing tx =
     bind_res (pg_all (map (pg_populate eng) (filter (\<lambda>c. c \<in> existing) COLS_TO_MIGRATE)) tx) (\<lambda>tx.
     bind_res (pg_all (map (\<lambda>c. pg_add_column (id_col c, ''INTEGER''))
                 (filter (\<lambda>c. id_col c \<notin> existing) COLS_TO_MIGRATE)) tx) (\<lambda>tx.
     bind_res (pg_all (map (pg_update_ids eng) COLS_TO_MIGRATE) tx)
       (pg_all (map drop_column (filter (\<lambda>c. c \<in> existing) (COLS_TO_MIGRATE @ [''dpt_name'', ''unit'']))))))"

definition PG_EXPECTED_COLUMNS :: "(string \<times> string) list" where
  "PG_EXPECTED_COLUMNS =
     [(''value'', ''JSONB''), (''value_numeric'', ''FLOAT''), (''payload'', ''JSONB''),
      (''data_secure'', ''BOOLEAN''), (''dpt_main'', ''INTEGER''), (''dpt_sub'', ''INTEGER'')]"

fun pg_add_expected :: "(string \<times> string) list \<Rightarrow> string set \<Rightarrow> pg_tx \<Rightarrow> exc + pg_tx" where
  "pg_add_expected [] existing tx = Inr tx"
| "pg_add_expected (c # cs) existing tx =
     (if fst c \<notin> existing \<and> id_col (fst c) \<notin> existing then
        bind_res (pg_execute (pg_add_column c) tx) (pg_add_expected cs (insert (fst c) existing))
      else pg_add_expected cs existing tx)"

definition PG_LEGACY_COLUMNS :: "string list" where
  "PG_LEGACY_COLUMNS = [''dpt_name_id'', ''unit_id'', ''dpt_name'', ''unit'']"

type_synonym inspector = "(string \<times> string) list \<Rightarrow> (string \<times> string) list \<Rightarrow> (string \<times> string) list"

definition pg_upgrade_schema :: "legacy_engine \<Rightarrow> inspector \<Rightarrow> legacy_db \<Rightarrow> exc + pg_tx" where
  "pg_upgrade_schema eng refetch db =
     (let columns = ld_columns db in
      bind_res (rename_loop columns RENAMES (set (map fst columns), False, db)) (\<lambda>(existing, tx).
      bind_res (if ''raw_data'' \<in> existing \<and> column_is columns ''raw_data'' ''bytea''
                then pg_execute raw_data_to_text tx else Inr tx) (\<lambda>tx.
      bind_res (if ''source'' \<in> existing then pg_normalize eng existing tx else Inr tx) (\<lambda>tx.
      let existing = (if ''source'' \<in> existing then set (map fst (refetch columns (ld_columns (snd tx)))) else existing);
          tx = fold (\<lambda>c. pg_swallow (drop_column c)) (filter (\<lambda>c. c \<in> existing) PG_LEGACY_COLUMNS) tx
      in pg_add_expected PG_EXPECTED_COLUMNS existing tx))))"

section \<open>The backfill\<close>

text \<open>
  What the server contributes: whether the advisory lock is free, the refusal of the table lock, the
  refusals of the three updates, and the rows (by position) that the last one does not reach, as on
  compressed chunks. \<open>SET LOCAL\<close> changes no data and is left out.
\<close>

record backfill_env =
  bf_advisory_free :: bool
  bf_lock_refused :: "exc option"
  bf_update_refused :: "nat \<Rightarrow> exc option"
  bf_skipped :: "nat \<Rightarrow> bool"

definition pg_update :: "backfill_env \<Rightarrow> nat \<Rightarrow> (cells \<Rightarrow> cells) \<Rightarrow> legacy_db \<Rightarrow> exc + legacy_db" where
  "pg_update env i f db = (case bf_update_refused env i of
     Some e \<Rightarrow> Inl e | None \<Rightarrow> Inr (db\<lparr>ld_rows := map f (ld_rows db)\<rparr>))"

definition value_missing :: "cells \<Rightarrow> bool" where
  "value_missing r \<longleftrightarrow> null_value (r ''value'') \<and> r ''value_numeric'' \<noteq> SNull"

definition recover_nulls :: "legacy_engine \<Rightarrow> backfill_env \<Rightarrow> string set \<Rightarrow> legacy_db \<Rightarrow> exc + legacy_db" where
  "recover_nulls eng env existing db =
     (if flag_set db ''nulls_recovered'' then Inr db
      else bind_res
        (if ''value'' \<in> existing \<and> ''value_numeric'' \<in> existing \<and> list_ex value_missing (ld_rows db)
         then pg_update env 0 (recover_value eng) db else Inr db)
        (\<lambda>db. Inr (set_flag ''nulls_recovered'' db)))"

definition float_missing :: "cells \<Rightarrow> bool" where
  "float_missing r \<longleftrightarrow> r ''value_numeric'' = SNull \<and> r ''value_legacy_float'' \<noteq> SNull"

definition fill_float :: "cells \<Rightarrow> cells" where
  "fill_float r = (if float_missing r then r(''value_numeric'' := r ''value_legacy_float'') else r)"

text \<open>The unwrapping is one UPDATE, and the number of rows it reports must be the number expected.\<close>

definition wrapped_row :: "cells \<Rightarrow> bool" where
  "wrapped_row r \<longleftrightarrow> unwrapped_cell (r ''value'') \<noteq> None \<or> unwrapped_cell (r ''payload'') \<noteq> None"

definition unwrap_cells :: "cells \<Rightarrow> cells" where
  "unwrap_cells r = r(''value'' := unwrap_or_keep (r ''value''), ''payload'' := unwrap_or_keep (r ''payload''))"

definition unwrap_reached :: "backfill_env \<Rightarrow> cells list \<Rightarrow> cells list" where
  "unwrap_reached env rows =
     map (\<lambda>(i, r). if wrapped_row r \<and> \<not> bf_skipped env i then unwrap_cells r else r) (enumerate 0 rows)"

definition reached_rows :: "backfill_env \<Rightarrow> cells list \<Rightarrow> nat" where
  "reached_rows env rows = length (filter (\<lambda>(i, r). wrapped_row r \<and> \<not> bf_skipped env i) (enumerate 0 rows))"

definition unwrap_wrapped :: "backfill_env \<Rightarrow> legacy_db \<Rightarrow> exc + legacy_db" where
  "unwrap_wrapped env db =
     (if flag_set db ''data_unwrapped'' then Inr db
      else bind_res (need_columns [''value'', ''payload''] db) (\<lambda>_.
        let expected_rows = length (filter wrapped_row (ld_rows db)) in
        bind_res
          (if expected_rows \<noteq> 0 then
             (case bf_update_refused env 2 of
                Some e \<Rightarrow> Inl e
              | None \<Rightarrow>
                  if reached_rows env (ld_rows db) \<noteq> expected_rows then Inl (raise_exc RuntimeError)
                  else Inr (db\<lparr>ld_rows := unwrap_reached env (ld_rows db)\<rparr>))
           else Inr db)
          (\<lambda>db. Inr (set_flag ''data_unwrapped'' db))))"

text \<open>
  One transaction. \<open>db\<close> is the database when the flags are first read, \<open>locked\<close> when the lock on the
  table has been taken: another process may have committed in between.
\<close>

definition pg_backfill ::
  "legacy_engine \<Rightarrow> backfill_env \<Rightarrow> legacy_db \<Rightarrow> legacy_db \<Rightarrow> exc + legacy_db" where
  "pg_backfill eng env db locked =
     (if \<not> bf_advisory_free env then Inl (raise_exc RuntimeError)
      else
        let existing = set (column_names db);
            legacy_float_columns = (''value_legacy_float'' \<in> existing \<and> ''value_numeric'' \<in> existing);
            unwrap_pending = (\<not> flag_set db ''data_unwrapped'');
            nulls_pending = (\<not> flag_set db ''nulls_recovered'' \<and> ''value'' \<in> existing \<and> ''value_numeric'' \<in> existing);
            needs_relation_lock = (unwrap_pending \<or> nulls_pending \<or>
              legacy_float_columns \<and> list_ex float_missing (ld_rows db))
        in bind_res
          (if needs_relation_lock then
             (case bf_lock_refused env of Some e \<Rightarrow> Inl e | None \<Rightarrow> Inr locked)
           else Inr db) (\<lambda>db.
        bind_res (recover_nulls eng env existing db) (\<lambda>db.
        bind_res
          (if legacy_float_columns \<and> needs_relation_lock \<and> list_ex float_missing (ld_rows db)
           then pg_update env 1 fill_float db else Inr db)
          (unwrap_wrapped env))))"

section \<open>The check\<close>

definition PG_ID_COLUMNS :: "string list" where
  "PG_ID_COLUMNS = map id_col COLS_TO_MIGRATE"

definition pg_columns_pending :: "legacy_db \<Rightarrow> bool" where
  "pg_columns_pending db \<longleftrightarrow>
     list_ex (has_column db) [''source_address'', ''target_address'', ''telegram_type'', ''value_json''] \<or>
     column_is (ld_columns db) ''value'' ''double'' \<or>
     column_is (ld_columns db) ''raw_data'' ''bytea'' \<or>
     has_column db ''source'' \<or>
     list_ex (\<lambda>c. \<not> has_column db c) PG_ID_COLUMNS \<or>
     list_ex (\<lambda>c. \<not> has_column db c) (map fst PG_EXPECTED_COLUMNS)"

text \<open>Here \<open>LIKE\<close> heeds case; the keys of an object are in the order of its text.\<close>

definition pg_like_wrapped :: "sqlval \<Rightarrow> bool" where
  "pg_like_wrapped v = (case v of SJson (JObject ((k, _) # _)) \<Rightarrow> k = ''value'' | _ \<Rightarrow> False)"

definition pg_values_pending :: "bool \<Rightarrow> legacy_db \<Rightarrow> bool" where
  "pg_values_pending probe_fails db \<longleftrightarrow>
     \<not> flag_set db ''nulls_recovered'' \<and> has_column db ''value'' \<and> has_column db ''value_numeric'' \<and>
       \<not> probe_fails \<and> list_ex value_missing (ld_rows db) \<or>
     \<not> flag_set db ''data_unwrapped'' \<and>
       \<not> probe_fails \<and> list_ex (\<lambda>r. pg_like_wrapped (r ''value'') \<or> pg_like_wrapped (r ''payload'')) (ld_rows db)"

definition pg_needs_migration :: "bool \<Rightarrow> bool \<Rightarrow> bool \<Rightarrow> legacy_db \<Rightarrow> bool" where
  "pg_needs_migration has_table probe_fails base_pending db =
     (if \<not> has_table then False
      else pg_columns_pending db \<or> pg_values_pending probe_fails db \<or> base_pending)"

end
