(* ===== verification/SqliteSchema.thy ===== *)
theory SqliteSchema
  imports LegacySchema
begin

text \<open>
  The schema upgrade of a SQLite file and the check that announces it (\<open>_upgrade_schema\<close> and
  \<open>_needs_migration_sync\<close> of src/knx_telegram_store/backends/sqlite.py).
\<close>

section \<open>The upgrade\<close>

definition EXPECTED_COLUMNS :: "(string \<times> string) list" where
  "EXPECTED_COLUMNS =
     [(''payload'', ''JSON''), (''dpt_main'', ''INTEGER''), (''dpt_sub'', ''INTEGER''), (''value'', ''JSON''),
      (''value_numeric'', ''DOUBLE''), (''data_secure'', ''BOOLEAN'')]"

definition LEGACY_COLUMNS :: "string list" where
  "LEGACY_COLUMNS = COLS_TO_MIGRATE @ [''dpt_name'', ''unit'', ''dpt_name_id'', ''unit_id'']"

text \<open>\<open>keep_cols\<close>, which are the columns of the model's table, and those that are NOT NULL there.\<close>

definition KEEP_COLUMNS :: "string list" where
  "KEEP_COLUMNS =
     [''timestamp'', ''source_id'', ''destination_id'', ''telegramtype_id'', ''direction_id'',
      ''source_name_id'', ''destination_name_id'', ''payload'', ''dpt_main'', ''dpt_sub'', ''value'',
      ''value_numeric'', ''raw_data'', ''data_secure'']"

definition REQUIRED_COLUMNS :: "string list" where
  "REQUIRED_COLUMNS = [''timestamp'', ''source_id'', ''destination_id'', ''telegramtype_id'', ''direction_id'']"

text \<open>
  Steps 1a to 1c. The UPDATE of 1c names every old column, also one the table lacks, which SQLite
  refuses.
\<close>

definition normalize_strings :: "legacy_engine \<Rightarrow> legacy_db \<Rightarrow> exc + legacy_db" where
  "normalize_strings eng db =
     (let table = foldl (populate_lookup eng (ld_rows db)) (ld_lookup db) (filter (has_column db) COLS_TO_MIGRATE);
          db = foldl add_id_column (db\<lparr>ld_lookup := table\<rparr>) COLS_TO_MIGRATE
      in if list_all (has_column db) COLS_TO_MIGRATE
         then Inr (db\<lparr>ld_rows := map (set_ids eng table) (ld_rows db)\<rparr>)
         else Inl (raise_exc OperationalError))"

text \<open>Step 3: the table is created anew and the rows are copied; the new one has NOT NULL columns.\<close>

definition copied_row :: "legacy_db \<Rightarrow> cells \<Rightarrow> cells" where
  "copied_row db r = (\<lambda>c. if c \<in> set KEEP_COLUMNS \<and> has_column db c then r c else SNull)"

definition rebuild_table :: "legacy_db \<Rightarrow> exc + legacy_db" where
  "rebuild_table db =
     (let rows = map (copied_row db) (ld_rows db) in
      if list_ex (\<lambda>r. list_ex (\<lambda>c. r c = SNull) REQUIRED_COLUMNS) rows then Inl (raise_exc IntegrityError)
      else Inr (db\<lparr>ld_columns := map (\<lambda>c. (c, [])) KEEP_COLUMNS, ld_rows := rows\<rparr>))"

text \<open>
  Step 4. \<open>fails\<close> says whether the statement with a number fails: the SELECT is 0, the UPDATE of
  row \<open>i\<close> is \<open>i + 1\<close>, the flag is \<open>n + 1\<close> for \<open>n\<close> rows. An exception in this step is swallowed,
  whatever it has done so far.
\<close>

definition needs_update :: "cells \<Rightarrow> bool" where
  "needs_update r \<longleftrightarrow> (like_wrapped (r ''value'') \<or> like_wrapped (r ''payload'')) \<and>
     (unwrapped_cell (r ''value'') \<noteq> None \<or> unwrapped_cell (r ''payload'') \<noteq> None)"

text \<open>\<open>to_json_str\<close>: a text that is no JSON becomes a JSON string.\<close>

definition to_json_cell :: "sqlval \<Rightarrow> sqlval" where
  "to_json_cell v = (case unwrapped_cell v of
     Some x \<Rightarrow> x
   | None \<Rightarrow> (case v of SBadJson s \<Rightarrow> SJson (JStr s) | _ \<Rightarrow> v))"

definition unwrap_row :: "cells \<Rightarrow> cells" where
  "unwrap_row r = r(''value'' := to_json_cell (r ''value''), ''payload'' := to_json_cell (r ''payload''))"

fun unwrap_rows :: "(nat \<Rightarrow> bool) \<Rightarrow> nat \<Rightarrow> cells list \<Rightarrow> bool \<times> cells list" where
  "unwrap_rows fails i [] = (True, [])"
| "unwrap_rows fails i (r # rs) =
     (if needs_update r \<and> fails i then (False, r # rs)
      else (case unwrap_rows fails (Suc i) rs of
              (done, rs') \<Rightarrow> (done, (if needs_update r then unwrap_row r else r) # rs')))"

definition unwrap_pass :: "(nat \<Rightarrow> bool) \<Rightarrow> legacy_db \<Rightarrow> legacy_db" where
  "unwrap_pass fails db =
     (if fails 0 then db
      else (case unwrap_rows fails 1 (ld_rows db) of
        (done, rows) \<Rightarrow>
          let db = db\<lparr>ld_rows := rows\<rparr> in
          if done \<and> \<not> fails (Suc (length rows)) then set_flag ''data_unwrapped'' db else db))"

text \<open>Step 3.5, then the whole upgrade.\<close>

definition recover_pass :: "legacy_engine \<Rightarrow> bool \<Rightarrow> legacy_db \<Rightarrow> legacy_db" where
  "recover_pass eng both_columns db =
     (if flag_set db ''nulls_recovered'' then db
      else set_flag ''nulls_recovered''
        (if both_columns
         then db\<lparr>ld_rows := map (recover_value eng) (ld_rows db)\<rparr> else db))"

definition sqlite_upgrade_schema :: "legacy_engine \<Rightarrow> (nat \<Rightarrow> bool) \<Rightarrow> legacy_db \<Rightarrow> exc + legacy_db" where
  "sqlite_upgrade_schema eng fails db =
     (let has_legacy_columns = list_ex (has_column db) LEGACY_COLUMNS in
      bind_res (if has_column db ''source'' then normalize_strings eng db else Inr db) (\<lambda>db.
      let db = foldl add_missing db EXPECTED_COLUMNS;
          both_columns = has_column db ''value'' \<and> has_column db ''value_numeric''
      in bind_res (if has_legacy_columns then rebuild_table db else Inr db) (\<lambda>db.
      let db = recover_pass eng both_columns db in
      Inr (if flag_set db ''data_unwrapped'' then db else unwrap_pass fails db))))"

section \<open>The check\<close>

text \<open>
  What the check sees besides the table: whether it exists, planner statistics, the flags of the
  other passes, rows in either table, the disk, the zone the caller named, and what the base class
  reports. A probe that raises counts as finding nothing.
\<close>

record startup_view =
  sv_has_table :: bool
  sv_statistics_missing :: bool
  sv_rows :: int
  sv_has_last_rows :: bool
  sv_vacuum_fits :: bool
  sv_zone_given :: bool
  sv_probe_fails :: bool
  sv_base_pending :: bool

definition STATISTICS_REPORT_ROWS :: int where "STATISTICS_REPORT_ROWS = 100000"

definition schema_pending :: "bool \<Rightarrow> legacy_db \<Rightarrow> bool" where
  "schema_pending probe_fails db \<longleftrightarrow>
     has_column db ''source'' \<or>
     list_ex (has_column db) [''destination'', ''telegramtype'', ''direction'', ''source_name'', ''destination_name''] \<or>
     list_ex (has_column db) [''dpt_name_id'', ''unit_id'', ''dpt_name'', ''unit''] \<or>
     list_ex (\<lambda>c. \<not> has_column db c \<and> \<not> has_column db (id_col c)) (map fst EXPECTED_COLUMNS) \<or>
     \<not> flag_set db ''nulls_recovered'' \<and> has_column db ''value'' \<and> has_column db ''value_numeric'' \<and>
       \<not> probe_fails \<and> list_ex (\<lambda>r. null_value (r ''value'') \<and> r ''value_numeric'' \<noteq> SNull) (ld_rows db) \<or>
     \<not> flag_set db ''data_unwrapped'' \<and>
       \<not> probe_fails \<and> list_ex (\<lambda>r. like_wrapped (r ''value'') \<or> like_wrapped (r ''payload'')) (ld_rows db)"

definition sqlite_needs_migration :: "startup_view \<Rightarrow> legacy_db \<Rightarrow> bool" where
  "sqlite_needs_migration v db =
     (if \<not> sv_has_table v then False
      else if sv_statistics_missing v \<and> STATISTICS_REPORT_ROWS \<le> sv_rows v then True
      else if \<not> flag_set db ''timestamps_integer'' \<and> (0 < sv_rows v \<or> sv_has_last_rows v) then True
      else if flag_set db ''vacuum_pending'' \<and> sv_vacuum_fits v then True
      else if schema_pending (sv_probe_fails v) db then True
      else if sv_zone_given v \<and> \<not> flag_set db ''timestamps_utc'' \<and> (0 < sv_rows v \<or> sv_has_last_rows v) then True
      else sv_base_pending v)"

section \<open>The upgrade settles the check\<close>

text \<open>Adding columns: which there are, and what a row holds in them.\<close>

lemma add_missing_fields [simp]:
  "ld_lookup (foldl add_missing db cs) = ld_lookup db"
  "flag_set (foldl add_missing db cs) k = flag_set db k"
  by (induction cs arbitrary: db) (simp_all add: add_missing_def)

lemma add_missing_mono: "has_column db c \<Longrightarrow> has_column (foldl add_missing db cs) c"
  by (induction cs arbitrary: db) (simp_all add: add_missing_def)

lemma add_missing_new: "has_column (foldl add_missing db cs) c \<Longrightarrow> has_column db c \<or> c \<in> fst ` set cs"
proof (induction cs arbitrary: db)
  case (Cons d cs)
  from Cons.IH [of "add_missing db d"] Cons.prems show ?case by (auto simp: add_missing_def split: if_splits)
qed simp

lemma add_missing_there:
  "c \<in> fst ` set cs \<Longrightarrow> has_column (foldl add_missing db cs) c \<or> has_column (foldl add_missing db cs) (id_col c)"
proof (induction cs arbitrary: db)
  case (Cons d cs)
  show ?case
  proof (cases "c = fst d")
    case True
    then have "has_column (add_missing db d) c \<or> has_column (add_missing db d) (id_col c)" by (simp add: add_missing_def)
    then show ?thesis using add_missing_mono [where db = "add_missing db d"] by auto
  qed (use Cons in auto)
qed simp

lemma add_missing_rows:
  "\<exists>f. ld_rows (foldl add_missing db cs) = map f (ld_rows db) \<and>
    (\<forall>r c. f r c = (if has_column db c \<or> \<not> has_column (foldl add_missing db cs) c then r c else SNull))"
proof (induction cs arbitrary: db)
  case (Cons d cs)
  let ?db = "add_missing db d"
  obtain f where f: "ld_rows (foldl add_missing ?db cs) = map f (ld_rows ?db)"
    "\<forall>r c. f r c = (if has_column ?db c \<or> \<not> has_column (foldl add_missing ?db cs) c then r c else SNull)"
    using Cons.IH by blast
  show ?case
  proof (cases "?db = db")
    case True
    then show ?thesis using f by auto
  next
    case False
    then have db: "?db = add_column d db" "\<not> has_column db (fst d)" by (auto simp: add_missing_def split: if_splits)
    then have "has_column (foldl add_missing ?db cs) (fst d)" by (intro add_missing_mono) simp
    then have "\<forall>r c. (f \<circ> clear_column (fst d)) r c =
        (if has_column db c \<or> \<not> has_column (foldl add_missing ?db cs) c then r c else SNull)"
      using f(2) db by (auto simp: clear_column_def)
    moreover have "ld_rows (foldl add_missing ?db cs) = map (f \<circ> clear_column (fst d)) (ld_rows db)"
      using f(1) db by (simp add: add_column_def)
    ultimately show ?thesis unfolding foldl_Cons by blast
  qed
qed (auto intro: exI [of _ "\<lambda>r. r"])

lemma unwrap_rows_done:
  "(\<And>n. \<not> fails n) \<Longrightarrow> unwrap_rows fails i rows = (True, map (\<lambda>r. if needs_update r then unwrap_row r else r) rows)"
  by (induction rows arbitrary: i) auto

lemma unwrap_pass_done:
  "(\<And>n. \<not> fails n) \<Longrightarrow> unwrap_pass fails db =
    set_flag ''data_unwrapped'' (db\<lparr>ld_rows := map (\<lambda>r. if needs_update r then unwrap_row r else r) (ld_rows db)\<rparr>)"
  by (simp add: unwrap_pass_def unwrap_rows_done)

lemma recover_pass_fields [simp]:
  "column_names (recover_pass eng both db) = column_names db"
  "flag_set (recover_pass eng both db) ''nulls_recovered''"
  "flag_set (recover_pass eng both db) ''data_unwrapped'' = flag_set db ''data_unwrapped''"
  "ld_lookup (recover_pass eng both db) = ld_lookup db"
  by (simp_all add: recover_pass_def)

lemma unwrapped_columns [simp]:
  "column_names (unwrap_pass fails db) = column_names db"
  "flag_set (unwrap_pass fails db) ''nulls_recovered'' = flag_set db ''nulls_recovered''"
  by (auto simp: unwrap_pass_def Let_def split: prod.splits)

lemma rebuilt_columns: "rebuild_table db = Inr db' \<Longrightarrow> column_names db' = KEEP_COLUMNS"
  by (auto simp: rebuild_table_def column_names_def Let_def comp_def split: if_splits)

lemma no_legacy_pending:
  assumes "\<not> list_ex (has_column db) LEGACY_COLUMNS"
    and "\<forall>c \<in> fst ` set EXPECTED_COLUMNS. has_column db c \<or> has_column db (id_col c)"
    and "flag_set db ''nulls_recovered''" and "flag_set db ''data_unwrapped''"
  shows "\<not> schema_pending pf db"
  using assms by (auto simp: schema_pending_def LEGACY_COLUMNS_def COLS_TO_MIGRATE_def list_ex_iff)

text \<open>Steps 3.5 and 4, on the table before and after it was rebuilt.\<close>

definition finish_upgrade :: "legacy_engine \<Rightarrow> (nat \<Rightarrow> bool) \<Rightarrow> legacy_db \<Rightarrow> legacy_db \<Rightarrow> legacy_db" where
  "finish_upgrade eng fails before db =
     (let db = recover_pass eng (has_column before ''value'' \<and> has_column before ''value_numeric'') db
      in if flag_set db ''data_unwrapped'' then db else unwrap_pass fails db)"

lemma sqlite_upgrade_Inr:
  "sqlite_upgrade_schema eng fails db = Inr db' \<longleftrightarrow> (\<exists>db1 db2.
     (if has_column db ''source'' then normalize_strings eng db else Inr db) = Inr db1 \<and>
     (if list_ex (has_column db) LEGACY_COLUMNS then rebuild_table (foldl add_missing db1 EXPECTED_COLUMNS)
      else Inr (foldl add_missing db1 EXPECTED_COLUMNS)) = Inr db2 \<and>
     db' = finish_upgrade eng fails (foldl add_missing db1 EXPECTED_COLUMNS) db2)"
  unfolding sqlite_upgrade_schema_def finish_upgrade_def Let_def bind_res_Inr_conv sum.inject by blast

lemma sqlite_upgrade_settles:
  assumes "sqlite_upgrade_schema eng fails db = Inr db'" and ok: "\<And>n. \<not> fails n"
  shows "\<not> schema_pending pf db'"
proof -
  obtain db1 db2 where d: "(if has_column db ''source'' then normalize_strings eng db else Inr db) = Inr db1"
    "(if list_ex (has_column db) LEGACY_COLUMNS then rebuild_table (foldl add_missing db1 EXPECTED_COLUMNS)
      else Inr (foldl add_missing db1 EXPECTED_COLUMNS)) = Inr db2"
    and db': "db' = finish_upgrade eng fails (foldl add_missing db1 EXPECTED_COLUMNS) db2"
    using assms(1) unfolding sqlite_upgrade_Inr by blast
  have d': "column_names db' = column_names db2" "flag_set db' ''nulls_recovered''" "flag_set db' ''data_unwrapped''"
    using unwrap_pass_done [OF ok] by (simp_all add: db' finish_upgrade_def Let_def)
  have "\<not> list_ex (has_column db2) LEGACY_COLUMNS \<and>
    (\<forall>c \<in> fst ` set EXPECTED_COLUMNS. has_column db2 c \<or> has_column db2 (id_col c))"
  proof (cases "list_ex (has_column db) LEGACY_COLUMNS")
    case True
    with d(2) have "column_names db2 = KEEP_COLUMNS" by (simp add: rebuilt_columns)
    then show ?thesis
      by (simp add: LEGACY_COLUMNS_def COLS_TO_MIGRATE_def KEEP_COLUMNS_def EXPECTED_COLUMNS_def)
  next
    case False
    then have "\<not> has_column db ''source''" by (simp add: LEGACY_COLUMNS_def COLS_TO_MIGRATE_def)
    with d(1,2) False have db2: "db2 = foldl add_missing db EXPECTED_COLUMNS" by simp
    have "\<forall>c \<in> fst ` set EXPECTED_COLUMNS. has_column db2 c \<or> has_column db2 (id_col c)"
      unfolding db2 using add_missing_there by blast
    moreover have "\<not> has_column db2 c" if "c \<in> set LEGACY_COLUMNS" for c
      using False that add_missing_new [of c db EXPECTED_COLUMNS] unfolding db2
      by (auto simp: list_ex_iff LEGACY_COLUMNS_def COLS_TO_MIGRATE_def EXPECTED_COLUMNS_def)
    ultimately show ?thesis by (auto simp: list_ex_iff)
  qed
  with d' show ?thesis by (intro no_legacy_pending) simp_all
qed

section \<open>The upgrade keeps every telegram\<close>

lemma normalize_ok:
  assumes "fresh_ids (le_new_id eng)" and "lookup_ok (ld_lookup db)" and "list_all (has_column db) COLS_TO_MIGRATE"
  shows "\<exists>db1 new f. normalize_strings eng db = Inr db1 \<and> ld_lookup db1 = ld_lookup db @ new \<and>
    lookup_ok (ld_lookup db1) \<and> (\<forall>k. flag_set db1 k = flag_set db k) \<and>
    (\<forall>c. has_column db1 c \<longleftrightarrow> has_column db c \<or> c \<in> id_col ` set COLS_TO_MIGRATE) \<and>
    ld_rows db1 = map f (ld_rows db) \<and>
    (\<forall>r \<in> set (ld_rows db). strings_moved eng (ld_lookup db1) r (f r) \<and>
       (\<forall>c. c \<notin> id_col ` set COLS_TO_MIGRATE \<longrightarrow> f r c = r c))"
proof -
  have "filter (has_column db) COLS_TO_MIGRATE = COLS_TO_MIGRATE"
    using assms(3) by (simp add: list_all_iff)
  define table where "table = foldl (populate_lookup eng (ld_rows db)) (ld_lookup db) COLS_TO_MIGRATE"
  have t: "lookup_ok table" "\<exists>new. table = ld_lookup db @ new"
    "\<forall>cat \<in> set COLS_TO_MIGRATE. \<forall>r \<in> set (ld_rows db). r cat \<noteq> SNull \<longrightarrow>
      (\<exists>i. has_id table (cat, le_cast_text eng (r cat)) i)"
    using populate_all_ok [OF assms(1,2), of "ld_rows db" COLS_TO_MIGRATE] unfolding table_def by blast+
  let ?db = "foldl add_id_column (db\<lparr>ld_lookup := table\<rparr>) COLS_TO_MIGRATE"
  obtain g where g: "ld_rows ?db = map g (ld_rows db)"
    "\<forall>r c. c \<notin> id_col ` set COLS_TO_MIGRATE \<longrightarrow> g r c = r c"
    using add_ids_rows [of "db\<lparr>ld_lookup := table\<rparr>" COLS_TO_MIGRATE] by auto
  have cat: "cat \<notin> id_col ` set COLS_TO_MIGRATE" if "cat \<in> set COLS_TO_MIGRATE" for cat
    using that by auto
  have f: "strings_moved eng table r ((set_ids eng table \<circ> g) r)" if r: "r \<in> set (ld_rows db)" for r
    unfolding strings_moved_def
  proof
    fix c
    assume c: "c \<in> set COLS_TO_MIGRATE"
    then have "g r c = r c" using g(2) cat by blast
    with c show "if r c = SNull then (set_ids eng table \<circ> g) r (id_col c) = SNull
      else (\<exists>i. (set_ids eng table \<circ> g) r (id_col c) = SInt i \<and> lookup_value table c i = Some (le_cast_text eng (r c)))"
      using t(3) r lookup_id_has_id [OF t(1)] has_id_lookup_value [OF t(1)]
      by (auto simp: set_ids_ids) metis
  qed
  have n: "normalize_strings eng db = Inr (?db\<lparr>ld_rows := map (set_ids eng table) (ld_rows ?db)\<rparr>)"
    using assms(3) \<open>filter (has_column db) COLS_TO_MIGRATE = COLS_TO_MIGRATE\<close>
    by (auto simp: normalize_strings_def Let_def table_def [symmetric] list_all_iff add_ids)
  show ?thesis
    using t(1,2) f g n
    by (intro exI [of _ "?db\<lparr>ld_rows := map (set_ids eng table) (ld_rows ?db)\<rparr>"]) 
      (auto simp: add_ids set_ids_other intro!: exI [of _ "set_ids eng table \<circ> g"])
qed

lemma unwrapped_needs_update:
  "needs_update r \<longleftrightarrow> unwrapped_cell (r ''value'') \<noteq> None \<or> unwrapped_cell (r ''payload'') \<noteq> None"
proof -
  have low: "lower ''value'' = ''value''" by (simp add: lower_def lower_char_def)
  have "unwrapped_cell v \<noteq> None \<Longrightarrow> like_wrapped v" for v
    by (auto simp: unwrapped_cell_def like_wrapped_def low split: sqlval.splits json.splits list.splits if_splits)
  then show ?thesis by (auto simp: needs_update_def)
qed

text \<open>The two columns a row ends with; the others it keeps.\<close>

definition well_typed :: "cells \<Rightarrow> bool" where
  "well_typed r \<longleftrightarrow> (\<forall>s. r ''value'' \<noteq> SBadJson s \<and> r ''payload'' \<noteq> SBadJson s)"

lemma unwrapped_row:
  assumes "well_typed r"
  shows "(if needs_update r then unwrap_row r else r) c =
    (if c \<in> {''value'', ''payload''} then unwrap_or_keep (r c) else r c)"
proof -
  have "to_json_cell (r c) = unwrap_or_keep (r c)" if "c \<in> {''value'', ''payload''}"
    using assms that by (auto simp: to_json_cell_def unwrap_or_keep_def well_typed_def split: option.splits sqlval.splits)
  moreover have "unwrap_or_keep (r c) = r c" if "\<not> needs_update r" "c \<in> {''value'', ''payload''}"
    using that by (auto simp: unwrapped_needs_update unwrap_or_keep_def)
  ultimately show ?thesis by (auto simp: unwrap_row_def)
qed

definition value_upgraded :: "legacy_engine \<Rightarrow> sqlval \<Rightarrow> sqlval \<Rightarrow> sqlval" where
  "value_upgraded eng v numeric =
     unwrap_or_keep (if null_value v \<and> numeric \<noteq> SNull then SJson (le_number_json eng numeric) else v)"

definition row_upgraded :: "legacy_engine \<Rightarrow> (string \<Rightarrow> bool) \<Rightarrow> lookup_row list \<Rightarrow> cells \<Rightarrow> cells \<Rightarrow> bool" where
  "row_upgraded eng had table r r' \<longleftrightarrow>
     strings_moved eng table r r' \<and>
     (\<forall>c \<in> {''timestamp'', ''dpt_main'', ''dpt_sub'', ''value_numeric'', ''raw_data'', ''data_secure''}.
        r' c = column_or_null had r c) \<and>
     r' ''payload'' = unwrap_or_keep (column_or_null had r ''payload'') \<and>
     r' ''value'' = value_upgraded eng (column_or_null had r ''value'') (column_or_null had r ''value_numeric'')"

text \<open>A flat database as the first versions wrote it.\<close>

definition flat_db :: "legacy_db \<Rightarrow> bool" where
  "flat_db db \<longleftrightarrow> lookup_ok (ld_lookup db) \<and> list_all (has_column db) (''timestamp'' # COLS_TO_MIGRATE) \<and>
     \<not> has_column db ''value_id'' \<and> \<not> has_column db ''value_numeric_id'' \<and>
     \<not> flag_set db ''nulls_recovered'' \<and> \<not> flag_set db ''data_unwrapped'' \<and>
     (\<forall>r \<in> set (ld_rows db). well_typed r \<and>
        list_all (\<lambda>c. r c \<noteq> SNull) [''timestamp'', ''source'', ''destination'', ''telegramtype'', ''direction''])"

lemma copied_rows:
  assumes "\<forall>c. has_column db1 c \<longleftrightarrow> has_column db c \<or> c \<in> id_col ` set COLS_TO_MIGRATE"
    and "\<forall>r c. fm r c = (if has_column db1 c \<or> \<not> has_column db2 c then r c else SNull)"
    and "\<And>c. has_column db1 c \<Longrightarrow> has_column db2 c"
    and "strings_moved eng table r r1" and "\<forall>c. c \<notin> id_col ` set COLS_TO_MIGRATE \<longrightarrow> r1 c = r c"
  shows "strings_moved eng table r (copied_row db2 (fm r1))"
    and "c \<in> set KEEP_COLUMNS \<Longrightarrow> c \<notin> id_col ` set COLS_TO_MIGRATE \<Longrightarrow>
      copied_row db2 (fm r1) c = column_or_null (has_column db) r c"
proof -
  have keep: "copied_row db2 (fm r1) c = (if has_column db1 c then r1 c else SNull)" if "c \<in> set KEEP_COLUMNS" for c
    using assms(2,3) that by (auto simp: copied_row_def)
  have "id_col cat \<in> set KEEP_COLUMNS" if "cat \<in> set COLS_TO_MIGRATE" for cat
    using that by (auto simp: id_col_def COLS_TO_MIGRATE_def KEEP_COLUMNS_def)
  then show "strings_moved eng table r (copied_row db2 (fm r1))"
    using assms(1,4) keep by (auto simp: strings_moved_def)
  show "c \<in> set KEEP_COLUMNS \<Longrightarrow> c \<notin> id_col ` set COLS_TO_MIGRATE \<Longrightarrow>
      copied_row db2 (fm r1) c = column_or_null (has_column db) r c"
    using keep assms(1,5) by (auto simp: column_or_null_def)
qed

text \<open>A row whose strings were moved and whose other cells were kept, after the passes over the values.\<close>

definition PLAIN_COLUMNS :: "string list" where
  "PLAIN_COLUMNS = [''timestamp'', ''payload'', ''dpt_main'', ''dpt_sub'', ''value'', ''value_numeric'', ''raw_data'', ''data_secure'']"

lemma settled_row:
  assumes "well_typed r" and moved: "strings_moved eng table r h" and plain: "\<forall>c \<in> set PLAIN_COLUMNS. h c = column_or_null had r c"
  shows "row_upgraded eng had table r (let r = recover_value eng h in if needs_update r then unwrap_row r else r)"
proof -
  let ?r = "recover_value eng h"
  note plain = plain [rule_format, unfolded PLAIN_COLUMNS_def, simplified]
  have "well_typed h" using assms(1) plain by (auto simp: well_typed_def column_or_null_def)
  then have "well_typed ?r" by (auto simp: well_typed_def recover_value_def)
  note fin = unwrapped_row [OF this]
  have "strings_moved eng table r (if needs_update ?r then unwrap_row ?r else ?r)"
  proof (subst strings_moved_cong [where r' = h])
    fix cat
    assume "cat \<in> set COLS_TO_MIGRATE"
    then have "id_col cat \<notin> {''value'', ''payload''}" by (auto simp: id_col_def COLS_TO_MIGRATE_def)
    then show "(if needs_update ?r then unwrap_row ?r else ?r) (id_col cat) = h (id_col cat)"
      by (simp only: fin if_False) (simp add: recover_value_def)
  qed (rule moved)
  moreover have "\<forall>c \<in> {''timestamp'', ''dpt_main'', ''dpt_sub'', ''value_numeric'', ''raw_data'', ''data_secure''}.
      (if needs_update ?r then unwrap_row ?r else ?r) c = column_or_null had r c"
    by (simp only: fin ball_simps) (simp add: recover_value_def plain)
  moreover have "(if needs_update ?r then unwrap_row ?r else ?r) ''payload'' = unwrap_or_keep (column_or_null had r ''payload'')"
    by (simp only: fin) (simp add: recover_value_def plain)
  moreover have "(if needs_update ?r then unwrap_row ?r else ?r) ''value'' =
      value_upgraded eng (column_or_null had r ''value'') (column_or_null had r ''value_numeric'')"
    by (simp only: fin) (simp add: recover_value_def value_upgraded_def plain)
  ultimately show ?thesis unfolding row_upgraded_def Let_def by (intro conjI)
qed

text \<open>No required column of the new table is empty.\<close>

lemma required_filled:
  assumes "strings_moved eng table r h" and "h ''timestamp'' \<noteq> SNull"
    and "\<forall>c \<in> {''source'', ''destination'', ''telegramtype'', ''direction''}. r c \<noteq> SNull"
  shows "\<not> list_ex (\<lambda>c. h c = SNull) REQUIRED_COLUMNS"
proof -
  have "h (id_col cat) \<noteq> SNull" if "cat \<in> set COLS_TO_MIGRATE" "r cat \<noteq> SNull" for cat
    using assms(1) that unfolding strings_moved_def by force
  from this [of "''source''"] this [of "''destination''"] this [of "''telegramtype''"] this [of "''direction''"]
  show ?thesis using assms(2,3) by (simp add: REQUIRED_COLUMNS_def id_col_def COLS_TO_MIGRATE_def)
qed

text \<open>The passes over the values of a table that was rebuilt.\<close>

lemma finish_rebuilt:
  assumes ok: "\<And>n. \<not> fails n" and "has_column db2 ''value''" and "has_column db2 ''value_numeric''"
    and "\<not> flag_set db3 ''nulls_recovered''" and "\<not> flag_set db3 ''data_unwrapped''"
  shows "ld_rows (finish_upgrade eng fails db2 db3) =
      map (\<lambda>h. let r = recover_value eng h in if needs_update r then unwrap_row r else r) (ld_rows db3)"
    and "column_names (finish_upgrade eng fails db2 db3) = column_names db3"
    and "ld_lookup (finish_upgrade eng fails db2 db3) = ld_lookup db3"
  using assms(2-) by (simp_all add: finish_upgrade_def recover_pass_def unwrap_pass_done [OF ok] column_names_def Let_def comp_def)

text \<open>The strings and the new columns: the table the rows are copied from, and the copies.\<close>

lemma copies_flat:
  assumes "fresh_ids (le_new_id eng)" and flat: "flat_db db"
  shows "\<exists>db1 new h. normalize_strings eng db = Inr db1 \<and> ld_lookup db1 = ld_lookup db @ new \<and> lookup_ok (ld_lookup db1) \<and>
    (\<forall>k. flag_set db1 k = flag_set db k) \<and>
    map (copied_row (foldl add_missing db1 EXPECTED_COLUMNS)) (ld_rows (foldl add_missing db1 EXPECTED_COLUMNS)) = map h (ld_rows db) \<and>
    (\<forall>c \<in> {''value'', ''value_numeric''}. has_column (foldl add_missing db1 EXPECTED_COLUMNS) c) \<and>
    (\<forall>r \<in> set (ld_rows db). strings_moved eng (ld_lookup db1) r (h r) \<and>
       (\<forall>c \<in> set PLAIN_COLUMNS. h r c = column_or_null (has_column db) r c))"
proof -
  have cols: "list_all (has_column db) COLS_TO_MIGRATE" and lk: "lookup_ok (ld_lookup db)"
    using flat by (simp_all add: flat_db_def)
  obtain db1 new f where db1: "normalize_strings eng db = Inr db1" "ld_lookup db1 = ld_lookup db @ new"
    "lookup_ok (ld_lookup db1)" "\<forall>k. flag_set db1 k = flag_set db k"
    "\<forall>c. has_column db1 c \<longleftrightarrow> has_column db c \<or> c \<in> id_col ` set COLS_TO_MIGRATE"
    "ld_rows db1 = map f (ld_rows db)"
    "\<forall>r \<in> set (ld_rows db). strings_moved eng (ld_lookup db1) r (f r) \<and>
       (\<forall>c. c \<notin> id_col ` set COLS_TO_MIGRATE \<longrightarrow> f r c = r c)"
    using normalize_ok [OF assms(1) lk cols] by blast
  let ?db2 = "foldl add_missing db1 EXPECTED_COLUMNS"
  obtain fm where fm: "ld_rows ?db2 = map fm (ld_rows db1)"
    "\<forall>r c. fm r c = (if has_column db1 c \<or> \<not> has_column ?db2 c then r c else SNull)"
    using add_missing_rows [of db1 EXPECTED_COLUMNS] by blast
  define h where "h r = copied_row ?db2 (fm (f r))" for r
  have h: "strings_moved eng (ld_lookup db1) r (h r)"
    "c \<in> set KEEP_COLUMNS \<Longrightarrow> c \<notin> id_col ` set COLS_TO_MIGRATE \<Longrightarrow> h r c = column_or_null (has_column db) r c"
    if "r \<in> set (ld_rows db)" for r c
    using copied_rows [OF db1(5) fm(2) add_missing_mono] db1(7) that unfolding h_def by blast+
  have "c \<in> set KEEP_COLUMNS \<and> c \<notin> id_col ` set COLS_TO_MIGRATE" if "c \<in> set PLAIN_COLUMNS" for c
    using that by (auto simp: PLAIN_COLUMNS_def KEEP_COLUMNS_def COLS_TO_MIGRATE_def id_col_def)
  with h have "\<forall>r \<in> set (ld_rows db). strings_moved eng (ld_lookup db1) r (h r) \<and>
      (\<forall>c \<in> set PLAIN_COLUMNS. h r c = column_or_null (has_column db) r c)" by blast
  moreover have "\<not> has_column ?db2 c" if "c \<in> {''value_id'', ''value_numeric_id''}" for c
    using flat that db1(5) add_missing_new [of c db1 EXPECTED_COLUMNS]
    by (auto simp: flat_db_def id_col_def COLS_TO_MIGRATE_def EXPECTED_COLUMNS_def)
  then have "\<forall>c \<in> {''value'', ''value_numeric''}. has_column ?db2 c"
    using add_missing_there [of "''value''" EXPECTED_COLUMNS db1] add_missing_there [of "''value_numeric''" EXPECTED_COLUMNS db1]
    by (auto simp: EXPECTED_COLUMNS_def id_col_def)
  moreover have "map (copied_row ?db2) (ld_rows ?db2) = map h (ld_rows db)"
    by (simp add: fm(1) db1(6) h_def comp_def)
  ultimately show ?thesis using db1(1-4) by blast
qed

lemma sqlite_upgrade_flat:
  assumes "fresh_ids (le_new_id eng)" and flat: "flat_db db" and ok: "\<And>n. \<not> fails n"
  shows "\<exists>db' new. sqlite_upgrade_schema eng fails db = Inr db' \<and> column_names db' = KEEP_COLUMNS \<and>
    ld_lookup db' = ld_lookup db @ new \<and> lookup_ok (ld_lookup db') \<and>
    list_all2 (row_upgraded eng (has_column db) (ld_lookup db')) (ld_rows db) (ld_rows db')"
proof -
  obtain db1 new h where db1: "normalize_strings eng db = Inr db1" "ld_lookup db1 = ld_lookup db @ new"
    "lookup_ok (ld_lookup db1)" "\<forall>k. flag_set db1 k = flag_set db k"
    "map (copied_row (foldl add_missing db1 EXPECTED_COLUMNS)) (ld_rows (foldl add_missing db1 EXPECTED_COLUMNS)) = map h (ld_rows db)"
    "\<forall>c \<in> {''value'', ''value_numeric''}. has_column (foldl add_missing db1 EXPECTED_COLUMNS) c"
    "\<forall>r \<in> set (ld_rows db). strings_moved eng (ld_lookup db1) r (h r) \<and>
       (\<forall>c \<in> set PLAIN_COLUMNS. h r c = column_or_null (has_column db) r c)"
    using copies_flat [OF assms(1,2)] by blast
  let ?db2 = "foldl add_missing db1 EXPECTED_COLUMNS"
  define db3 where "db3 = ?db2\<lparr>ld_columns := map (\<lambda>c. (c, [])) KEEP_COLUMNS, ld_rows := map h (ld_rows db)\<rparr>"
  have "\<not> list_ex (\<lambda>c. h r c = SNull) REQUIRED_COLUMNS" if "r \<in> set (ld_rows db)" for r
    using flat db1(7) that
    by (intro required_filled [of eng "ld_lookup db1" r]) (auto simp: flat_db_def PLAIN_COLUMNS_def column_or_null_def)
  then have "rebuild_table ?db2 = Inr db3"
    by (auto simp: rebuild_table_def Let_def db3_def list_ex_iff db1(5))
  then have up: "sqlite_upgrade_schema eng fails db = Inr (finish_upgrade eng fails ?db2 db3)"
    using db1(1) flat by (auto simp: sqlite_upgrade_Inr flat_db_def LEGACY_COLUMNS_def COLS_TO_MIGRATE_def)
  have "flag_set db3 k = flag_set ?db2 k" for k by (simp add: db3_def flag_set_def)
  then have "\<not> flag_set db3 ''nulls_recovered''" "\<not> flag_set db3 ''data_unwrapped''"
    using flat db1(4) by (simp_all add: flat_db_def)
  note fin = finish_rebuilt [where eng = eng and fails = fails and ?db2.0 = ?db2 and ?db3.0 = db3, OF ok _ _ this]
  have "column_names db3 = KEEP_COLUMNS" "ld_lookup db3 = ld_lookup db1" "ld_rows db3 = map h (ld_rows db)"
    by (simp_all add: db3_def column_names_def comp_def)
  moreover have "row_upgraded eng (has_column db) (ld_lookup db1) r
      (let r = recover_value eng (h r) in if needs_update r then unwrap_row r else r)" if "r \<in> set (ld_rows db)" for r
    using flat db1(7) that by (intro settled_row) (auto simp: flat_db_def)
  ultimately show ?thesis
    using up fin db1(2,3,6) by (auto simp: list_all2_map2 list_all2_same)
qed

end
