(* ===== verification/SchemaProperties.thy ===== *)
theory SchemaProperties
  imports SqliteSchema Samples
begin

text \<open>
  What the upgrade of a database of an earlier version guarantees.
\<close>

section \<open>SQLite\<close>

text \<open>A database engine, and a flat database with one row of each kind of value.\<close>

definition sample_text :: "sqlval \<Rightarrow> string" where
  "sample_text v = (case v of SText s \<Rightarrow> s | SBadJson s \<Rightarrow> s | _ \<Rightarrow> ''0'')"

definition sample_engine :: legacy_engine where
  "sample_engine = \<lparr>le_new_id = next_rowid, le_cast_text = sample_text, le_number_json = (\<lambda>_. JInt 21)\<rparr>"

definition flat_row :: "int \<Rightarrow> sqlval \<Rightarrow> cells" where
  "flat_row n v = (\<lambda>_. SNull)
     (''timestamp'' := SInt n, ''source'' := SText ''1.1.1'', ''destination'' := SText ''1/2/3'',
      ''telegramtype'' := SText ''GroupValueWrite'', ''direction'' := SText ''Incoming'',
      ''value'' := v, ''value_numeric'' := SInt 21, ''payload'' := SJson (JArray [JInt 12, JInt 84]))"

definition flat_sample :: legacy_db where
  "flat_sample = \<lparr>
     ld_columns = map (\<lambda>c. (c, [])) (''timestamp'' # COLS_TO_MIGRATE @ [''payload'', ''value'', ''value_numeric'', ''dpt_name'']),
     ld_rows = [flat_row 1 SNull, flat_row 2 (SJson (JObject [(''value'', JInt 5)]))],
     ld_lookup = [], ld_flags = Map.empty\<rparr>"

lemma flat_sample_ok [simp]: "flat_db flat_sample"
  by (simp add: flat_db_def flat_sample_def lookup_ok_def column_names_def COLS_TO_MIGRATE_def flag_set_def
      well_typed_def flat_row_def comp_def)

lemma sample_engine_fresh [simp]: "fresh_ids (le_new_id sample_engine)"
  by (simp add: sample_engine_def next_rowid_fresh)

text \<open>
  C16: Upgrading a flat SQLite database keeps every telegram: no row is lost, none is added, they stay
  in their order; each string of a row is found again under the id the row got, ids given
  earlier stay, the other cells keep what they held, a missing value is recovered from the number
  beside it and \<open>{"value": x}\<close> becomes \<open>x\<close>; the table has exactly the columns of the model.
\<close>

theorem sqlite_upgrade_keeps_telegrams:
  assumes "fresh_ids (le_new_id eng)" and "flat_db db" and "\<And>n. \<not> fails n"
  shows "\<exists>db' new. sqlite_upgrade_schema eng fails db = Inr db' \<and> column_names db' = KEEP_COLUMNS \<and>
    ld_lookup db' = ld_lookup db @ new \<and> lookup_ok (ld_lookup db') \<and>
    list_all2 (row_upgraded eng (has_column db) (ld_lookup db')) (ld_rows db) (ld_rows db')"
  using assms by (rule sqlite_upgrade_flat)

theorem sqlite_upgrade_keeps_telegrams_witness:
  "\<exists>db' new. sqlite_upgrade_schema sample_engine (\<lambda>_. False) flat_sample = Inr db' \<and>
    column_names db' = KEEP_COLUMNS \<and>
    ld_lookup db' = ld_lookup flat_sample @ new \<and> lookup_ok (ld_lookup db') \<and>
    list_all2 (row_upgraded sample_engine (has_column flat_sample) (ld_lookup db')) (ld_rows flat_sample) (ld_rows db')"
  by (rule sqlite_upgrade_keeps_telegrams) simp_all

text \<open>
  An upgrade of a SQLite database that runs to its end is recognised as done: the part of
  \<open>needs_migration\<close> that looks at columns, values and flags reports nothing, whatever schema the
  database had before.
\<close>

lemma sqlite_upgrade_settles_check:
  assumes "sqlite_upgrade_schema eng fails db = Inr db'" and "\<And>n. \<not> fails n"
  shows "\<not> schema_pending probe_fails db'"
  using assms by (rule sqlite_upgrade_settles)

end
