(* ===== verification/PostgresUpgrade.thy ===== *)
theory PostgresUpgrade
  imports PostgresSchema SchemaProperties
begin

text \<open>
  What the upgrade of a PostgreSQL database does to its rows, when it fails, and that the backfill
  treats every row exactly once.
\<close>

section \<open>The backfill\<close>

lemma unwrap_cells_plain: "\<not> wrapped_row r \<Longrightarrow> unwrap_cells r = r"
  by (auto simp: wrapped_row_def unwrap_cells_def unwrap_or_keep_def)

lemma reached_all:
  assumes "reached_rows env rows = length (filter wrapped_row rows)"
  shows "unwrap_reached env rows = map unwrap_cells rows"
proof -
  let ?w = "filter (\<lambda>(i, r). wrapped_row r) (enumerate 0 rows)"
  have "length ?w = length (filter wrapped_row (map snd (enumerate 0 rows)))"
    by (simp add: filter_map comp_def case_prod_unfold del: map_snd_enumerate)
  then have "length (filter (\<lambda>(i, r). \<not> bf_skipped env i) ?w) = length ?w"
    using assms by (simp add: reached_rows_def case_prod_unfold conj_commute)
  then have "\<forall>(i, r) \<in> set ?w. \<not> bf_skipped env i"
    by (metis (no_types, lifting) length_filter_less nless_le)
  then have "(\<lambda>(i, r). if wrapped_row r \<and> \<not> bf_skipped env i then unwrap_cells r else r) p = unwrap_cells (snd p)"
    if "p \<in> set (enumerate 0 rows)" for p
    using that unwrap_cells_plain [of "snd p"] by (cases p; cases "wrapped_row (snd p)") auto
  then have "unwrap_reached env rows = map (\<lambda>p. unwrap_cells (snd p)) (enumerate 0 rows)"
    unfolding unwrap_reached_def by (intro map_cong) auto
  also have "\<dots> = map unwrap_cells (map snd (enumerate 0 rows))" by (simp add: comp_def del: map_snd_enumerate)
  finally show ?thesis by simp
qed

text \<open>What the passes leave behind when they succeed.\<close>

definition backfilled_row :: "legacy_engine \<Rightarrow> legacy_db \<Rightarrow> cells \<Rightarrow> cells" where
  "backfilled_row eng db r =
     (let r = (if flag_set db ''nulls_recovered'' \<or> \<not> has_column db ''value'' \<or> \<not> has_column db ''value_numeric''
               then r else recover_value eng r);
          r = (if has_column db ''value_legacy_float'' \<and> has_column db ''value_numeric'' then fill_float r else r)
      in if flag_set db ''data_unwrapped'' then r else unwrap_cells r)"

lemma recover_value_missing: "\<not> value_missing r \<Longrightarrow> recover_value eng r = r"
  by (auto simp: value_missing_def recover_value_def)

lemma fill_float_done [simp]: "\<not> float_missing (fill_float r)" "\<not> float_missing r \<Longrightarrow> fill_float r = r"
  by (auto simp: float_missing_def fill_float_def)

lemma map_unless: "(\<And>x. \<not> P x \<Longrightarrow> f x = x) \<Longrightarrow> (if list_ex P xs then map f xs else xs) = map f xs"
  by (induction xs) (auto simp: list_ex_iff map_idI split: if_splits)

lemma recover_nulls_Inr:
  assumes "recover_nulls eng env (set (column_names db)) db = Inr db'"
  shows "db' = (if flag_set db ''nulls_recovered'' then db
    else set_flag ''nulls_recovered'' (db\<lparr>ld_rows := map
      (if has_column db ''value'' \<and> has_column db ''value_numeric'' then recover_value eng else id) (ld_rows db)\<rparr>))"
proof -
  have "(if list_ex value_missing (ld_rows db) then map (recover_value eng) (ld_rows db) else ld_rows db) =
      map (recover_value eng) (ld_rows db)"
    by (rule map_unless) (rule recover_value_missing)
  then show ?thesis
    using assms by (auto simp: recover_nulls_def pg_update_def bind_res_Inr_conv split: if_splits option.splits)
qed

lemma unwrap_wrapped_Inr:
  assumes "unwrap_wrapped env db = Inr db'"
  shows "db' = (if flag_set db ''data_unwrapped'' then db
    else set_flag ''data_unwrapped'' (db\<lparr>ld_rows := map unwrap_cells (ld_rows db)\<rparr>))"
proof (cases "filter wrapped_row (ld_rows db) = []")
  case True
  then have "map unwrap_cells (ld_rows db) = ld_rows db"
    by (intro map_idI) (auto simp: filter_empty_conv unwrap_cells_plain)
  with assms True show ?thesis by (auto simp: unwrap_wrapped_def Let_def bind_res_Inr_conv split: if_splits)
next
  case False
  with assms show ?thesis
    using reached_all [of env "ld_rows db"]
    by (auto simp: unwrap_wrapped_def Let_def bind_res_Inr_conv split: if_splits option.splits)
qed

lemma map_fill_float:
  "(if list_ex float_missing rows then map fill_float rows else rows) = map fill_float rows"
  by (rule map_unless) simp

text \<open>The passes of a backfill that succeeds; \<open>lock\<close> is whether it locks the table, and so reads it anew.\<close>

lemma pg_backfill_passes:
  fixes db locked env
  defines "early \<equiv> \<not> flag_set db ''data_unwrapped'' \<or>
      \<not> flag_set db ''nulls_recovered'' \<and> has_column db ''value'' \<and> has_column db ''value_numeric''"
  defines "floats \<equiv> has_column db ''value_legacy_float'' \<and> has_column db ''value_numeric''"
  defines "lock \<equiv> early \<or> floats \<and> list_ex float_missing (ld_rows db)"
  assumes "pg_backfill eng env db locked = Inr db'"
  obtains db1 db2 where "recover_nulls eng env (set (column_names db)) (if lock then locked else db) = Inr db1"
    and "(if floats \<and> lock \<and> list_ex float_missing (ld_rows db1) then pg_update env 1 fill_float db1 else Inr db1) = Inr db2"
    and "unwrap_wrapped env db2 = Inr db'"
proof -
  have free: "bf_advisory_free env" using assms(4) by (simp add: pg_backfill_def split: if_splits)
  have "bind_res (if lock then (case bf_lock_refused env of Some e \<Rightarrow> Inl e | None \<Rightarrow> Inr locked) else Inr db) (\<lambda>db0.
      bind_res (recover_nulls eng env (set (column_names db)) db0) (\<lambda>db1.
      bind_res (if floats \<and> lock \<and> list_ex float_missing (ld_rows db1) then pg_update env 1 fill_float db1 else Inr db1)
        (unwrap_wrapped env))) = Inr db'"
    using assms(4) free unfolding pg_backfill_def Let_def lock_def floats_def early_def
    by (simp only: not_True_eq_False if_False disj_assoc conj_assoc)
  then obtain c db1 db2 where
    c: "(if lock then (case bf_lock_refused env of Some e \<Rightarrow> Inl e | None \<Rightarrow> Inr locked) else Inr db) = Inr c"
    and d: "recover_nulls eng env (set (column_names db)) c = Inr db1"
    "(if floats \<and> lock \<and> list_ex float_missing (ld_rows db1) then pg_update env 1 fill_float db1 else Inr db1) = Inr db2"
    "unwrap_wrapped env db2 = Inr db'"
    unfolding bind_res_Inr_conv by blast
  have "c = (if lock then locked else db)" using c by (cases lock) (simp_all split: option.splits)
  with d show thesis by (intro that) simp_all
qed

lemma fill_pass:
  assumes "(if floats \<and> lock \<and> list_ex float_missing (ld_rows db1) then pg_update env 1 fill_float db1 else Inr db1) = Inr db2"
    and "floats \<and> \<not> lock \<longrightarrow> \<not> list_ex float_missing (ld_rows db1)"
  shows "ld_rows db2 = (if floats then map fill_float (ld_rows db1) else ld_rows db1)"
    and "column_names db2 = column_names db1" and "ld_columns db2 = ld_columns db1" and "flag_set db2 k = flag_set db1 k"
  using assms map_fill_float [of "ld_rows db1"]
  by (auto simp: pg_update_def flag_set_def split: if_splits option.splits)

lemma pg_backfill_Inr:
  assumes "pg_backfill eng env db locked = Inr db'" and "column_names locked = column_names db"
  defines "early \<equiv> \<not> flag_set db ''data_unwrapped'' \<or>
      \<not> flag_set db ''nulls_recovered'' \<and> has_column db ''value'' \<and> has_column db ''value_numeric''"
  obtains cur where "cur = locked \<or> cur = db \<and> \<not> early"
    and "ld_rows db' = map (backfilled_row eng cur) (ld_rows cur)" and "column_names db' = column_names db"
    and "flag_set db' ''nulls_recovered''" and "flag_set db' ''data_unwrapped''" and "ld_columns db' = ld_columns cur"
proof -
  let ?floats = "has_column db ''value_legacy_float'' \<and> has_column db ''value_numeric''"
  let ?lock = "early \<or> ?floats \<and> list_ex float_missing (ld_rows db)"
  define cur where "cur = (if ?lock then locked else db)"
  have cols: "column_names cur = column_names db" using assms(2) by (simp add: cur_def)
  obtain db1 db2 where d: "recover_nulls eng env (set (column_names db)) cur = Inr db1"
    "(if ?floats \<and> ?lock \<and> list_ex float_missing (ld_rows db1) then pg_update env 1 fill_float db1 else Inr db1) = Inr db2"
    "unwrap_wrapped env db2 = Inr db'"
    using pg_backfill_passes [OF assms(1), folded early_def, folded cur_def] by blast
  note d1 = recover_nulls_Inr [OF d(1) [folded cols]]
  have "?floats \<and> \<not> ?lock \<longrightarrow> \<not> list_ex float_missing (ld_rows db1)"
    by (auto simp: d1 cur_def early_def)
  note d2 = fill_pass [OF d(2) this] and d3 = unwrap_wrapped_Inr [OF d(3)]
  show thesis
  proof (rule that [of cur])
    show "cur = locked \<or> cur = db \<and> \<not> early" by (simp add: cur_def)
    show "ld_rows db' = map (backfilled_row eng cur) (ld_rows cur)"
      using cols by (auto simp: d3 d2 d1 backfilled_row_def [abs_def] Let_def comp_def)
    show "flag_set db' ''nulls_recovered''" "flag_set db' ''data_unwrapped''"
      by (auto simp: d3 d2 d1)
    show "column_names db' = column_names db" "ld_columns db' = ld_columns cur" using cols by (auto simp: d3 d2 d1)
  qed
qed

text \<open>A database all of whose rows are done is left alone.\<close>

lemma pg_backfill_idle:
  assumes "bf_advisory_free env" and "flag_set db ''nulls_recovered''" and "flag_set db ''data_unwrapped''"
    and "has_column db ''value_legacy_float'' \<and> has_column db ''value_numeric'' \<Longrightarrow>
      list_all (\<lambda>r. \<not> float_missing r) (ld_rows db)"
  shows "pg_backfill eng env db locked = Inr db"
proof -
  have "\<not> (has_column db ''value_legacy_float'' \<and> has_column db ''value_numeric'' \<and> list_ex float_missing (ld_rows db))"
    using assms(4) by (auto simp: list_ex_iff list_all_iff)
  then show ?thesis
    using assms(1-3) by (auto simp: pg_backfill_def Let_def recover_nulls_def unwrap_wrapped_def)
qed

lemma backfilled_not_missing:
  "has_column db ''value_legacy_float'' \<Longrightarrow> has_column db ''value_numeric'' \<Longrightarrow>
    \<not> float_missing (backfilled_row eng db r)"
  using fill_float_done(1) by (auto simp: backfilled_row_def Let_def unwrap_cells_def float_missing_def fill_float_def)

section \<open>Runs of statements\<close>

lemma pg_populate_all:
  "list_all (has_column db) cats \<Longrightarrow> pg_all (map (pg_populate eng) cats) (False, db) =
    Inr (False, db\<lparr>ld_lookup := foldl (populate_lookup eng (ld_rows db)) (ld_lookup db) cats\<rparr>)"
proof (induction cats arbitrary: db)
  case (Cons cat cats)
  then show ?case by (simp add: pg_execute_def pg_populate_def need_columns_def)
qed simp

lemma pg_add_ids:
  "distinct cats \<Longrightarrow> list_all (\<lambda>c. \<not> has_column db (id_col c)) cats \<Longrightarrow>
    pg_all (map (\<lambda>c. pg_add_column (id_col c, ''INTEGER'')) cats) (False, db) = Inr (False, foldl add_id_column db cats)"
proof (induction cats arbitrary: db)
  case (Cons cat cats)
  then have "list_all (\<lambda>c. \<not> has_column (add_id_column db cat) (id_col c)) cats"
    by (auto simp: list_all_iff add_id_column_def)
  then show ?case using Cons by (simp add: pg_execute_def pg_add_column_def add_id_column_def)
qed simp

lemma pg_update_all:
  "list_all (\<lambda>c. has_column db c \<and> has_column db (id_col c)) cats \<Longrightarrow>
    pg_all (map (pg_update_ids eng) cats) (False, db) =
      Inr (False, db\<lparr>ld_rows := map (fold (pg_set_id eng (ld_lookup db)) cats) (ld_rows db)\<rparr>)"
proof (induction cats arbitrary: db)
  case Nil
  have "fold (pg_set_id eng (ld_lookup db)) [] = (\<lambda>r. r)" by auto
  then show ?case by simp
next
  case (Cons cat cats)
  then show ?case by (simp add: pg_execute_def pg_update_ids_def need_columns_def comp_def)
qed

definition drop_columns :: "string list \<Rightarrow> legacy_db \<Rightarrow> legacy_db" where
  "drop_columns cs db = db\<lparr>ld_columns := filter (\<lambda>d. fst d \<notin> set cs) (ld_columns db),
     ld_rows := map (\<lambda>r c. if c \<in> set cs then SNull else r c) (ld_rows db)\<rparr>"

lemma drop_columns_simps [simp]:
  "has_column (drop_columns cs db) c \<longleftrightarrow> has_column db c \<and> c \<notin> set cs"
  "ld_lookup (drop_columns cs db) = ld_lookup db" "flag_set (drop_columns cs db) k = flag_set db k"
  "ld_rows (drop_columns cs db) = map (\<lambda>r c. if c \<in> set cs then SNull else r c) (ld_rows db)"
  "drop_columns [] db = db"
  by (auto simp: drop_columns_def column_names_def flag_set_def)

lemma drop_column_Inr: "has_column db c \<Longrightarrow> drop_column c db = Inr (drop_columns [c] db)"
  by (simp add: drop_column_def drop_columns_def clear_column_def fun_upd_def)

lemma drop_columns_Cons: "drop_columns cs (drop_columns [c] db) = drop_columns (c # cs) db"
  by (auto simp: drop_columns_def comp_def fun_eq_iff intro!: filter_cong)

lemma pg_drop_all:
  "distinct cs \<Longrightarrow> list_all (has_column db) cs \<Longrightarrow>
    pg_all (map drop_column cs) (False, db) = Inr (False, drop_columns cs db)"
proof (induction cs arbitrary: db)
  case (Cons c cs)
  then have "list_all (has_column (drop_columns [c] db)) cs" by (auto simp: list_all_iff)
  then show ?case using Cons by (simp add: pg_execute_def drop_column_Inr drop_columns_Cons)
qed simp

lemma pg_swallow_drops:
  "distinct cs \<Longrightarrow> list_all (has_column db) cs \<Longrightarrow>
    fold (\<lambda>c. pg_swallow (drop_column c)) cs (False, db) = (False, drop_columns cs db)"
proof (induction cs arbitrary: db)
  case (Cons c cs)
  then have "list_all (has_column (drop_columns [c] db)) cs" by (auto simp: list_all_iff)
  then show ?case using Cons by (simp add: pg_swallow_def pg_execute_def drop_column_Inr drop_columns_Cons)
qed simp

text \<open>Where the set of names says the truth, a column that counts as missing is added as on SQLite.\<close>

lemma pg_add_expected_ok:
  assumes "distinct (map fst cs)" and "id_col ` set (map fst cs) \<inter> set (map fst cs) = {}"
  shows "\<forall>c \<in> set (map fst cs). (c \<in> existing \<longleftrightarrow> has_column db c) \<and> (id_col c \<in> existing \<longleftrightarrow> has_column db (id_col c)) \<Longrightarrow>
    pg_add_expected cs existing (False, db) = Inr (False, foldl add_missing db cs)"
  using assms
proof (induction cs arbitrary: existing db)
  case (Cons c cs)
  let ?e = "insert (fst c) existing" and ?db = "add_column c db"
  have "fst c \<notin> fst ` set cs" "fst c \<notin> id_col ` fst ` set cs" using Cons.prems(2,3) by auto
  then have "d \<noteq> fst c \<and> id_col d \<noteq> fst c" if "d \<in> set (map fst cs)" for d
    using that by (metis image_eqI set_map)
  then have "\<forall>d \<in> set (map fst cs). (d \<in> ?e \<longleftrightarrow> has_column ?db d) \<and> (id_col d \<in> ?e \<longleftrightarrow> has_column ?db (id_col d))"
    using Cons.prems(1) by auto
  moreover have "distinct (map fst cs)" "id_col ` set (map fst cs) \<inter> set (map fst cs) = {}"
    using Cons.prems(2,3) by auto
  ultimately show ?case
    using Cons.IH [of ?e ?db] Cons.IH [of existing db] Cons.prems(1)
    by (auto simp: add_missing_def pg_execute_def pg_add_column_def)
qed simp

text \<open>The ids a row is given.\<close>

lemma add_ids_cleared:
  "list_all (\<lambda>c. \<not> has_column db (id_col c)) cats \<Longrightarrow> distinct cats \<Longrightarrow>
    ld_rows (foldl add_id_column db cats) = map (\<lambda>r c. if c \<in> id_col ` set cats then SNull else r c) (ld_rows db)"
proof (induction cats arbitrary: db)
  case (Cons cat cats)
  then have "list_all (\<lambda>c. \<not> has_column (add_id_column db cat) (id_col c)) cats"
    by (auto simp: list_all_iff add_id_column_def)
  moreover have "ld_rows (add_id_column db cat) = map (clear_column (id_col cat)) (ld_rows db)"
    using Cons.prems by (simp add: add_id_column_def add_column_def)
  ultimately show ?case
    using Cons.IH [of "add_id_column db cat"] Cons.prems(2) by (auto simp: clear_column_def)
qed simp

lemma pg_set_id_eq: "pg_set_id eng table cat r = r(id_col cat :=
    (if r cat = SNull \<or> lookup_id table (cat, le_cast_text eng (r cat)) = SNull then r (id_col cat)
     else lookup_id table (cat, le_cast_text eng (r cat))))"
  by (auto simp: pg_set_id_def split: sqlval.split)

lemma pg_set_ids:
  "cat \<in> set COLS_TO_MIGRATE \<Longrightarrow> fold (pg_set_id eng table) COLS_TO_MIGRATE r (id_col cat) =
    (if r cat = SNull \<or> lookup_id table (cat, le_cast_text eng (r cat)) = SNull then r (id_col cat)
     else lookup_id table (cat, le_cast_text eng (r cat)))"
  "c \<notin> id_col ` set COLS_TO_MIGRATE \<Longrightarrow> fold (pg_set_id eng table) COLS_TO_MIGRATE r c = r c"
  by (auto simp: pg_set_id_eq id_col_def COLS_TO_MIGRATE_def)

section \<open>Flat tables\<close>

text \<open>
  A table as the library wrote it before strings were interned: none of the names of SpectrumKNX. The
  inspector either asks the database again or repeats the columns it has reported; in that case the
  table must not have the columns \<open>dpt_name\<close> and \<open>unit\<close>.
\<close>

definition pg_flat :: "legacy_db \<Rightarrow> bool" where
  "pg_flat db \<longleftrightarrow> lookup_ok (ld_lookup db) \<and>
     list_all (has_column db) (''timestamp'' # ''raw_data'' # COLS_TO_MIGRATE) \<and>
     list_all (\<lambda>c. \<not> has_column db c) (PG_ID_COLUMNS @ map id_col (map fst PG_EXPECTED_COLUMNS) @
       [''source_address'', ''target_address'', ''telegram_type'', ''value_json'']) \<and>
     (has_column db ''value'' \<longrightarrow> has_column db ''value_numeric'' \<and> \<not> column_is (ld_columns db) ''value'' ''double'')"

definition reports :: "inspector \<Rightarrow> legacy_db \<Rightarrow> bool" where
  "reports refetch db \<longleftrightarrow> (\<forall>old now. refetch old now = now) \<or>
     (\<forall>old now. refetch old now = old) \<and> \<not> has_column db ''dpt_name'' \<and> \<not> has_column db ''unit''"

abbreviation has_bytes :: "legacy_db \<Rightarrow> bool" where
  "has_bytes db \<equiv> column_is (ld_columns db) ''raw_data'' ''bytea''"

lemma rename_loop_none:
  "\<forall>(old, new) \<in> set rns. old \<in> existing \<longrightarrow> new \<in> existing \<and> \<not> (old = ''value'' \<and> column_is columns ''value'' ''double'') \<Longrightarrow>
    rename_loop columns rns (existing, tx) = Inr (existing, tx)"
  by (induction rns) (auto simp: rename_step_def)

lemma column_is_append [simp]: "column_is (cs @ ds) c t \<longleftrightarrow> column_is cs c t \<or> column_is ds c t"
  by (simp add: column_is_def)

lemma column_is_added:
  "column_is (ld_columns (foldl add_missing db cs)) c t \<Longrightarrow> column_is (ld_columns db) c t \<or> column_is cs c t"
proof (induction cs arbitrary: db)
  case (Cons d cs)
  from Cons.IH [of "add_missing db d"] Cons.prems show ?case
    by (auto simp: add_missing_def add_column_def column_is_def split: if_splits)
qed simp

lemma column_is_ids:
  "column_is (ld_columns (foldl add_id_column db cats)) c t \<Longrightarrow> column_is (ld_columns db) c t \<or> c \<in> id_col ` set cats"
proof (induction cats arbitrary: db)
  case (Cons d cats)
  from Cons.IH [of "add_id_column db d"] Cons.prems show ?case
    by (auto simp: add_id_column_def add_column_def column_is_def split: if_splits)
qed simp

lemma column_is_dropped: "column_is (ld_columns (drop_columns cs db)) c t \<Longrightarrow> column_is (ld_columns db) c t"
  by (auto simp: column_is_def drop_columns_def list_ex_iff)

text \<open>\<open>raw_data\<close> as text.\<close>

definition with_text :: "legacy_db \<Rightarrow> legacy_db" where
  "with_text db = (if has_bytes db then
     db\<lparr>ld_columns := map (\<lambda>(c, t). (c, if c = ''raw_data'' then ''TEXT'' else t)) (ld_columns db),
        ld_rows := map (\<lambda>r. r(''raw_data'' := encode_hex (r ''raw_data''))) (ld_rows db)\<rparr> else db)"

lemma text_types [simp]:
  "\<not> contains_text ''bytea'' (lower ''TEXT'')" "\<not> contains_text ''double'' (lower ''JSONB'')"
  by (code_simp, code_simp)

lemma with_text_simps [simp]:
  "column_names (with_text db) = column_names db" "ld_lookup (with_text db) = ld_lookup db"
  "flag_set (with_text db) k = flag_set db k" "\<not> has_bytes (with_text db)"
  "c \<noteq> ''raw_data'' \<Longrightarrow> column_is (ld_columns (with_text db)) c t = column_is (ld_columns db) c t"
  by (auto simp: with_text_def column_names_def flag_set_def column_is_def list_ex_iff comp_def split_beta)

lemma with_text_rows: "ld_rows (with_text db) =
    map (\<lambda>r. r(''raw_data'' := (if has_bytes db then encode_hex else id) (r ''raw_data''))) (ld_rows db)"
  by (simp add: with_text_def)

abbreviation dropped_names :: "string list" where
  "dropped_names \<equiv> COLS_TO_MIGRATE @ [''dpt_name'', ''unit'']"

text \<open>The row the statements make of a row, and the database they lead to.\<close>

definition cleared_ids :: "cells \<Rightarrow> cells" where
  "cleared_ids r = (\<lambda>c. if c \<in> id_col ` set COLS_TO_MIGRATE then SNull else r c)"

definition normalized_row :: "legacy_engine \<Rightarrow> lookup_row list \<Rightarrow> string list \<Rightarrow> cells \<Rightarrow> cells" where
  "normalized_row eng table drops r =
     (\<lambda>c. if c \<in> set drops then SNull else fold (pg_set_id eng table) COLS_TO_MIGRATE (cleared_ids r) c)"

lemma normalized_row_ok:
  assumes table: "lookup_ok table" and drops: "set drops \<subseteq> set dropped_names"
    and found: "\<forall>cat \<in> set COLS_TO_MIGRATE. r cat \<noteq> SNull \<longrightarrow> (\<exists>i. has_id table (cat, le_cast_text eng (r cat)) i)"
  shows "strings_moved eng table r (normalized_row eng table drops r)"
    and "c \<notin> id_col ` set COLS_TO_MIGRATE \<Longrightarrow> c \<notin> set dropped_names \<Longrightarrow> normalized_row eng table drops r c = r c"
proof -
  let ?f = "normalized_row eng table drops r"
  show "strings_moved eng table r ?f"
    unfolding strings_moved_def
  proof
    fix cat
    assume cat: "cat \<in> set COLS_TO_MIGRATE"
    then have k: "cleared_ids r cat = r cat" "cleared_ids r (id_col cat) = SNull"
      by (auto simp: cleared_ids_def id_col_def COLS_TO_MIGRATE_def)
    have "id_col cat \<notin> set dropped_names" using cat by (auto simp: id_col_def COLS_TO_MIGRATE_def)
    with k drops have "?f (id_col cat) = (if r cat = SNull then SNull else lookup_id table (cat, le_cast_text eng (r cat)))"
      using pg_set_ids(1) [OF cat, of eng table "cleared_ids r"] by (auto simp: normalized_row_def)
    then show "if r cat = SNull then ?f (id_col cat) = SNull
      else (\<exists>i. ?f (id_col cat) = SInt i \<and> lookup_value table cat i = Some (le_cast_text eng (r cat)))"
      using found cat lookup_id_has_id [OF table] has_id_lookup_value [OF table] by auto
  qed
  show "?f c = r c" if "c \<notin> id_col ` set COLS_TO_MIGRATE" "c \<notin> set dropped_names"
    using that drops pg_set_ids(2) [OF that(1), of eng table "cleared_ids r"]
    by (auto simp: normalized_row_def cleared_ids_def)
qed

definition normalized_db :: "legacy_engine \<Rightarrow> lookup_row list \<Rightarrow> string list \<Rightarrow> legacy_db \<Rightarrow> legacy_db" where
  "normalized_db eng table drops db =
     drop_columns drops ((foldl add_id_column (db\<lparr>ld_lookup := table\<rparr>) COLS_TO_MIGRATE)
       \<lparr>ld_rows := map (\<lambda>r. fold (pg_set_id eng table) COLS_TO_MIGRATE (cleared_ids r)) (ld_rows db)\<rparr>)"

lemma pg_normalize_runs:
  assumes cols: "list_all (has_column db) COLS_TO_MIGRATE" and none: "list_all (\<lambda>c. \<not> has_column db c) PG_ID_COLUMNS"
  shows "pg_normalize eng (set (column_names db)) (False, db) = Inr (False,
    normalized_db eng (foldl (populate_lookup eng (ld_rows db)) (ld_lookup db) COLS_TO_MIGRATE)
      (filter (has_column db) dropped_names) db)"
proof -
  define table where "table = foldl (populate_lookup eng (ld_rows db)) (ld_lookup db) COLS_TO_MIGRATE"
  define drops where "drops = filter (has_column db) dropped_names"
  let ?dba = "db\<lparr>ld_lookup := table\<rparr>"
  let ?dbb = "foldl add_id_column ?dba COLS_TO_MIGRATE"
  let ?dbc = "?dbb\<lparr>ld_rows := map (\<lambda>r. fold (pg_set_id eng table) COLS_TO_MIGRATE (cleared_ids r)) (ld_rows db)\<rparr>"
  have ids: "list_all (\<lambda>c. \<not> has_column db (id_col c)) COLS_TO_MIGRATE"
    using none by (simp add: PG_ID_COLUMNS_def list_all_iff)
  have dist: "distinct COLS_TO_MIGRATE" "distinct drops" by (simp_all add: COLS_TO_MIGRATE_def drops_def)
  have all: "filter (\<lambda>c. c \<in> set (column_names db)) COLS_TO_MIGRATE = COLS_TO_MIGRATE"
    "filter (\<lambda>c. id_col c \<notin> set (column_names db)) COLS_TO_MIGRATE = COLS_TO_MIGRATE"
    "filter (\<lambda>c. c \<in> set (column_names db)) dropped_names = drops"
    using cols ids by (simp_all add: filter_id_conv list_all_iff drops_def)
  have a: "pg_all (map (pg_populate eng) COLS_TO_MIGRATE) (False, db) = Inr (False, ?dba)"
    unfolding table_def by (rule pg_populate_all [OF cols])
  have b: "pg_all (map (\<lambda>c. pg_add_column (id_col c, ''INTEGER'')) COLS_TO_MIGRATE) (False, ?dba) = Inr (False, ?dbb)"
    by (rule pg_add_ids [OF dist(1)]) (use ids in simp)
  have rows: "ld_rows ?dbb = map cleared_ids (ld_rows db)"
    using add_ids_cleared [of ?dba COLS_TO_MIGRATE] ids dist(1) by (simp add: cleared_ids_def [abs_def])
  have c: "pg_all (map (pg_update_ids eng) COLS_TO_MIGRATE) (False, ?dbb) = Inr (False, ?dbc)"
    using pg_update_all [of ?dbb COLS_TO_MIGRATE eng] cols rows by (simp add: add_ids list_all_iff comp_def)
  have d: "pg_all (map drop_column drops) (False, ?dbc) = Inr (False, drop_columns drops ?dbc)"
    by (rule pg_drop_all [OF dist(2)]) (simp add: drops_def list_all_iff add_ids)
  show ?thesis
    unfolding normalized_db_def table_def [symmetric] drops_def [symmetric]
    unfolding pg_normalize_def all a bind_res_simps b c d ..
qed

lemma normalized_db_simps:
  "ld_lookup (normalized_db eng table drops db) = table"
  "flag_set (normalized_db eng table drops db) k = flag_set db k"
  "ld_rows (normalized_db eng table drops db) = map (normalized_row eng table drops) (ld_rows db)"
  "has_column (normalized_db eng table drops db) c \<longleftrightarrow>
     (has_column db c \<or> c \<in> id_col ` set COLS_TO_MIGRATE) \<and> c \<notin> set drops"
  "column_is (ld_columns (normalized_db eng table drops db)) c ty \<Longrightarrow>
     column_is (ld_columns db) c ty \<or> c \<in> id_col ` set COLS_TO_MIGRATE"
proof -
  let ?dbb = "foldl add_id_column (db\<lparr>ld_lookup := table\<rparr>) COLS_TO_MIGRATE"
  let ?dbc = "?dbb\<lparr>ld_rows := map (\<lambda>r. fold (pg_set_id eng table) COLS_TO_MIGRATE (cleared_ids r)) (ld_rows db)\<rparr>"
  have n: "normalized_db eng table drops db = drop_columns drops ?dbc" by (simp add: normalized_db_def)
  show "ld_lookup (normalized_db eng table drops db) = table" "flag_set (normalized_db eng table drops db) k = flag_set db k"
    "ld_rows (normalized_db eng table drops db) = map (normalized_row eng table drops) (ld_rows db)"
    by (simp_all add: n add_ids normalized_row_def [abs_def] comp_def)
  have "has_column ?dbc c \<longleftrightarrow> has_column db c \<or> c \<in> id_col ` set COLS_TO_MIGRATE" by (simp add: add_ids)
  then show "has_column (normalized_db eng table drops db) c \<longleftrightarrow>
      (has_column db c \<or> c \<in> id_col ` set COLS_TO_MIGRATE) \<and> c \<notin> set drops"
    unfolding n drop_columns_simps by blast
  show "column_is (ld_columns (normalized_db eng table drops db)) c ty \<Longrightarrow>
      column_is (ld_columns db) c ty \<or> c \<in> id_col ` set COLS_TO_MIGRATE"
    using column_is_dropped [of drops ?dbc c ty] column_is_ids [of "db\<lparr>ld_lookup := table\<rparr>" COLS_TO_MIGRATE c ty]
    by (simp add: n)
qed

lemma pg_normalize_ok:
  assumes "fresh_ids (le_new_id eng)" and "lookup_ok (ld_lookup db)" and "list_all (has_column db) COLS_TO_MIGRATE"
    and none: "list_all (\<lambda>c. \<not> has_column db c) PG_ID_COLUMNS"
  shows "\<exists>db1 new f. pg_normalize eng (set (column_names db)) (False, db) = Inr (False, db1) \<and>
    ld_lookup db1 = ld_lookup db @ new \<and> lookup_ok (ld_lookup db1) \<and> (\<forall>k. flag_set db1 k = flag_set db k) \<and>
    (\<forall>c. has_column db1 c \<longleftrightarrow> (has_column db c \<or> c \<in> id_col ` set COLS_TO_MIGRATE) \<and> c \<notin> set dropped_names) \<and>
    (\<forall>c t. column_is (ld_columns db1) c t \<longrightarrow> column_is (ld_columns db) c t \<or> c \<in> id_col ` set COLS_TO_MIGRATE) \<and>
    ld_rows db1 = map f (ld_rows db) \<and>
    (\<forall>r \<in> set (ld_rows db). strings_moved eng (ld_lookup db1) r (f r) \<and>
       (\<forall>c. c \<notin> id_col ` set COLS_TO_MIGRATE \<longrightarrow> c \<notin> set dropped_names \<longrightarrow> f r c = r c))"
proof -
  define table where "table = foldl (populate_lookup eng (ld_rows db)) (ld_lookup db) COLS_TO_MIGRATE"
  define drops where "drops = filter (has_column db) dropped_names"
  obtain new where t: "lookup_ok table" "table = ld_lookup db @ new"
    "\<forall>cat \<in> set COLS_TO_MIGRATE. \<forall>r \<in> set (ld_rows db). r cat \<noteq> SNull \<longrightarrow>
      (\<exists>i. has_id table (cat, le_cast_text eng (r cat)) i)"
    using populate_all_ok [OF assms(1,2), of "ld_rows db" COLS_TO_MIGRATE] unfolding table_def by blast
  have drops: "set drops \<subseteq> set dropped_names" "c \<in> set drops \<longleftrightarrow> c \<in> set dropped_names \<and> has_column db c" for c
    unfolding drops_def set_filter by blast+
  have "c \<notin> set dropped_names" if "c \<in> id_col ` set COLS_TO_MIGRATE" for c
    using that by (auto simp: id_col_def COLS_TO_MIGRATE_def)
  then have has: "has_column (normalized_db eng table drops db) c \<longleftrightarrow>
      (has_column db c \<or> c \<in> id_col ` set COLS_TO_MIGRATE) \<and> c \<notin> set dropped_names" for c
    unfolding normalized_db_simps drops(2) by blast
  note run = pg_normalize_runs [OF assms(3,4), of eng, folded table_def drops_def]
  note row = normalized_row_ok [OF t(1) drops(1)]
  show ?thesis
  proof (intro exI [of _ "normalized_db eng table drops db"] exI [of _ new] exI [of _ "normalized_row eng table drops"]
      conjI allI impI ballI)
    show "ld_lookup (normalized_db eng table drops db) = ld_lookup db @ new" "lookup_ok (ld_lookup (normalized_db eng table drops db))"
      using t(2,1) unfolding normalized_db_simps .
    show "strings_moved eng (ld_lookup (normalized_db eng table drops db)) r (normalized_row eng table drops r)"
      if "r \<in> set (ld_rows db)" for r
      unfolding normalized_db_simps by (rule row(1)) (use t(3) that in blast)
    show "normalized_row eng table drops r c = r c"
      if "r \<in> set (ld_rows db)" "c \<notin> id_col ` set COLS_TO_MIGRATE" "c \<notin> set dropped_names" for r c
      by (rule row(2)) (use t(3) that in blast)+
  qed (fact run has normalized_db_simps(2,3) | erule normalized_db_simps(5))+
qed

text \<open>Columns no step but the last touches.\<close>

definition untouched :: "string \<Rightarrow> bool" where
  "untouched c \<longleftrightarrow> c \<notin> id_col ` set COLS_TO_MIGRATE \<and> c \<notin> set dropped_names \<and> c \<notin> set PG_LEGACY_COLUMNS"

lemma untouched_columns:
  "c \<in> set (map fst PG_EXPECTED_COLUMNS) \<Longrightarrow> untouched c \<and> untouched (id_col c)"
  "untouched ''timestamp''" "untouched ''raw_data''" "untouched ''value_json''" "untouched ''source_address''"
  "untouched ''target_address''" "untouched ''telegram_type''"
  by (auto simp: untouched_def id_col_def COLS_TO_MIGRATE_def PG_LEGACY_COLUMNS_def PG_EXPECTED_COLUMNS_def)

lemma expected_distinct: "distinct (map fst PG_EXPECTED_COLUMNS)"
  "id_col ` set (map fst PG_EXPECTED_COLUMNS) \<inter> set (map fst PG_EXPECTED_COLUMNS) = {}"
  by (auto simp: PG_EXPECTED_COLUMNS_def id_col_def)

definition pg_row_upgraded :: "legacy_engine \<Rightarrow> legacy_db \<Rightarrow> lookup_row list \<Rightarrow> cells \<Rightarrow> cells \<Rightarrow> bool" where
  "pg_row_upgraded eng db table r r' \<longleftrightarrow>
     strings_moved eng table r r' \<and> r' ''timestamp'' = r ''timestamp'' \<and>
     r' ''raw_data'' = (if has_bytes db then encode_hex (r ''raw_data'') else r ''raw_data'') \<and>
     (\<forall>c \<in> set (map fst PG_EXPECTED_COLUMNS). r' c = column_or_null (has_column db) r c)"

lemma strings_moved_source:
  "(\<And>cat. cat \<in> set COLS_TO_MIGRATE \<Longrightarrow> r1 cat = r cat) \<Longrightarrow>
    (\<And>cat. cat \<in> set COLS_TO_MIGRATE \<Longrightarrow> r' (id_col cat) = r1' (id_col cat)) \<Longrightarrow>
    strings_moved eng table r1 r' = strings_moved eng table r r1'"
  by (simp add: strings_moved_def)

text \<open>The columns the inspector reports after the normalisation, and the legacy columns then dropped.\<close>

lemma refetched:
  assumes rep: "reports refetch db"
    and cols: "\<forall>c. has_column db1 c \<longleftrightarrow> (has_column db c \<or> c \<in> id_col ` set COLS_TO_MIGRATE) \<and> c \<notin> set dropped_names"
  defines "existing \<equiv> set (map fst (refetch (ld_columns db) (ld_columns db1)))"
  defines "leg \<equiv> filter (\<lambda>c. c \<in> existing) PG_LEGACY_COLUMNS"
  shows "list_all (has_column db1) leg" and "distinct leg"
    and "untouched c \<Longrightarrow> c \<in> existing \<longleftrightarrow> has_column db c"
    and "untouched c \<Longrightarrow> has_column (drop_columns leg db1) c = has_column db c"
proof -
  have ex: "existing = set (column_names db1) \<or>
      existing = set (column_names db) \<and> ''dpt_name'' \<notin> set (column_names db) \<and> ''unit'' \<notin> set (column_names db)"
    using rep by (auto simp: reports_def existing_def column_names_def)
  have "has_column db1 c" if "c \<in> set leg" for c
  proof -
    have "c \<in> set PG_LEGACY_COLUMNS" "c \<in> existing" using that by (simp_all add: leg_def)
    moreover from this(1) have "c \<notin> set dropped_names \<or> c = ''dpt_name'' \<or> c = ''unit''"
      by (auto simp: PG_LEGACY_COLUMNS_def COLS_TO_MIGRATE_def)
    ultimately show ?thesis using ex cols by blast
  qed
  then show "list_all (has_column db1) leg" "distinct leg"
    by (simp_all add: list_all_iff) (simp add: leg_def PG_LEGACY_COLUMNS_def)
  show "c \<in> existing \<longleftrightarrow> has_column db c" "has_column (drop_columns leg db1) c = has_column db c" if "untouched c"
    using that ex cols by (auto simp: untouched_def leg_def)
qed

text \<open>A row after the change of \<open>raw_data\<close>, the normalisation and the dropping of legacy columns.\<close>

definition raw_as_text :: "bool \<Rightarrow> cells \<Rightarrow> cells" where
  "raw_as_text bytes r = r(''raw_data'' := (if bytes then encode_hex else id) (r ''raw_data''))"

lemma prefixed_row:
  assumes "strings_moved eng table (raw_as_text bytes r) h"
    and kept: "\<And>c. c \<notin> id_col ` set COLS_TO_MIGRATE \<Longrightarrow> c \<notin> set dropped_names \<Longrightarrow> h c = raw_as_text bytes r c"
    and leg: "set leg \<subseteq> set PG_LEGACY_COLUMNS"
  shows "strings_moved eng table r (\<lambda>c. if c \<in> set leg then SNull else h c)"
    and "untouched c \<Longrightarrow> (if c \<in> set leg then SNull else h c) = (if c = ''raw_data'' \<and> bytes then encode_hex (r c) else r c)"
proof -
  have "id_col cat \<notin> set PG_LEGACY_COLUMNS" "raw_as_text bytes r cat = r cat" if "cat \<in> set COLS_TO_MIGRATE" for cat
    using that by (auto simp: raw_as_text_def PG_LEGACY_COLUMNS_def id_col_def COLS_TO_MIGRATE_def)
  note cat = this
  have "strings_moved eng table r (\<lambda>c. if c \<in> set leg then SNull else h c) =
      strings_moved eng table (raw_as_text bytes r) h"
  proof (rule strings_moved_source)
    fix cat
    assume c: "cat \<in> set COLS_TO_MIGRATE"
    show "r cat = raw_as_text bytes r cat" by (rule cat(2) [OF c, symmetric])
    show "(if id_col cat \<in> set leg then SNull else h (id_col cat)) = h (id_col cat)"
      by (rule if_not_P) (use cat(1) [OF c] leg in blast)
  qed
  then show "strings_moved eng table r (\<lambda>c. if c \<in> set leg then SNull else h c)"
    by (rule iffD2) (rule assms(1))
  show "(if c \<in> set leg then SNull else h c) = (if c = ''raw_data'' \<and> bytes then encode_hex (r c) else r c)" if "untouched c"
  proof -
    have "c \<notin> set leg" "h c = raw_as_text bytes r c"
      using that leg kept [of c] unfolding untouched_def by blast+
    then show ?thesis by (simp add: raw_as_text_def)
  qed
qed

text \<open>The upgrade up to the last step.\<close>

lemma pg_upgrade_prefix:
  assumes "fresh_ids (le_new_id eng)" and flat: "pg_flat db" and rep: "reports refetch db"
  obtains db2 new f where "pg_upgrade_schema eng refetch db = Inr (False, foldl add_missing db2 PG_EXPECTED_COLUMNS)"
    and "ld_lookup db2 = ld_lookup db @ new" and "lookup_ok (ld_lookup db2)"
    and "\<And>c. untouched c \<Longrightarrow> has_column db2 c = has_column db c" and "\<not> has_column db2 ''source''"
    and "\<And>c. c \<in> id_col ` set COLS_TO_MIGRATE \<Longrightarrow> has_column db2 c"
    and "\<And>c t. column_is (ld_columns db2) c t \<Longrightarrow> c \<notin> id_col ` set COLS_TO_MIGRATE \<Longrightarrow>
      column_is (ld_columns (with_text db)) c t"
    and "ld_rows db2 = map f (ld_rows db)"
    and "\<And>r. r \<in> set (ld_rows db) \<Longrightarrow> strings_moved eng (ld_lookup db2) r (f r)"
    and "\<And>r c. r \<in> set (ld_rows db) \<Longrightarrow> untouched c \<Longrightarrow>
      f r c = (if c = ''raw_data'' \<and> has_bytes db then encode_hex (r c) else r c)"
proof -
  let ?cols = "set (column_names db)" and ?raw = "raw_as_text (has_bytes db)"
  have lk: "lookup_ok (ld_lookup (with_text db))" and old: "list_all (has_column (with_text db)) COLS_TO_MIGRATE"
    and ids: "list_all (\<lambda>c. \<not> has_column (with_text db) c) PG_ID_COLUMNS"
    and src: "''source'' \<in> ?cols" and raw: "''raw_data'' \<in> ?cols"
    using flat by (simp_all add: pg_flat_def COLS_TO_MIGRATE_def)
  have rows: "ld_rows (with_text db) = map ?raw (ld_rows db)" by (simp add: with_text_rows raw_as_text_def [abs_def])
  obtain db1 new f where db1: "pg_normalize eng ?cols (False, with_text db) = Inr (False, db1)"
    "ld_lookup db1 = ld_lookup db @ new" "lookup_ok (ld_lookup db1)"
    "\<forall>c. has_column db1 c \<longleftrightarrow> (has_column db c \<or> c \<in> id_col ` set COLS_TO_MIGRATE) \<and> c \<notin> set dropped_names"
    "\<forall>c t. column_is (ld_columns db1) c t \<longrightarrow> column_is (ld_columns (with_text db)) c t \<or> c \<in> id_col ` set COLS_TO_MIGRATE"
    "ld_rows db1 = map f (map ?raw (ld_rows db))"
    "\<forall>r \<in> set (map ?raw (ld_rows db)). strings_moved eng (ld_lookup db1) r (f r) \<and>
       (\<forall>c. c \<notin> id_col ` set COLS_TO_MIGRATE \<longrightarrow> c \<notin> set dropped_names \<longrightarrow> f r c = r c)"
    using pg_normalize_ok [OF assms(1) lk old ids] unfolding with_text_simps rows by blast
  define existing where "existing = set (map fst (refetch (ld_columns db) (ld_columns db1)))"
  define leg where "leg = filter (\<lambda>c. c \<in> existing) PG_LEGACY_COLUMNS"
  define db2 where "db2 = drop_columns leg db1"
  note leg = refetched [OF rep db1(4), folded existing_def, folded leg_def, folded db2_def]
  have sub: "set leg \<subseteq> set PG_LEGACY_COLUMNS" by (simp add: leg_def)
  have rename: "rename_loop (ld_columns db) RENAMES (set (map fst (ld_columns db)), False, db) = Inr (?cols, False, db)"
    unfolding column_names_def [symmetric] by (rule rename_loop_none)
      (use flat in \<open>auto simp: pg_flat_def RENAMES_def\<close>)
  have conv: "(if ''raw_data'' \<in> ?cols \<and> has_bytes db then pg_execute raw_data_to_text (False, db) else Inr (False, db)) =
      Inr (False, with_text db)"
    using raw by (simp add: pg_execute_def raw_data_to_text_def need_columns_def with_text_def)
  have add: "pg_add_expected PG_EXPECTED_COLUMNS existing (False, db2) = Inr (False, foldl add_missing db2 PG_EXPECTED_COLUMNS)"
    by (rule pg_add_expected_ok [OF expected_distinct]) (use leg(3,4) untouched_columns(1) in blast)
  have up: "pg_upgrade_schema eng refetch db = Inr (False, foldl add_missing db2 PG_EXPECTED_COLUMNS)"
    unfolding pg_upgrade_schema_def Let_def rename bind_res_simps case_prod_conv conv if_P [OF src] db1(1) snd_conv
      existing_def [symmetric] leg_def [symmetric] pg_swallow_drops [OF leg(2,1)] db2_def [symmetric] add ..
  have row: "strings_moved eng (ld_lookup db1) (?raw r) (f (?raw r))"
    "c \<notin> id_col ` set COLS_TO_MIGRATE \<Longrightarrow> c \<notin> set dropped_names \<Longrightarrow> f (?raw r) c = ?raw r c" if "r \<in> set (ld_rows db)" for r c
    using db1(7) that by simp_all
  have lookup: "ld_lookup db2 = ld_lookup db1" by (simp add: db2_def)
  show thesis
  proof (rule that [OF up])
    show "ld_rows db2 = map (\<lambda>r c. if c \<in> set leg then SNull else f (?raw r) c) (ld_rows db)"
      by (simp add: db2_def db1(6) comp_def)
    show "strings_moved eng (ld_lookup db2) r (\<lambda>c. if c \<in> set leg then SNull else f (?raw r) c)"
      if "r \<in> set (ld_rows db)" for r
      unfolding lookup by (rule prefixed_row(1) [OF row(1) [OF that] row(2) [OF that] sub])
    show "(if c \<in> set leg then SNull else f (?raw r) c) = (if c = ''raw_data'' \<and> has_bytes db then encode_hex (r c) else r c)"
      if "r \<in> set (ld_rows db)" "untouched c" for r c
      by (rule prefixed_row(2) [OF row(1) [OF that(1)] row(2) [OF that(1)] sub that(2)])
    show "has_column db2 c" if "c \<in> id_col ` set COLS_TO_MIGRATE" for c
      using that db1(4) by (auto simp: db2_def leg_def PG_LEGACY_COLUMNS_def id_col_def COLS_TO_MIGRATE_def)
    show "column_is (ld_columns (with_text db)) c t"
      if "column_is (ld_columns db2) c t" "c \<notin> id_col ` set COLS_TO_MIGRATE" for c t
      using column_is_dropped that db1(5) unfolding db2_def by blast
    show "\<not> has_column db2 ''source''" using db1(4) by (simp add: db2_def COLS_TO_MIGRATE_def)
  qed (use lookup db1(2,3) leg(4) in simp_all)
qed

lemma pg_not_pending:
  assumes flat: "pg_flat db" and db2: "\<And>c. untouched c \<Longrightarrow> has_column db2 c = has_column db c" "\<not> has_column db2 ''source''"
    "\<And>c. c \<in> id_col ` set COLS_TO_MIGRATE \<Longrightarrow> has_column db2 c"
    "\<And>c t. column_is (ld_columns db2) c t \<Longrightarrow> c \<notin> id_col ` set COLS_TO_MIGRATE \<Longrightarrow>
      column_is (ld_columns (with_text db)) c t"
  shows "\<not> pg_columns_pending (foldl add_missing db2 PG_EXPECTED_COLUMNS)"
proof -
  let ?db = "foldl add_missing db2 PG_EXPECTED_COLUMNS"
  let ?names = "[''source_address'', ''target_address'', ''telegram_type'', ''value_json'']"
  have gone: "\<not> has_column ?db c" if "c \<in> set (''source'' # ?names)" for c
  proof -
    have "c \<notin> fst ` set PG_EXPECTED_COLUMNS" using that by (auto simp: PG_EXPECTED_COLUMNS_def)
    moreover have "\<not> has_column db2 c" using that db2(1,2) flat untouched_columns by (auto simp: pg_flat_def)
    ultimately show ?thesis using add_missing_new by blast
  qed
  have ids: "has_column ?db c" if "c \<in> set PG_ID_COLUMNS" for c
    using that db2(3) by (intro add_missing_mono) (simp add: PG_ID_COLUMNS_def)
  have there: "has_column ?db c" if c: "c \<in> set (map fst PG_EXPECTED_COLUMNS)" for c
  proof -
    have "\<not> has_column db2 (id_col c)" using c db2(1) untouched_columns(1) flat by (auto simp: pg_flat_def list_all_iff)
    moreover have "id_col c \<notin> fst ` set PG_EXPECTED_COLUMNS" using c by (auto simp: PG_EXPECTED_COLUMNS_def id_col_def)
    ultimately have "\<not> has_column ?db (id_col c)" using add_missing_new by blast
    moreover have "c \<in> fst ` set PG_EXPECTED_COLUMNS" using c by simp
    ultimately show ?thesis using add_missing_there by blast
  qed
  have plain: "c \<notin> id_col ` set COLS_TO_MIGRATE" if "c = ''value'' \<or> c = ''raw_data''" for c
    using that by (auto simp: id_col_def COLS_TO_MIGRATE_def)
  have is_there: "column_is cs c t \<Longrightarrow> c \<in> fst ` set cs" for cs c t by (force simp: column_is_def list_ex_iff)
  have types: "column_is (ld_columns ?db) c t \<Longrightarrow> c = ''value'' \<or> c = ''raw_data'' \<Longrightarrow>
      column_is (ld_columns (with_text db)) c t \<or> column_is PG_EXPECTED_COLUMNS c t" for c t
    using column_is_added [of db2 PG_EXPECTED_COLUMNS c t] db2(4) plain by blast
  have "\<not> column_is PG_EXPECTED_COLUMNS ''value'' ''double''" "\<not> column_is PG_EXPECTED_COLUMNS ''raw_data'' ''bytea''"
    by (simp_all add: PG_EXPECTED_COLUMNS_def column_is_def)
  then have "\<not> column_is (ld_columns ?db) ''value'' ''double''" "\<not> has_bytes ?db"
    using types [of "''value''" "''double''"] types [of "''raw_data''" "''bytea''"] flat
      is_there [of "ld_columns db" "''value''" "''double''"] by (auto simp: pg_flat_def column_names_def)
  then show ?thesis using gone ids there by (auto simp: pg_columns_pending_def list_ex_iff)
qed

lemma pg_upgrade_keeps:
  assumes "fresh_ids (le_new_id eng)" and "pg_flat db" and "reports refetch db"
  shows "\<exists>db' new. pg_upgrade_schema eng refetch db = Inr (False, db') \<and> \<not> pg_columns_pending db' \<and>
    ld_lookup db' = ld_lookup db @ new \<and> lookup_ok (ld_lookup db') \<and>
    list_all2 (pg_row_upgraded eng db (ld_lookup db')) (ld_rows db) (ld_rows db')"
proof -
  obtain db2 new f where db2: "pg_upgrade_schema eng refetch db = Inr (False, foldl add_missing db2 PG_EXPECTED_COLUMNS)"
    "ld_lookup db2 = ld_lookup db @ new" "lookup_ok (ld_lookup db2)"
    "\<And>c. untouched c \<Longrightarrow> has_column db2 c = has_column db c" "\<not> has_column db2 ''source''"
    "\<And>c. c \<in> id_col ` set COLS_TO_MIGRATE \<Longrightarrow> has_column db2 c"
    "\<And>c t. column_is (ld_columns db2) c t \<Longrightarrow> c \<notin> id_col ` set COLS_TO_MIGRATE \<Longrightarrow> column_is (ld_columns (with_text db)) c t"
    "ld_rows db2 = map f (ld_rows db)" "\<And>r. r \<in> set (ld_rows db) \<Longrightarrow> strings_moved eng (ld_lookup db2) r (f r)"
    "\<And>r c. r \<in> set (ld_rows db) \<Longrightarrow> untouched c \<Longrightarrow> f r c = (if c = ''raw_data'' \<and> has_bytes db then encode_hex (r c) else r c)"
    using pg_upgrade_prefix [OF assms] by blast
  let ?db = "foldl add_missing db2 PG_EXPECTED_COLUMNS"
  obtain fm where fm: "ld_rows ?db = map fm (ld_rows db2)"
    "\<forall>r c. fm r c = (if has_column db2 c \<or> \<not> has_column ?db c then r c else SNull)"
    using add_missing_rows [of db2 PG_EXPECTED_COLUMNS] by blast
  note ready = pg_not_pending [OF assms(2) db2(4-7)]
  have "pg_row_upgraded eng db (ld_lookup ?db) r (fm (f r))" if r: "r \<in> set (ld_rows db)" for r
  proof -
    have "strings_moved eng (ld_lookup ?db) r (fm (f r))"
      using db2(9) [OF r] by (subst strings_moved_cong [where r' = "f r"]) (use fm(2) db2(6) in auto)
    moreover have "fm (f r) c = (if c = ''raw_data'' \<and> has_bytes db then encode_hex (r c) else r c)"
      if "untouched c" "has_column db c" for c
      using that fm(2) db2(4,10) r by simp
    moreover have "fm (f r) c = column_or_null (has_column db) r c" if c: "c \<in> set (map fst PG_EXPECTED_COLUMNS)" for c
    proof -
      have "has_column ?db c" using ready c by (auto simp: pg_columns_pending_def list_ex_iff)
      moreover have "c \<noteq> ''raw_data''" using c by (auto simp: PG_EXPECTED_COLUMNS_def)
      ultimately show ?thesis using fm(2) db2(4,10) r untouched_columns(1) [OF c] by (simp add: column_or_null_def)
    qed
    moreover have "has_column db ''timestamp''" "has_column db ''raw_data''" using assms(2) by (simp_all add: pg_flat_def)
    ultimately show ?thesis using untouched_columns by (simp add: pg_row_upgraded_def)
  qed
  then have "list_all2 (pg_row_upgraded eng db (ld_lookup ?db)) (ld_rows db) (ld_rows ?db)"
    by (simp add: fm(1) db2(8) list_all2_map2 list_all2_same)
  with db2(1-3) ready show ?thesis by auto
qed


text \<open>A table with a column \<open>dpt_name\<close> and one without.\<close>

definition pg_sample :: "(string \<times> string) list \<Rightarrow> legacy_db" where
  "pg_sample extra = \<lparr>
     ld_columns = (''timestamp'', ''TIMESTAMP'') # (''raw_data'', ''BYTEA'') # map (\<lambda>c. (c, ''VARCHAR'')) COLS_TO_MIGRATE @ extra,
     ld_rows = [(flat_row 1 SNull)(''raw_data'' := SBytes ''A'')], ld_lookup = [], ld_flags = Map.empty\<rparr>"

lemma pg_sample_flat [simp]: "pg_flat (pg_sample [])" "pg_flat (pg_sample [(''dpt_name'', ''VARCHAR'')])"
  by (simp_all add: pg_flat_def pg_sample_def lookup_ok_def column_names_def COLS_TO_MIGRATE_def PG_ID_COLUMNS_def
      PG_EXPECTED_COLUMNS_def id_col_def)


end
