(* ===== verification/PostgresStart.thy ===== *)
theory PostgresStart
  imports PostgresUpgrade
begin

text \<open>
  The start of a PostgreSQL store (\<open>initialize\<close> of src/knx_telegram_store/backends/postgres.py): the
  detection of TimescaleDB, the transaction with the schema upgrade, the hypertable, the backfill that
  is never fatal, and the start of the base class, which is the argument \<open>base\<close>.
\<close>

section \<open>TimescaleDB\<close>

text \<open>The outcomes of the three statements: one that raises, or whether there is a row.\<close>

definition detect_timescale :: "exc + bool \<Rightarrow> exc option \<Rightarrow> exc + bool \<Rightarrow> exc + bool" where
  "detect_timescale listed create installed =
     bind_res listed (\<lambda>there.
       if \<not> there then Inr False
       else (case create of
               None \<Rightarrow> Inr True
             | Some e \<Rightarrow> if isinstance (class_of e) [Exception] then installed else Inl e))"

datatype hypertable_statement =
  CreateHypertable | SelectCompression | EnableCompression | AddCompressionPolicy int

text \<open>The statements, given whether compression is enabled already.\<close>

definition hypertable_statements :: "int option \<Rightarrow> bool \<Rightarrow> hypertable_statement list" where
  "hypertable_statements compress_after_days already_enabled =
     CreateHypertable #
     (case compress_after_days of
        None \<Rightarrow> []
      | Some days \<Rightarrow> SelectCompression # (if already_enabled then [] else [EnableCompression]) @
          [AddCompressionPolicy days])"

definition setup_hypertable :: "(hypertable_statement \<Rightarrow> exc option) \<Rightarrow> int option \<Rightarrow> bool \<Rightarrow> exc + unit" where
  "setup_hypertable refused compress_after_days already_enabled =
     bind_res (map_res (\<lambda>s. case refused s of None \<Rightarrow> Inr () | Some e \<Rightarrow> Inl e)
       (hypertable_statements compress_after_days already_enabled)) (\<lambda>_. Inr ())"

section \<open>initialize\<close>

record pg_state =
  pg_db :: legacy_db
  pg_timescale_enabled :: "bool option"

record pg_server =
  sv_available :: "exc + bool"
  sv_create :: "exc option"
  sv_installed :: "exc + bool"
  sv_hypertable_refused :: "hypertable_statement \<Rightarrow> exc option"
  sv_compressed :: bool
  sv_backfill :: backfill_env
  sv_concurrent :: "legacy_db \<Rightarrow> legacy_db"

text \<open>
  After the upgrade the transaction creates indexes and the trigger: statements that change no row,
  but that fail when an earlier one did.
\<close>

definition schema_transaction :: "legacy_engine \<Rightarrow> inspector \<Rightarrow> legacy_db \<Rightarrow> exc + legacy_db" where
  "schema_transaction eng refetch db =
     bind_res (pg_upgrade_schema eng refetch db) (\<lambda>tx.
     bind_res (pg_execute Inr tx) (\<lambda>tx. Inr (snd tx)))"

definition pg_initialize ::
  "legacy_engine \<Rightarrow> inspector \<Rightarrow> pg_server \<Rightarrow> (legacy_db \<Rightarrow> (exc + unit) \<times> legacy_db) \<Rightarrow> bool \<Rightarrow> int option \<Rightarrow>
   pg_state \<Rightarrow> (exc + unit) \<times> pg_state"
where
  "pg_initialize eng refetch sv base read_only compress_after_days st =
     (let start = (\<lambda>st. case base (pg_db st) of (r, db) \<Rightarrow> (r, st\<lparr>pg_db := db\<rparr>)) in
      if read_only then start st
      else (case detect_timescale (sv_available sv) (sv_create sv) (sv_installed sv) of
        Inl e \<Rightarrow> (Inl e, st)
      | Inr timescale \<Rightarrow>
        (case schema_transaction eng refetch (pg_db st) of
          Inl e \<Rightarrow> (Inl e, st)
        | Inr db \<Rightarrow>
          let st = st\<lparr>pg_db := db\<rparr> in
          (case (if timescale then setup_hypertable (sv_hypertable_refused sv) compress_after_days (sv_compressed sv)
                 else Inr ()) of
            Inl e \<Rightarrow> (Inl e, st)
          | Inr _ \<Rightarrow>
            (case pg_backfill eng (sv_backfill sv) db (sv_concurrent sv db) of
              Inr db \<Rightarrow> start (st\<lparr>pg_db := db, pg_timescale_enabled := Some timescale\<rparr>)
            | Inl e \<Rightarrow>
                if isinstance (class_of e) [Exception]
                then start (st\<lparr>pg_timescale_enabled := Some timescale\<rparr>) else (Inl e, st))))))"

section \<open>When the server is in order\<close>

definition server_in_order :: "pg_server \<Rightarrow> bool" where
  "server_in_order sv \<longleftrightarrow>
     (\<exists>timescale. detect_timescale (sv_available sv) (sv_create sv) (sv_installed sv) = Inr timescale) \<and>
     (\<forall>s. sv_hypertable_refused sv s = None) \<and> (\<forall>db. sv_concurrent sv db = db) \<and>
     bf_advisory_free (sv_backfill sv) \<and> bf_lock_refused (sv_backfill sv) = None \<and>
     (\<forall>i. bf_update_refused (sv_backfill sv) i = None) \<and> (\<forall>i. \<not> bf_skipped (sv_backfill sv) i)"

lemma hypertable_ok: "(\<And>s. refused s = None) \<Longrightarrow> setup_hypertable refused days enabled = Inr ()"
  by (simp add: setup_hypertable_def map_res_Inr [where g = "\<lambda>_. ()"])

lemma unwrap_all_reached:
  "(\<And>i. \<not> bf_skipped env i) \<Longrightarrow> reached_rows env rows = length (filter wrapped_row rows)"
proof -
  assume "\<And>i. \<not> bf_skipped env i"
  then have "reached_rows env rows = length (filter (\<lambda>p. wrapped_row (snd p)) (enumerate 0 rows))"
    by (simp add: reached_rows_def case_prod_unfold)
  also have "\<dots> = length (filter wrapped_row (map snd (enumerate 0 rows)))"
    by (simp add: filter_map comp_def del: map_snd_enumerate)
  finally show ?thesis by simp
qed

lemma backfill_succeeds:
  assumes "server_in_order sv" and "has_column db ''value''" and "has_column db ''payload''"
  shows "\<exists>db'. pg_backfill eng (sv_backfill sv) db db = Inr db'"
proof -
  have u: "\<exists>db'. unwrap_wrapped (sv_backfill sv) db1 = Inr db'" if "column_names db1 = column_names db" for db1
    using assms that by (auto simp: unwrap_wrapped_def need_columns_def Let_def server_in_order_def unwrap_all_reached)
  have r: "\<exists>db1. recover_nulls eng (sv_backfill sv) existing db = Inr db1 \<and> column_names db1 = column_names db" for existing
    using assms by (auto simp: recover_nulls_def pg_update_def server_in_order_def)
  have f: "\<exists>db2. (if b then pg_update (sv_backfill sv) 1 fill_float db1 else Inr db1) = Inr db2 \<and>
      column_names db2 = column_names db1" for b db1
    using assms by (auto simp: pg_update_def server_in_order_def)
  obtain db1 where db1: "recover_nulls eng (sv_backfill sv) (set (column_names db)) db = Inr db1" "column_names db1 = column_names db"
    using r by blast
  have free: "bf_advisory_free (sv_backfill sv)" "bf_lock_refused (sv_backfill sv) = None"
    using assms(1) by (simp_all add: server_in_order_def)
  have nf: "(\<not> bf_advisory_free (sv_backfill sv)) = False" using free by simp
  have "\<exists>B. pg_backfill eng (sv_backfill sv) db db =
      bind_res (recover_nulls eng (sv_backfill sv) (set (column_names db)) db) (\<lambda>db1.
      bind_res (if B db1 then pg_update (sv_backfill sv) 1 fill_float db1 else Inr db1) (unwrap_wrapped (sv_backfill sv)))"
    unfolding pg_backfill_def Let_def nf free(2) option.case if_cancel bind_res_simps if_False by (rule exI, rule refl)
  then obtain B where B: "pg_backfill eng (sv_backfill sv) db db =
      bind_res (if B db1 then pg_update (sv_backfill sv) 1 fill_float db1 else Inr db1) (unwrap_wrapped (sv_backfill sv))"
    unfolding db1(1) bind_res_simps by metis
  obtain db2 where "(if B db1 then pg_update (sv_backfill sv) 1 fill_float db1 else Inr db1) = Inr db2"
    "column_names db2 = column_names db" using f [of "B db1" db1] db1(2) by auto
  then show ?thesis using u [of db2] unfolding B by simp
qed

lemma columns_pending_cong: "ld_columns db' = ld_columns db \<Longrightarrow> pg_columns_pending db' = pg_columns_pending db"
  by (simp add: pg_columns_pending_def column_names_def)


text \<open>A server without TimescaleDB.\<close>

definition plain_server :: pg_server where
  "plain_server = \<lparr>sv_available = Inr False, sv_create = None, sv_installed = Inr False,
     sv_hypertable_refused = (\<lambda>_. None), sv_compressed = False,
     sv_backfill = \<lparr>bf_advisory_free = True, bf_lock_refused = None, bf_update_refused = (\<lambda>_. None), bf_skipped = (\<lambda>_. False)\<rparr>,
     sv_concurrent = (\<lambda>db. db)\<rparr>"


section \<open>The backfill treats every row once\<close>

text \<open>
  C18: The backfill of a PostgreSQL database treats every row exactly once, also when another process
  migrates at the same time: if it succeeds, each row is the old one with a missing value recovered,
  a legacy float taken over and \<open>{"value": x}\<close> unwrapped once, counted from the database as it is
  under the lock; both flags are set, nothing is left to be done, and a second run, at any time,
  changes nothing, even though \<open>x\<close> may itself look wrapped.
\<close>

theorem pg_backfill_once:
  assumes "pg_backfill eng env db locked = Inr db'" and "column_names locked = column_names db"
  shows "(\<exists>cur \<in> {db, locked}. ld_rows db' = map (backfilled_row eng cur) (ld_rows cur) \<and>
      (\<not> flag_set db ''data_unwrapped'' \<longrightarrow> cur = locked)) \<and>
    flag_set db' ''nulls_recovered'' \<and> flag_set db' ''data_unwrapped'' \<and> \<not> pg_values_pending probe_fails db' \<and>
    (\<forall>env' locked'. bf_advisory_free env' \<longrightarrow> pg_backfill eng env' db' locked' = Inr db')"
proof -
  obtain cur where cur: "cur = locked \<or> cur = db \<and> \<not> (\<not> flag_set db ''data_unwrapped'' \<or>
      \<not> flag_set db ''nulls_recovered'' \<and> has_column db ''value'' \<and> has_column db ''value_numeric'')"
    "ld_rows db' = map (backfilled_row eng cur) (ld_rows cur)" "column_names db' = column_names db"
    "flag_set db' ''nulls_recovered''" "flag_set db' ''data_unwrapped''"
    using pg_backfill_Inr [OF assms] by metis
  have cols: "column_names cur = column_names db'" using cur(1,3) assms(2) by auto
  have "\<not> pg_values_pending probe_fails db'" using cur(4,5) by (simp add: pg_values_pending_def)
  moreover have "pg_backfill eng env' db' locked' = Inr db'" if "bf_advisory_free env'" for env' locked'
    using that cur(4,5)
    by (rule pg_backfill_idle) (use backfilled_not_missing [of cur] cols cur(2) in \<open>auto simp: list_all_iff\<close>)
  ultimately show ?thesis using cur(1,2,4,5) by auto
qed

text \<open>A value that is wrapped twice loses one wrapping.\<close>

definition wrapped_sample :: legacy_db where
  "wrapped_sample = \<lparr>ld_columns = map (\<lambda>c. (c, [])) [''timestamp'', ''value'', ''payload'', ''value_numeric''],
     ld_rows = [(\<lambda>_. SNull)(''value'' := SJson (JObject [(''value'', JObject [(''value'', JInt 5)])]))],
     ld_lookup = [], ld_flags = Map.empty\<rparr>"

theorem pg_backfill_once_witness:
  "\<exists>db'. pg_backfill sample_engine (sv_backfill plain_server) wrapped_sample wrapped_sample = Inr db' \<and>
    map (\<lambda>r. r ''value'') (ld_rows db') = [SJson (JObject [(''value'', JInt 5)])] \<and>
    pg_backfill sample_engine (sv_backfill plain_server) db' db' = Inr db'"
proof -
  have sv: "server_in_order plain_server"
    by (simp add: server_in_order_def plain_server_def detect_timescale_def) (rule exI [of _ False], simp)
  have "has_column wrapped_sample ''value''" "has_column wrapped_sample ''payload''"
    by (simp_all add: wrapped_sample_def column_names_def)
  then obtain db' where db': "pg_backfill sample_engine (sv_backfill plain_server) wrapped_sample wrapped_sample = Inr db'"
    using backfill_succeeds [OF sv] by blast
  note once = pg_backfill_once [OF db' refl, where probe_fails = False]
  from once have "ld_rows db' = map (backfilled_row sample_engine wrapped_sample) (ld_rows wrapped_sample)" by auto
  then have "map (\<lambda>r. r ''value'') (ld_rows db') = [SJson (JObject [(''value'', JInt 5)])]"
    by (simp add: wrapped_sample_def backfilled_row_def flag_set_def column_names_def recover_value_def null_value_def
        unwrap_cells_def unwrap_or_keep_def unwrapped_cell_def)
  moreover have "pg_backfill sample_engine (sv_backfill plain_server) db' db' = Inr db'"
  proof -
    have "bf_advisory_free (sv_backfill plain_server)" by (simp add: plain_server_def)
    with once show ?thesis by blast
  qed
  ultimately show ?thesis using db' by (intro exI [of _ db'] conjI)
qed

section \<open>An inspector that repeats itself\<close>

lemma rename_loop_keeps:
  "rename_loop columns rns (existing, tx) = Inr (existing', tx') \<Longrightarrow> c \<in> existing \<Longrightarrow> c \<notin> fst ` set rns \<Longrightarrow> c \<in> existing'"
proof (induction rns arbitrary: existing tx)
  case (Cons rn rns)
  then obtain e1 tx1 where "rename_step columns rn (existing, tx) = Inr (e1, tx1)" "rename_loop columns rns (e1, tx1) = Inr (existing', tx')"
    by (auto simp: bind_res_Inr_conv)
  moreover from this(1) Cons.prems(2,3) have "c \<in> e1"
    by (cases rn) (auto simp: rename_step_def bind_res_Inr_conv split: if_splits)
  ultimately show ?case using Cons by auto
qed simp

lemma pg_execute_Inr: "pg_execute s tx = Inr tx' \<Longrightarrow> \<not> fst tx \<and> (\<exists>db. s (snd tx) = Inr db \<and> tx' = (False, db))"
  by (auto simp: pg_execute_def split: prod.splits if_splits sum.splits)

lemma drop_column_gone: "drop_column c db = Inr db' \<Longrightarrow> has_column db' d \<longleftrightarrow> has_column db d \<and> d \<noteq> c"
  by (auto simp: drop_column_def column_names_def split: if_splits)

lemma pg_drops_gone:
  "pg_all (map drop_column cs) tx = Inr tx' \<Longrightarrow> c \<in> set cs \<or> \<not> has_column (snd tx) c \<Longrightarrow> \<not> has_column (snd tx') c"
proof (induction cs arbitrary: tx)
  case (Cons d cs)
  then obtain tx1 where tx1: "pg_execute (drop_column d) tx = Inr tx1" "pg_all (map drop_column cs) tx1 = Inr tx'"
    by (auto simp: bind_res_Inr_conv)
  then have "c \<in> set cs \<or> \<not> has_column (snd tx1) c"
    using Cons.prems(2) pg_execute_Inr [OF tx1(1)] drop_column_gone by fastforce
  then show ?case using Cons.IH tx1(2) by blast
qed simp

lemma swallow_aborted: "fst tx \<Longrightarrow> pg_swallow s tx = tx"
  by (cases tx) (simp add: pg_swallow_def pg_execute_def)

lemma swallows_aborted: "fst tx \<Longrightarrow> fold (\<lambda>c. pg_swallow (drop_column c)) cs tx = tx"
  by (induction cs) (simp_all add: swallow_aborted)

lemma swallow_missing:
  "c \<in> set cs \<Longrightarrow> \<not> has_column (snd tx) c \<Longrightarrow> fst (fold (\<lambda>c. pg_swallow (drop_column c)) cs tx)"
proof (induction cs arbitrary: tx)
  case (Cons d cs)
  show ?case
  proof (cases "fst (pg_swallow (drop_column d) tx)")
    case True
    then show ?thesis by (simp add: swallows_aborted)
  next
    case False
    then obtain db where db: "pg_execute (drop_column d) tx = Inr (False, db)" "pg_swallow (drop_column d) tx = (False, db)"
      by (cases "pg_execute (drop_column d) tx") (auto simp: pg_swallow_def dest: pg_execute_Inr)
    from pg_execute_Inr [OF db(1)] have d: "drop_column d (snd tx) = Inr db" by simp
    then have "has_column (snd tx) d" by (simp add: drop_column_def split: if_splits)
    then have "d \<noteq> c" "\<not> has_column db c" using Cons.prems(2) drop_column_gone [OF d, of c] by auto
    then show ?thesis using Cons db(2) by simp
  qed
qed simp

lemma pg_add_aborted: "pg_add_expected cs existing tx = Inr tx' \<Longrightarrow> fst tx \<Longrightarrow> fst tx'"
  by (induction cs existing tx rule: pg_add_expected.induct)
    (auto simp: bind_res_Inr_conv dest: pg_execute_Inr split: if_splits)

text \<open>
  C20: With an inspector that repeats what it has reported, as SQLAlchemy's does, a table that still
  has its strings and a column \<open>dpt_name\<close> or \<open>unit\<close> cannot be upgraded: the column is dropped twice,
  the failure is swallowed, PostgreSQL refuses what follows, and the start raises, every time, with
  the database as it was.
\<close>

theorem pg_start_stale_inspector:
  assumes stale: "\<forall>old now. refetch old now = old" and "has_column (pg_db st) ''source''"
    and c: "c = ''dpt_name'' \<or> c = ''unit''" "has_column (pg_db st) c"
    and ts: "detect_timescale (sv_available sv) (sv_create sv) (sv_installed sv) = Inr timescale"
  shows "\<exists>e. pg_initialize eng refetch sv base False days st = (Inl e, st)"
proof -
  let ?db = "pg_db st"
  have "fst tx'" if up: "pg_upgrade_schema eng refetch ?db = Inr tx'" for tx'
  proof -
    obtain existing tx1 tx2 tx3 where
      r: "rename_loop (ld_columns ?db) RENAMES (set (map fst (ld_columns ?db)), False, ?db) = Inr (existing, tx1)"
      and n: "(if ''source'' \<in> existing then pg_normalize eng existing tx2 else Inr tx2) = Inr tx3"
      and a: "pg_add_expected PG_EXPECTED_COLUMNS
        (if ''source'' \<in> existing then set (map fst (refetch (ld_columns ?db) (ld_columns (snd tx3)))) else existing)
        (fold (\<lambda>c. pg_swallow (drop_column c)) (filter (\<lambda>c. c \<in> (if ''source'' \<in> existing
          then set (map fst (refetch (ld_columns ?db) (ld_columns (snd tx3)))) else existing)) PG_LEGACY_COLUMNS) tx3) = Inr tx'"
      using up by (fastforce simp: pg_upgrade_schema_def Let_def bind_res_Inr_conv split: prod.splits)
    have keeps: "d \<in> existing" if "d \<in> set (column_names ?db)" "d \<notin> fst ` set RENAMES" for d
      using rename_loop_keeps [OF r _ that(2)] that(1) by (simp add: column_names_def)
    have "''source'' \<in> existing" "c \<in> existing"
      using keeps [of "''source''"] keeps [of c] assms(2) c by (auto simp: RENAMES_def)
    define cs where "cs = filter (\<lambda>c. c \<in> existing) dropped_names"
    obtain tx where tx: "pg_all (map drop_column cs) tx = Inr tx3"
      using n \<open>''source'' \<in> existing\<close> unfolding pg_normalize_def cs_def [symmetric] by (auto simp: bind_res_Inr_conv)
    have "c \<in> set cs" using \<open>c \<in> existing\<close> c(1) by (auto simp: cs_def)
    with tx have gone: "\<not> has_column (snd tx3) c" by (blast dest: pg_drops_gone)
    have "c \<in> set (filter (\<lambda>c. c \<in> (if ''source'' \<in> existing
        then set (map fst (refetch (ld_columns ?db) (ld_columns (snd tx3)))) else existing)) PG_LEGACY_COLUMNS)"
    proof -
      have "c \<in> set PG_LEGACY_COLUMNS" using c(1) by (auto simp: PG_LEGACY_COLUMNS_def)
      moreover have "c \<in> set (map fst (refetch (ld_columns ?db) (ld_columns (snd tx3))))"
        using stale c(2) by (simp add: column_names_def)
      ultimately show ?thesis using \<open>''source'' \<in> existing\<close> by simp
    qed
    from pg_add_aborted [OF a swallow_missing [OF this gone]] show ?thesis .
  qed
  then have "\<exists>e. schema_transaction eng refetch ?db = Inl e"
    by (cases "pg_upgrade_schema eng refetch ?db") (auto simp: schema_transaction_def pg_execute_def split: prod.splits)
  then show ?thesis using ts by (auto simp: pg_initialize_def)
qed

theorem pg_start_stale_inspector_witness:
  "\<exists>e. pg_initialize sample_engine (\<lambda>old now. old) plain_server (\<lambda>db. (Inr (), db)) False (Some 7)
      \<lparr>pg_db = pg_sample [(''dpt_name'', ''VARCHAR'')], pg_timescale_enabled = None\<rparr> =
    (Inl e, \<lparr>pg_db = pg_sample [(''dpt_name'', ''VARCHAR'')], pg_timescale_enabled = None\<rparr>)"
  by (rule pg_start_stale_inspector [of _ _ "''dpt_name''" _ False])
    (simp_all add: pg_sample_def column_names_def COLS_TO_MIGRATE_def plain_server_def detect_timescale_def)

end
