(* ===== verification/PostgresNotify.thy ===== *)
theory PostgresNotify
  imports StoreProperties PyStrings
begin

text \<open>
  Live notifications of a PostgreSQL store (\<open>_setup_notify_trigger\<close>, \<open>listen_for_new_telegrams\<close> and
  \<open>_telegram_from_notify_payload\<close> of src/knx_telegram_store/backends/postgres.py), the size of its
  tables and the statements of \<open>optimize\<close>.
\<close>

section \<open>The trigger\<close>

text \<open>
  What PostgreSQL and the driver contribute: the text of a JSON record, its length in bytes and its
  parse; the text of a \<open>timestamptz\<close> and its parse; the JSON form of a double and the number it
  is read as.
\<close>

record 'p notify_env =
  ne_text :: "json \<Rightarrow> 'p"
  ne_octets :: "'p \<Rightarrow> int"
  ne_parse :: "'p \<Rightarrow> exc + json"
  ne_timestamp :: "int \<Rightarrow> string"
  ne_fromiso :: "string \<Rightarrow> exc + datetime"
  ne_number :: "pyfloat \<Rightarrow> json"
  ne_float :: "json \<Rightarrow> pyfloat option"

definition null_or :: "('a \<Rightarrow> json) \<Rightarrow> 'a option \<Rightarrow> json" where
  "null_or f x = (case x of None \<Rightarrow> JNull | Some a \<Rightarrow> f a)"

text \<open>The joined record of an inserted row; the required strings are joined with INNER JOIN.\<close>

definition notify_record :: "'p notify_env \<Rightarrow> lookup_row list \<Rightarrow> telegram_row \<Rightarrow> json option" where
  "notify_record env table r =
     Option.bind (lookup_value table ''source'' (r_source_id r)) (\<lambda>s.
     Option.bind (lookup_value table ''destination'' (r_destination_id r)) (\<lambda>d.
     Option.bind (lookup_value table ''telegramtype'' (r_telegramtype_id r)) (\<lambda>tt.
     Option.bind (lookup_value table ''direction'' (r_direction_id r)) (\<lambda>dir.
       Some (JObject
         [(''timestamp'', JStr (ne_timestamp env (r_timestamp r))),
          (''source'', JStr s), (''destination'', JStr d), (''telegramtype'', JStr tt), (''direction'', JStr dir),
          (''source_name'', null_or JStr (Option.bind (r_source_name_id r) (lookup_value table ''source_name''))),
          (''destination_name'',
             null_or JStr (Option.bind (r_destination_name_id r) (lookup_value table ''destination_name''))),
          (''payload'', r_payload r), (''dpt_main'', null_or JInt (r_dpt_main r)),
          (''dpt_sub'', null_or JInt (r_dpt_sub r)), (''value'', r_value r),
          (''value_numeric'', null_or (ne_number env) (r_value_numeric r)),
          (''raw_data'', null_or JStr (r_raw_data r)), (''data_secure'', null_or JBool (r_data_secure r))])))))"

text \<open>Within a transaction PostgreSQL delivers equal payloads of a channel once.\<close>

definition pg_notify :: "'p list \<Rightarrow> 'p \<Rightarrow> 'p list" where
  "pg_notify queue p = (if p \<in> set queue then queue else queue @ [p])"

definition notify_row :: "'p notify_env \<Rightarrow> lookup_row list \<Rightarrow> 'p list \<Rightarrow> telegram_row \<Rightarrow> 'p list" where
  "notify_row env table queue r = (case notify_record env table r of
     None \<Rightarrow> queue
   | Some rec \<Rightarrow>
       let notify_payload = ne_text env rec in
       if ne_octets env notify_payload < 8000 then pg_notify queue notify_payload else queue)"

definition notify_insert :: "'p notify_env \<Rightarrow> lookup_row list \<Rightarrow> telegram_row list \<Rightarrow> 'p list" where
  "notify_insert env table new_rows = foldl (notify_row env table) [] new_rows"

section \<open>The listener\<close>

text \<open>\<open>data[key]\<close>, of the types the trigger writes; anything else is outside the types of the model.\<close>

definition field :: "json \<Rightarrow> string \<Rightarrow> exc + json" where
  "field data key = (case data of
     JObject kvs \<Rightarrow> (case map_of (rev kvs) key of None \<Rightarrow> Inl (raise_exc KeyError) | Some v \<Rightarrow> Inr v)
   | _ \<Rightarrow> Inl (raise_exc TypeError))"

definition str_field :: "json \<Rightarrow> string \<Rightarrow> exc + string" where
  "str_field data key = bind_res (field data key) (\<lambda>v.
     case v of JStr s \<Rightarrow> Inr s | _ \<Rightarrow> Inl (raise_exc TypeError))"

definition opt_field :: "(json \<Rightarrow> 'a option) \<Rightarrow> json \<Rightarrow> string \<Rightarrow> exc + 'a option" where
  "opt_field f data key = bind_res (field data key) (\<lambda>v. Inr (f v))"

fun json_str :: "json \<Rightarrow> string option" where
  "json_str (JStr s) = Some s" | "json_str _ = None"

fun json_int :: "json \<Rightarrow> int option" where
  "json_int (JInt i) = Some i" | "json_int _ = None"

fun json_bool :: "json \<Rightarrow> bool option" where
  "json_bool (JBool b) = Some b" | "json_bool _ = None"

definition telegram_from_notify :: "'p notify_env \<Rightarrow> 'p \<Rightarrow> exc + stored_telegram" where
  "telegram_from_notify env p =
     bind_res (ne_parse env p) (\<lambda>data.
     bind_res (bind_res (str_field data ''timestamp'') (ne_fromiso env)) (\<lambda>ts.
     bind_res (str_field data ''source'') (\<lambda>s.
     bind_res (str_field data ''destination'') (\<lambda>d.
     bind_res (str_field data ''telegramtype'') (\<lambda>tt.
     bind_res (str_field data ''direction'') (\<lambda>dir.
     bind_res (field data ''payload'') (\<lambda>pl.
     bind_res (opt_field json_int data ''dpt_main'') (\<lambda>main.
     bind_res (opt_field json_int data ''dpt_sub'') (\<lambda>sub.
     bind_res (field data ''value'') (\<lambda>v.
     bind_res (opt_field (ne_float env) data ''value_numeric'') (\<lambda>num.
     bind_res (opt_field json_str data ''raw_data'') (\<lambda>raw.
     bind_res (opt_field json_bool data ''data_secure'') (\<lambda>sec.
     bind_res (opt_field json_str data ''source_name'') (\<lambda>sn.
     bind_res (opt_field json_str data ''destination_name'') (\<lambda>dn.
       Inr \<lparr>timestamp = ts, source = s, destination = d, telegramtype = tt, direction = dir,
            payload = json_loads pl, dpt_main = main, dpt_sub = sub, telegram_value = json_loads v,
            value_numeric = num, raw_data = raw, data_secure = sec,
            source_name = (case sn of None \<Rightarrow> [] | Some n \<Rightarrow> n),
            destination_name = (case dn of None \<Rightarrow> [] | Some n \<Rightarrow> n)\<rparr>)))))))))))))))"

text \<open>What the generator yields of a queue, and the exception that ends it.\<close>

fun listen :: "'p notify_env \<Rightarrow> 'p list \<Rightarrow> stored_telegram list \<times> exc option" where
  "listen env [] = ([], None)"
| "listen env (p # ps) = (case telegram_from_notify env p of
     Inl e \<Rightarrow> ([], Some e)
   | Inr t \<Rightarrow> (case listen env ps of (ts, e) \<Rightarrow> (t # ts, e)))"

section \<open>Size and VACUUM\<close>

text \<open>
  \<open>hyper\<close>, \<open>plain\<close> and \<open>aux\<close> are the outcomes of the three queries, None a NULL; TimescaleDB may be
  known to be off.
\<close>

definition pg_size_bytes ::
  "bool option \<Rightarrow> exc + int option \<Rightarrow> exc + int option \<Rightarrow> exc + int option \<Rightarrow> exc + int" where
  "pg_size_bytes timescale_enabled hyper plain aux =
     bind_res
       (if timescale_enabled = Some False then Inr None
        else (case hyper of
                Inl e \<Rightarrow> if isinstance (class_of e) [Exception] then Inr None else Inl e
              | Inr n \<Rightarrow> Inr n)) (\<lambda>telegrams_size.
     bind_res (if telegrams_size = None then plain else Inr telegrams_size) (\<lambda>telegrams_size.
     bind_res aux (\<lambda>aux_size.
       Inr ((case telegrams_size of None \<Rightarrow> 0 | Some n \<Rightarrow> n) + (case aux_size of None \<Rightarrow> 0 | Some n \<Rightarrow> n)))))"

definition VACUUM_TABLES :: "string list" where
  "VACUUM_TABLES = [''telegrams'', ''string_lookup'', ''last_ga_telegrams'']"

definition pg_optimize :: "(string \<Rightarrow> exc option) \<Rightarrow> sql_store \<Rightarrow> exc + unit" where
  "pg_optimize vacuum s = wrap_store_errors
     (bind_res (ensure_writable s) (\<lambda>_.
      bind_res (map_res (\<lambda>t. case vacuum t of None \<Rightarrow> Inr () | Some e \<Rightarrow> Inl e) VACUUM_TABLES) (\<lambda>_. Inr ())))"

definition pg_capabilities :: "sql_store \<Rightarrow> store_capabilities" where
  "pg_capabilities s = (sql_capabilities s)\<lparr>supports_optimize := False\<rparr>"

section \<open>What a listener is told\<close>

lemma sql_store_many_rows:
  "sql_store_many eng s ts = (Inr (), s') \<Longrightarrow> \<exists>rows. telegrams (sql_db s') = telegrams (sql_db s) @ rows"
  by (auto simp: sql_store_many_def wrapped_def write_batch_def Let_def bind_res_Inr_conv
      split: sum.splits if_splits prod.splits)

definition finite_float :: "pyfloat \<Rightarrow> bool" where
  "finite_float f \<longleftrightarrow> (uint f div 2 ^ 52) mod 2 ^ 11 \<noteq> 2047"

definition wf_notify :: "'p notify_env \<Rightarrow> bool" where
  "wf_notify env \<longleftrightarrow> (\<forall>j. ne_parse env (ne_text env j) = Inr j) \<and>
     (\<forall>us. in_range us \<longrightarrow> (\<exists>d. ne_fromiso env (ne_timestamp env us) = Inr d \<and> is_aware d \<and> instant d = us)) \<and>
     ne_float env JNull = None \<and> (\<forall>f. finite_float f \<longrightarrow> ne_float env (ne_number env f) = Some f)"

definition at_utc :: "stored_telegram \<Rightarrow> stored_telegram" where
  "at_utc t = t\<lparr>timestamp := Datetime (time_of t) (Some 0)\<rparr>"

lemma null_or_simps [simp]:
  "json_int (null_or JInt x) = x" "json_str (null_or JStr y) = y" "json_bool (null_or JBool z) = z"
  by (cases x, simp_all add: null_or_def) (cases y, simp_all, cases z, simp_all)+

lemma record_parsed:
  assumes wf: "wf_notify env" and ok: "row_ok table r"
    and num: "\<forall>f. r_value_numeric r = Some f \<longrightarrow> finite_float f"
  shows "\<exists>rec t. notify_record env table r = Some rec \<and> telegram_from_notify env (ne_text env rec) = Inr t \<and>
    is_aware (timestamp t) \<and> at_utc t = row_telegram table r"
proof -
  obtain s d tt dir where names: "lookup_value table ''source'' (r_source_id r) = Some s"
    "lookup_value table ''destination'' (r_destination_id r) = Some d"
    "lookup_value table ''telegramtype'' (r_telegramtype_id r) = Some tt"
    "lookup_value table ''direction'' (r_direction_id r) = Some dir"
    using ok by (auto simp: row_ok_def interned_def)
  obtain ts where ts: "ne_fromiso env (ne_timestamp env (r_timestamp r)) = Inr ts" "is_aware ts" "instant ts = r_timestamp r"
    using wf ok by (auto simp: wf_notify_def row_ok_def)
  have float: "ne_float env (null_or (ne_number env) (r_value_numeric r)) = r_value_numeric r"
    using wf num by (cases "r_value_numeric r") (auto simp: wf_notify_def null_or_def)
  have parse: "ne_parse env (ne_text env j) = Inr j" for j using wf by (simp add: wf_notify_def)
  show ?thesis
    by (simp add: notify_record_def names telegram_from_notify_def parse str_field_def opt_field_def field_def ts float
        at_utc_def row_telegram_def joined_def)
qed

text \<open>The payloads of a transaction: each once, and in their order if they differ.\<close>

lemma pg_notify_all:
  "set (foldl pg_notify q ps) = set q \<union> set ps"
  "distinct (q @ ps) \<Longrightarrow> foldl pg_notify q ps = q @ ps"
  by (induction ps arbitrary: q) (auto simp: pg_notify_def)

lemma foldl_notify_row:
  assumes "\<forall>r \<in> set rows. notify_record env table r = Some (rec r)"
  shows "foldl (notify_row env table) q rows =
    foldl pg_notify q (map (\<lambda>r. ne_text env (rec r)) (filter (\<lambda>r. ne_octets env (ne_text env (rec r)) < 8000) rows))"
  using assms by (induction rows arbitrary: q) (auto simp: notify_row_def Let_def)

lemma listen_Inr: "\<forall>p \<in> set ps. telegram_from_notify env p = Inr (f p) \<Longrightarrow> listen env ps = (map f ps, None)"
  by (induction ps) auto

text \<open>The rows whose payload the trigger sends.\<close>

definition payload_of :: "'p notify_env \<Rightarrow> lookup_row list \<Rightarrow> telegram_row \<Rightarrow> 'p" where
  "payload_of env table r = ne_text env (the (notify_record env table r))"

abbreviation fitting :: "'p notify_env \<Rightarrow> lookup_row list \<Rightarrow> telegram_row list \<Rightarrow> telegram_row list" where
  "fitting env table rows \<equiv> filter (\<lambda>r. ne_octets env (payload_of env table r) < 8000) rows"

lemma notify_heard:
  assumes wf: "wf_notify env" and rows: "\<forall>r \<in> set rows. row_ok table r \<and>
      (\<forall>f. r_value_numeric r = Some f \<longrightarrow> finite_float f)"
  shows "\<exists>heard. listen env (notify_insert env table rows) = (heard, None) \<and> list_all (\<lambda>t. is_aware (timestamp t)) heard \<and>
    set (map at_utc heard) = row_telegram table ` set (fitting env table rows) \<and>
    (distinct (map (payload_of env table) (fitting env table rows)) \<longrightarrow>
       map at_utc heard = map (row_telegram table) (fitting env table rows))"
proof -
  let ?p = "payload_of env table"
  let ?ps = "map ?p (fitting env table rows)"
  define f where "f p = (case telegram_from_notify env p of Inr t \<Rightarrow> t | Inl _ \<Rightarrow> undefined)" for p
  have ok: "notify_record env table r = Some (the (notify_record env table r)) \<and>
      telegram_from_notify env (?p r) = Inr (f (?p r)) \<and> is_aware (timestamp (f (?p r))) \<and>
      at_utc (f (?p r)) = row_telegram table r" if "r \<in> set rows" for r
    using record_parsed [OF wf, of table r] rows that by (auto simp: payload_of_def f_def)
  have q: "notify_insert env table rows = foldl pg_notify [] ?ps"
    unfolding notify_insert_def
    by (subst foldl_notify_row [where rec = "\<lambda>r. the (notify_record env table r)"]) (use ok in \<open>auto simp: payload_of_def [abs_def]\<close>)
  have set_q: "set (notify_insert env table rows) = set ?ps" by (simp add: q pg_notify_all(1))
  then have heard: "listen env (notify_insert env table rows) = (map f (notify_insert env table rows), None)"
    by (intro listen_Inr) (use ok in auto)
  have "set (map at_utc (map f (notify_insert env table rows))) = (\<lambda>r. at_utc (f (?p r))) ` set (fitting env table rows)"
    by (simp add: set_q image_image)
  also have "\<dots> = row_telegram table ` set (fitting env table rows)" by (rule image_cong) (use ok in auto)
  finally have all: "set (map at_utc (map f (notify_insert env table rows))) = row_telegram table ` set (fitting env table rows)" .
  have "map at_utc (map f (notify_insert env table rows)) = map (row_telegram table) (fitting env table rows)" if "distinct ?ps"
    using that ok by (simp add: q pg_notify_all(2))
  moreover have "list_all (\<lambda>t. is_aware (timestamp t)) (map f (notify_insert env table rows))"
    using ok set_q by (auto simp: list_all_iff)
  ultimately show ?thesis using heard all by blast
qed

text \<open>
  C21: A listener is told of what is stored: after a batch of telegrams in a PostgreSQL store the
  notifications of its insert parse into telegrams that are, in UTC, exactly the stored forms of
  those telegrams whose payload has less than 8000 bytes, in their order; only payloads that are
  equal arrive once. No payload makes the generator fail.
\<close>

theorem notify_tells_batch:
  assumes "wf_notify env" and "wf_engine eng" and "accepting eng" and "sql_inv s" and "\<not> sql_read_only s"
    and "\<forall>t \<in> set ts. storable t \<and> (\<forall>f. value_numeric t = Some f \<longrightarrow> finite_float f)"
  shows "\<exists>s' rows heard. sql_store_many eng s ts = (Inr (), s') \<and> telegrams (sql_db s') = telegrams (sql_db s) @ rows \<and>
    (let table = string_lookup (sql_db s'); sent = fitting env table rows in
      map (row_telegram table) rows = map stored_form ts \<and>
      listen env (notify_insert env table rows) = (heard, None) \<and>
      set (map at_utc heard) = row_telegram table ` set sent \<and>
      (distinct (map (payload_of env table) sent) \<longrightarrow> map at_utc heard = map (row_telegram table) sent))"
proof -
  obtain s' where s': "sql_store_many eng s ts = (Inr (), s')" "extends s ts s'"
    using sql_store_many_ok [OF assms(2-5), of ts] assms(6) by blast
  obtain rows where rows: "telegrams (sql_db s') = telegrams (sql_db s) @ rows"
    using sql_store_many_rows [OF s'(1)] by blast
  let ?table = "string_lookup (sql_db s')"
  have inv: "sql_inv s'" and "contents s' = contents s @ map stored_form ts" using s'(2) by (simp_all add: extends_def)
  moreover have "length (contents s) = length (telegrams (sql_db s))" by (simp add: contents_def)
  ultimately have tel: "map (row_telegram ?table) rows = map stored_form ts" by (simp add: contents_def rows)
  have "\<forall>r \<in> set rows. row_ok ?table r \<and> (\<forall>f. r_value_numeric r = Some f \<longrightarrow> finite_float f)"
  proof
    fix r
    assume r: "r \<in> set rows"
    then have "row_telegram ?table r \<in> set (map stored_form ts)" unfolding tel [symmetric] by simp
    then obtain t where "t \<in> set ts" "row_telegram ?table r = stored_form t" by auto
    then have "value_numeric (row_telegram ?table r) = value_numeric (stored_form t)" by simp
    then have "r_value_numeric r = value_numeric t" by (simp add: row_telegram_def stored_form_def)
    then show "row_ok ?table r \<and> (\<forall>f. r_value_numeric r = Some f \<longrightarrow> finite_float f)"
      using sql_invD(3) [OF inv, of r] rows r assms(6) \<open>t \<in> set ts\<close> by auto
  qed
  then obtain heard where "listen env (notify_insert env ?table rows) = (heard, None)"
    "set (map at_utc heard) = row_telegram ?table ` set (fitting env ?table rows)"
    "distinct (map (payload_of env ?table) (fitting env ?table rows)) \<longrightarrow>
      map at_utc heard = map (row_telegram ?table) (fitting env ?table rows)"
    using notify_heard [OF assms(1)] by blast
  with s'(1) rows tel show ?thesis unfolding Let_def by blast
qed

text \<open>A server whose payload is the record itself, and whose timestamps are decimal numbers.\<close>

definition sample_notify :: "json notify_env" where
  "sample_notify = \<lparr>ne_text = (\<lambda>j. j), ne_octets = (\<lambda>_. 300), ne_parse = Inr, ne_timestamp = str_int,
     ne_fromiso = (\<lambda>s. Inr (Datetime (if take 1 s = ''-'' then - decimal_value (tl s) else decimal_value s) (Some 0))),
     ne_number = JFloat, ne_float = (\<lambda>j. case j of JFloat f \<Rightarrow> Some f | _ \<Rightarrow> None)\<rparr>"

lemma sample_notify_ok: "wf_notify sample_notify"
proof -
  have "(if take 1 (str_int us) = ''-'' then - decimal_value (tl (str_int us)) else decimal_value (str_int us)) = us" for us
  proof (cases "us < 0")
    case False
    then have "list_all is_decimal (str_int us)" "str_int us \<noteq> []" "decimal_value (str_int us) = us"
      using str_int_ok [of us] by auto
    moreover have "\<not> is_decimal (CHR ''-'')" by (simp add: is_decimal_def)
    ultimately show ?thesis by (cases "str_int us") auto
  qed (simp add: str_int_def decimal_value_digits)
  then show ?thesis by (simp add: wf_notify_def sample_notify_def)
qed

theorem notify_tells_batch_witness:
  "\<exists>s' rows heard. sql_store_many reference_engine fresh_store [sample 1 ''1/2/3'', sample 2 ''1/2/3''] = (Inr (), s') \<and>
    telegrams (sql_db s') = telegrams (sql_db fresh_store) @ rows \<and>
    (let table = string_lookup (sql_db s'); sent = fitting sample_notify table rows in
      map (row_telegram table) rows = map stored_form [sample 1 ''1/2/3'', sample 2 ''1/2/3''] \<and>
      listen sample_notify (notify_insert sample_notify table rows) = (heard, None) \<and>
      set (map at_utc heard) = row_telegram table ` set sent \<and>
      (distinct (map (payload_of sample_notify table) sent) \<longrightarrow> map at_utc heard = map (row_telegram table) sent))"
  by (rule notify_tells_batch [OF sample_notify_ok wf_reference_engine accepting_reference_engine]) simp_all

end
