(* ===== verification/Calendar.thy ===== *)
theory Calendar
  imports Timestamps
begin

text \<open>
  The calendar of Python's \<open>datetime\<close>: dates as year, month and day, their ordinals, and the fields
  of a wall clock in microseconds. The ordinal of 0001-01-01 is 1, that of 1970-01-01 is 719163.
\<close>

section \<open>Dates\<close>

datatype civil = Civil (c_year: int) (c_month: int) (c_day: int)

instantiation civil :: linorder
begin

definition less_civil :: "civil \<Rightarrow> civil \<Rightarrow> bool" where
  "less_civil a b \<longleftrightarrow> c_year a < c_year b \<or> c_year a = c_year b \<and>
     (c_month a < c_month b \<or> c_month a = c_month b \<and> c_day a < c_day b)"

definition less_eq_civil :: "civil \<Rightarrow> civil \<Rightarrow> bool" where
  "less_eq_civil a b \<longleftrightarrow> a < b \<or> a = (b :: civil)"

instance
  by standard (auto simp: less_civil_def less_eq_civil_def intro: civil.expand)

end

definition is_leap :: "int \<Rightarrow> bool" where
  "is_leap y \<longleftrightarrow> y mod 4 = 0 \<and> (y mod 100 \<noteq> 0 \<or> y mod 400 = 0)"

definition days_before_year :: "int \<Rightarrow> int" where
  "days_before_year y = (let y = y - 1 in y * 365 + y div 4 - y div 100 + y div 400)"

definition DAYS_BEFORE_MONTH :: "int list" where
  "DAYS_BEFORE_MONTH = [0, 31, 59, 90, 120, 151, 181, 212, 243, 273, 304, 334, 365]"

definition days_before_month :: "bool \<Rightarrow> int \<Rightarrow> int" where
  "days_before_month leap m = DAYS_BEFORE_MONTH ! nat (m - 1) + (if 2 < m \<and> leap then 1 else 0)"

definition days_in_month :: "bool \<Rightarrow> int \<Rightarrow> int" where
  "days_in_month leap m = days_before_month leap (m + 1) - days_before_month leap m"

definition ymd2ord :: "civil \<Rightarrow> int" where
  "ymd2ord c = days_before_year (c_year c) + days_before_month (is_leap (c_year c)) (c_month c) + c_day c"

text \<open>The year and the day in it, from the cycles of 400, 100, 4 years and one year.\<close>

definition year_of_ord :: "int \<Rightarrow> int \<times> int" where
  "year_of_ord ord =
     (let n = ord - 1; n400 = n div 146097; n = n mod 146097;
          n100 = n div 36524; n = n mod 36524;
          n4 = n div 1461; n = n mod 1461;
          n1 = n div 365; n = n mod 365;
          y = n400 * 400 + n100 * 100 + n4 * 4 + n1
      in if n1 = 4 \<or> n100 = 4 then (y, 365) else (y + 1, n))"

text \<open>The month is estimated and corrected by one.\<close>

definition month_day :: "bool \<Rightarrow> int \<Rightarrow> int \<times> int" where
  "month_day leap n =
     (let m = (n + 50) div 32; m = (if n < days_before_month leap m then m - 1 else m)
      in (m, n - days_before_month leap m + 1))"

definition ord2ymd :: "int \<Rightarrow> civil" where
  "ord2ymd ord = (case year_of_ord ord of (y, n) \<Rightarrow> case month_day (is_leap y) n of (m, d) \<Rightarrow> Civil y m d)"

definition valid_civil :: "civil \<Rightarrow> bool" where
  "valid_civil c \<longleftrightarrow> 1 \<le> c_year c \<and> c_year c \<le> 9999 \<and> 1 \<le> c_month c \<and> c_month c \<le> 12 \<and>
     1 \<le> c_day c \<and> c_day c \<le> days_in_month (is_leap (c_year c)) (c_month c)"

section \<open>Dates and ordinals correspond\<close>

definition month_fits :: "bool \<Rightarrow> int \<Rightarrow> bool" where
  "month_fits leap n = (let md = month_day leap n in
     1 \<le> fst md \<and> fst md \<le> 12 \<and> 1 \<le> snd md \<and> snd md \<le> days_in_month leap (fst md))"

lemma month_fits_all: "list_all (month_fits True) [0..365]" "list_all (month_fits False) [0..364]"
  by code_simp+

lemma month_day_ok:
  assumes "0 \<le> n" and "n \<le> (if leap then 365 else 364)" and "month_day leap n = (m, d)"
  shows "1 \<le> m \<and> m \<le> 12 \<and> 1 \<le> d \<and> d \<le> days_in_month leap m \<and> days_before_month leap m + d = n + 1"
proof -
  have "month_fits leap n" using assms month_fits_all by (cases leap) (simp_all add: list_all_iff)
  then show ?thesis using assms(3) by (auto simp: month_fits_def month_day_def Let_def)
qed

text \<open>A year \<open>400 a + 100 b + 4 c + d + 1\<close> counts its days by cycles.\<close>

lemma days_before_cycles:
  assumes "0 \<le> b" and "b \<le> 3" and "0 \<le> c" and "c \<le> 24" and "0 \<le> d" and "d \<le> (3 :: int)"
  shows "days_before_year (400 * a + 100 * b + 4 * c + d + 1) = 146097 * a + 36524 * b + 1461 * c + 365 * d"
    and "is_leap (400 * a + 100 * b + 4 * c + d + 1) \<longleftrightarrow> d = 3 \<and> (c \<noteq> 24 \<or> b = 3)"
proof -
  let ?y = "400 * a + 100 * b + 4 * c + d"
  have div: "?y div 4 = 100 * a + 25 * b + c" "?y div 100 = 4 * a + b" "?y div 400 = a"
    by (rule int_div_pos_eq [where r = d] int_div_pos_eq [where r = "4 * c + d"]
        int_div_pos_eq [where r = "100 * b + 4 * c + d"]; use assms in simp)+
  then show "days_before_year (?y + 1) = 146097 * a + 36524 * b + 1461 * c + 365 * d"
    by (simp add: days_before_year_def Let_def)
  have "?y + 1 = d + 1 + 4 * (100 * a + 25 * b + c)" "?y + 1 = 4 * c + d + 1 + 100 * (4 * a + b)"
    "?y + 1 = 100 * b + 4 * c + d + 1 + 400 * a" by simp_all
  then have mod: "(?y + 1) mod 4 = (d + 1) mod 4" "(?y + 1) mod 100 = (4 * c + d + 1) mod 100"
    "(?y + 1) mod 400 = (100 * b + 4 * c + d + 1) mod 400"
    by (metis mod_mult_self2)+
  show "is_leap (?y + 1) \<longleftrightarrow> d = 3 \<and> (c \<noteq> 24 \<or> b = 3)"
  proof (cases "d = 3")
    case True
    then have "(?y + 1) mod 4 = 0" unfolding mod by simp
    moreover have "(?y + 1) mod 100 = 0 \<longleftrightarrow> c = 24"
      unfolding mod using True assms by (cases "c = 24") (simp_all del: mod_eq_0_iff_dvd)
    moreover have "c = 24 \<Longrightarrow> (?y + 1) mod 400 = 0 \<longleftrightarrow> b = 3"
      unfolding mod using True assms by (cases "b = 3") simp_all
    ultimately show ?thesis using True unfolding is_leap_def by metis
  next
    case False
    then have "(d + 1) mod 4 = d + 1" using assms by simp
    with False show ?thesis using assms unfolding is_leap_def mod by simp
  qed
qed

lemma year_of_ord_ok:
  assumes "year_of_ord ord = (y, n)"
  shows "days_before_year y + n + 1 = ord" and "0 \<le> n" and "n \<le> (if is_leap y then 365 else 364)"
proof -
  define a n1 where "a = (ord - 1) div 146097" and "n1 = (ord - 1) mod 146097"
  define b n2 where "b = n1 div 36524" and "n2 = n1 mod 36524"
  define c n3 where "c = n2 div 1461" and "n3 = n2 mod 1461"
  define d r where "d = n3 div 365" and "r = n3 mod 365"
  note defs = a_def n1_def b_def n2_def c_def n3_def d_def r_def
  have e: "ord - 1 = 146097 * a + n1" "n1 = 36524 * b + n2" "n2 = 1461 * c + n3" "n3 = 365 * d + r"
    by (simp_all add: defs)
  have bounds: "0 \<le> n1" "n1 < 146097" "0 \<le> n2" "n2 < 36524" "0 \<le> n3" "n3 < 1461" "0 \<le> r" "r < 365"
    by (simp_all add: defs)
  have res: "(if d = 4 \<or> b = 4 then (400 * a + 100 * b + 4 * c + d, 365)
      else (400 * a + 100 * b + 4 * c + d + 1, r)) = (y, n)"
    using assms unfolding year_of_ord_def Let_def defs [symmetric] by (simp add: mult.commute split: if_splits)
  have nn: "0 \<le> b" "b \<le> 4" "0 \<le> c" "c \<le> 24" "0 \<le> d" "d \<le> 4" using e bounds by linarith+
  consider "b = 4" | "b \<le> 3" "d = 4" | "b \<le> 3" "d \<le> 3" using nn by linarith
  then have "days_before_year y + n + 1 = ord \<and> 0 \<le> n \<and> n \<le> (if is_leap y then 365 else 364)"
  proof cases
    case 1
    with e bounds nn have "n1 = 146096" "c = 0" "d = 0" by linarith+
    with res 1 have "y = 400 * a + 100 * 3 + 4 * 24 + 3 + 1" "n = 365" by simp_all
    with days_before_cycles [of 3 24 3 a] e(1) \<open>n1 = 146096\<close> show ?thesis by simp
  next
    case 2
    with e bounds nn have "n3 = 1460" "c \<le> 23" by linarith+
    from res 2 have "y = 400 * a + 100 * b + 4 * c + 3 + 1" "n = 365" by simp_all
    with days_before_cycles [of b c 3 a] e \<open>n3 = 1460\<close> \<open>c \<le> 23\<close> nn 2 show ?thesis by simp
  next
    case 3
    from res 3 have "y = 400 * a + 100 * b + 4 * c + d + 1" "n = r" by (simp_all split: if_splits)
    with days_before_cycles [of b c d a] e bounds nn 3 show ?thesis by simp
  qed
  then show "days_before_year y + n + 1 = ord" "0 \<le> n" "n \<le> (if is_leap y then 365 else 364)" by simp_all
qed

lemma ymd2ord_of_ord: "ymd2ord (ord2ymd ord) = ord"
  using year_of_ord_ok [of ord] month_day_ok
  by (fastforce simp: ord2ymd_def ymd2ord_def split: prod.splits)

text \<open>The order of dates is the order of their ordinals, so a date is determined by its ordinal.\<close>

lemma days_before_month_next: "1 \<le> m \<Longrightarrow> m < k \<Longrightarrow> k \<le> 12 \<Longrightarrow>
  days_before_month leap m + days_in_month leap m \<le> days_before_month leap k"
proof -
  have "list_all (\<lambda>m. list_all (\<lambda>k. m < k \<longrightarrow> days_before_month True (m + 1) \<le> days_before_month True k) [1..12]) [1..12]"
    and "list_all (\<lambda>m. list_all (\<lambda>k. m < k \<longrightarrow> days_before_month False (m + 1) \<le> days_before_month False k) [1..12]) [1..12]"
    by code_simp+
  then show "1 \<le> m \<Longrightarrow> m < k \<Longrightarrow> k \<le> 12 \<Longrightarrow> ?thesis"
    by (cases leap) (auto simp: list_all_iff days_in_month_def)
qed

lemma month_end: "1 \<le> m \<Longrightarrow> m \<le> 12 \<Longrightarrow>
  0 \<le> days_before_month leap m \<and> days_before_month leap m + days_in_month leap m \<le> (if leap then 366 else 365)"
proof -
  have "list_all (\<lambda>m. 0 \<le> days_before_month True m \<and> days_before_month True (m + 1) \<le> 366) [1..12]"
    and "list_all (\<lambda>m. 0 \<le> days_before_month False m \<and> days_before_month False (m + 1) \<le> 365) [1..12]"
    by code_simp+
  then show "1 \<le> m \<Longrightarrow> m \<le> 12 \<Longrightarrow> ?thesis"
    by (cases leap) (auto simp: list_all_iff days_in_month_def)
qed

lemma days_in_month_31: "1 \<le> m \<Longrightarrow> m \<le> 12 \<Longrightarrow> days_in_month leap m \<le> 31"
proof -
  have "list_all (\<lambda>m. days_in_month True m \<le> 31) [1..12]" and "list_all (\<lambda>m. days_in_month False m \<le> 31) [1..12]"
    by code_simp+
  then show "1 \<le> m \<Longrightarrow> m \<le> 12 \<Longrightarrow> ?thesis" by (cases leap) (auto simp: list_all_iff)
qed

lemma div_step:
  assumes "0 < (k :: int)"
  shows "y div k = (y - 1) div k + (if y mod k = 0 then 1 else 0)"
proof (cases "y mod k = 0")
  case True
  then have "y - 1 = k * (y div k - 1) + (k - 1)" by (metis (no_types) add.right_neutral add_diff_eq diff_add_cancel
        mult.right_neutral mult_div_mod_eq right_diff_distrib)
  with assms True show ?thesis using int_div_pos_eq [of "y - 1" k "y div k - 1" "k - 1"] by simp
next
  case False
  have "y - 1 = k * (y div k) + (y mod k - 1)" by simp
  moreover have "0 \<le> y mod k - 1" "y mod k - 1 < k"
    using False assms pos_mod_bound [of k y] pos_mod_sign [of k y] by linarith+
  ultimately show ?thesis using False int_div_pos_eq [of "y - 1" k "y div k" "y mod k - 1"] by simp
qed

lemma days_before_year_step: "days_before_year (y + 1) = days_before_year y + (if is_leap y then 366 else 365)"
proof -
  have dvd: "y mod 400 = 0 \<Longrightarrow> y mod 100 = 0" "y mod 100 = 0 \<Longrightarrow> y mod 4 = 0"
    by (auto simp: mod_eq_0_iff_dvd elim: dvd_trans [rotated])
  have sum: "y * 365 + y4 - y100 + y400 = (y - 1) * 365 + x4 - x100 + x400 + (if P4 \<and> (\<not> P100 \<or> P400) then 366 else 365)"
    if "y4 = x4 + (if P4 then 1 else 0)" "y100 = x100 + (if P100 then 1 else 0)"
      "y400 = x400 + (if P400 then 1 else 0)" "P400 \<Longrightarrow> P100" "P100 \<Longrightarrow> P4"
    for y4 y100 y400 x4 x100 x400 :: int and P4 P100 P400
    using that by auto
  show ?thesis
    unfolding days_before_year_def is_leap_def Let_def add_diff_cancel_right'
    by (rule sum [OF div_step div_step div_step dvd]) simp_all
qed

lemma days_before_year_mono: "x \<le> y \<Longrightarrow> days_before_year x \<le> days_before_year y"
proof (induction y rule: int_ge_induct)
  case (step y)
  then show ?case by (simp add: days_before_year_step split: if_splits)
qed simp

lemma ymd2ord_mono:
  assumes "valid_civil a" and "valid_civil b" and "a < b"
  shows "ymd2ord a < ymd2ord b"
proof (cases "c_year a = c_year b")
  case True
  with assms show ?thesis
    using days_before_month_next [of "c_month a" "c_month b" "is_leap (c_year a)"]
    by (auto simp: less_civil_def valid_civil_def ymd2ord_def)
next
  case False
  with assms have "c_year a + 1 \<le> c_year b" by (auto simp: less_civil_def)
  from days_before_year_mono [OF this] have "days_before_year (c_year a) + (if is_leap (c_year a) then 366 else 365)
      \<le> days_before_year (c_year b)" by (simp add: days_before_year_step)
  moreover have "days_before_month (is_leap (c_year a)) (c_month a) + c_day a \<le> (if is_leap (c_year a) then 366 else 365)"
    "0 < days_before_month (is_leap (c_year b)) (c_month b) + c_day b"
    using assms(1,2) month_end [of "c_month a" "is_leap (c_year a)"] month_end [of "c_month b" "is_leap (c_year b)"]
    unfolding valid_civil_def by linarith+
  ultimately show ?thesis unfolding ymd2ord_def by linarith
qed

lemma ymd2ord_inject: "valid_civil a \<Longrightarrow> valid_civil b \<Longrightarrow> ymd2ord a = ymd2ord b \<longleftrightarrow> a = b"
  using ymd2ord_mono [of a b] ymd2ord_mono [of b a] by (cases a b rule: linorder_cases) auto

definition MAX_ORDINAL :: int where "MAX_ORDINAL = 3652059"

lemma ord2ymd_valid:
  assumes "1 \<le> ord" and "ord \<le> MAX_ORDINAL"
  shows "valid_civil (ord2ymd ord)"
proof -
  obtain y n where y: "year_of_ord ord = (y, n)" by fastforce
  obtain m d where m: "month_day (is_leap y) n = (m, d)" by fastforce
  note ok = year_of_ord_ok [OF y]
  have "1 \<le> y"
  proof (rule ccontr)
    assume "\<not> 1 \<le> y"
    with days_before_year_mono [of "y + 1" 1] have "days_before_year (y + 1) \<le> 0"
      by (simp add: days_before_year_def)
    with ok assms(1) show False by (auto simp: days_before_year_step split: if_splits)
  qed
  moreover have "y \<le> 9999"
  proof (rule ccontr)
    assume "\<not> y \<le> 9999"
    with days_before_year_mono [of 10000 y] ok assms(2) show False by (simp add: days_before_year_def MAX_ORDINAL_def)
  qed
  ultimately show ?thesis using month_day_ok [OF ok(2,3) m] y m by (simp add: ord2ymd_def valid_civil_def)
qed

lemma ord2ymd_of_ymd:
  assumes "valid_civil c"
  shows "ord2ymd (ymd2ord c) = c"
proof -
  have c: "1 \<le> c_year c" "c_year c + 1 \<le> 10000" "1 \<le> c_day c"
    "0 \<le> days_before_month (is_leap (c_year c)) (c_month c)"
    "days_before_month (is_leap (c_year c)) (c_month c) + c_day c \<le> (if is_leap (c_year c) then 366 else 365)"
    using assms month_end [of "c_month c" "is_leap (c_year c)"] unfolding valid_civil_def by linarith+
  have "0 \<le> days_before_year (c_year c)" "days_before_year (c_year c + 1) \<le> 3652059"
    using days_before_year_mono [OF c(1)] days_before_year_mono [OF c(2)] by (simp_all add: days_before_year_def)
  with c have "1 \<le> ymd2ord c" "ymd2ord c \<le> MAX_ORDINAL"
    unfolding ymd2ord_def MAX_ORDINAL_def days_before_year_step by linarith+
  with assms show ?thesis using ymd2ord_inject [OF ord2ymd_valid assms] ymd2ord_of_ord by blast
qed

end
