(* ===== verification/IsoText.thy ===== *)
theory IsoText
  imports Calendar PyStrings
begin

text \<open>
  Python's texts of datetimes: \<open>strftime\<close> with the formats the library uses, \<open>fromisoformat\<close>, and the
  fact that the one reads what the other writes.
\<close>

section \<open>Fields and texts\<close>

text \<open>
  \<open>de_year\<close> is the platform's \<open>%Y\<close>, which need not pad years before 1000; \<open>de_local\<close> the UTC time of
  a wall clock of the local zone, for naive datetimes; \<open>de_iso\<close> is \<open>datetime.fromisoformat\<close> on the
  texts that do not have the shape \<open>YYYY-MM-DD?HH:MM:SS[.ffffff][+HH:MM]\<close>.
\<close>

record datetime_env =
  de_year :: "int \<Rightarrow> string"
  de_local :: "int \<Rightarrow> exc + int"
  de_iso :: "string \<Rightarrow> exc + datetime"

definition zero_pad :: "nat \<Rightarrow> int \<Rightarrow> string" where
  "zero_pad k i = (let digits = decimal_digits (nat i) in replicate (k - length digits) (CHR ''0'') @ digits)"

text \<open>The fields of a wall clock: date, hour, minute, second, microsecond.\<close>

definition epoch_ordinal :: int where "epoch_ordinal = 719163"

definition date_of_wall :: "int \<Rightarrow> civil" where
  "date_of_wall w = ord2ymd (w div micros_per_day + epoch_ordinal)"

definition time_of_wall :: "int \<Rightarrow> int \<times> int \<times> int \<times> int" where
  "time_of_wall w = (let us = w mod micros_per_day; s = us div 1000000 in
     (s div 3600, s div 60 mod 60, s mod 60, us mod 1000000))"

definition make_wall :: "civil \<Rightarrow> int \<times> int \<times> int \<times> int \<Rightarrow> int" where
  "make_wall c t = (case t of (h, mi, s, us) \<Rightarrow>
     (ymd2ord c - epoch_ordinal) * micros_per_day + (h * 3600 + mi * 60 + s) * 1000000 + us)"

text \<open>\<open>datetime(...)\<close> checks its fields.\<close>

definition make_datetime :: "civil \<Rightarrow> int \<times> int \<times> int \<times> int \<Rightarrow> int option \<Rightarrow> exc + datetime" where
  "make_datetime c t off = (case t of (h, mi, s, us) \<Rightarrow>
     if valid_civil c \<and> 0 \<le> h \<and> h \<le> 23 \<and> 0 \<le> mi \<and> mi \<le> 59 \<and> 0 \<le> s \<and> s \<le> 59 \<and> 0 \<le> us \<and> us \<le> 999999
     then Inr (Datetime (make_wall c t) off) else Inl (raise_exc ValueError))"

definition take_num :: "nat \<Rightarrow> string \<Rightarrow> (int \<times> string) option" where
  "take_num k s =
     (if k \<le> length s \<and> list_all is_decimal (take k s) then Some (decimal_value (take k s), drop k s) else None)"

definition take_char :: "char \<Rightarrow> string \<Rightarrow> string option" where
  "take_char c s = (if s \<noteq> [] \<and> hd s = c then Some (tl s) else None)"

definition iso_date :: "string \<Rightarrow> (civil \<times> string) option" where
  "iso_date s =
     Option.bind (take_num 4 s) (\<lambda>(y, s). Option.bind (take_char (CHR ''-'') s) (\<lambda>s.
     Option.bind (take_num 2 s) (\<lambda>(m, s). Option.bind (take_char (CHR ''-'') s) (\<lambda>s.
     Option.bind (take_num 2 s) (\<lambda>(d, s). Some (Civil y m d, s))))))"

definition iso_clock :: "string \<Rightarrow> (int \<times> int \<times> int \<times> string) option" where
  "iso_clock s =
     Option.bind (take_num 2 s) (\<lambda>(h, s). Option.bind (take_char (CHR '':'') s) (\<lambda>s.
     Option.bind (take_num 2 s) (\<lambda>(mi, s). Option.bind (take_char (CHR '':'') s) (\<lambda>s.
     Option.bind (take_num 2 s) (\<lambda>(sec, s). if h = 24 then None else Some (h, mi, sec, s))))))"

definition iso_fraction :: "string \<Rightarrow> (int \<times> string) option" where
  "iso_fraction s = (case take_char (CHR ''.'') s of None \<Rightarrow> Some (0, s) | Some s \<Rightarrow> take_num 6 s)"

definition iso_offset :: "string \<Rightarrow> int option option" where
  "iso_offset s =
     (if s = [] then Some None
      else if hd s \<noteq> CHR ''+'' \<and> hd s \<noteq> CHR ''-'' then None
      else Option.bind (take_num 2 (tl s)) (\<lambda>(h, u). Option.bind (take_char (CHR '':'') u) (\<lambda>u.
        Option.bind (take_num 2 u) (\<lambda>(mi, u).
          if u \<noteq> [] \<or> 23 < h \<or> 59 < mi then None
          else Some (Some ((if hd s = CHR ''-'' then -1 else 1) * (h * 3600 + mi * 60) * 1000000))))))"

definition iso_fields :: "string \<Rightarrow> (civil \<times> (int \<times> int \<times> int \<times> int) \<times> int option) option" where
  "iso_fields s =
     Option.bind (iso_date s) (\<lambda>(c, s).
     if s = [] then None else
     Option.bind (iso_clock (tl s)) (\<lambda>(h, mi, sec, s).
     Option.bind (iso_fraction s) (\<lambda>(us, s).
     Option.bind (iso_offset s) (\<lambda>off. Some (c, (h, mi, sec, us), off)))))"

definition fromisoformat :: "datetime_env \<Rightarrow> string \<Rightarrow> exc + datetime" where
  "fromisoformat env s = (case iso_fields s of
     None \<Rightarrow> de_iso env s
   | Some (c, t, off) \<Rightarrow> make_datetime c t off)"

text \<open>The text of a wall clock in the formats of the library; \<open>year\<close> is what \<open>%Y\<close> gives.\<close>

definition wall_text :: "(int \<Rightarrow> string) \<Rightarrow> char \<Rightarrow> int \<Rightarrow> string" where
  "wall_text year sep w = (case date_of_wall w of Civil y m d \<Rightarrow> case time_of_wall w of (h, mi, s, us) \<Rightarrow>
     year y @ ''-'' @ zero_pad 2 m @ ''-'' @ zero_pad 2 d @ [sep] @ zero_pad 2 h @ '':'' @ zero_pad 2 mi @ '':'' @
     zero_pad 2 s @ ''.'' @ zero_pad 6 us)"

section \<open>Numbers of fixed width\<close>

lemma length_digits: "n < 10 ^ Suc k \<Longrightarrow> length (decimal_digits n) \<le> Suc k"
proof (induction k arbitrary: n)
  case 0
  then show ?case by (subst decimal_digits.simps) simp
next
  case (Suc k)
  then have "n div 10 < 10 ^ Suc k" by simp
  from Suc.IH [OF this] show ?case by (subst decimal_digits.simps) simp
qed

lemma zero_pad_ok:
  assumes "0 \<le> i" and "i < 10 ^ Suc k"
  shows "length (zero_pad (Suc k) i) = Suc k" and "list_all is_decimal (zero_pad (Suc k) i)"
    and "decimal_value (zero_pad (Suc k) i) = i"
proof -
  have "int (nat i) < int (10 ^ Suc k)" using assms by simp
  then have "nat i < 10 ^ Suc k" by (simp only: of_nat_less_iff)
  from length_digits [OF this] show "length (zero_pad (Suc k) i) = Suc k" by (simp add: zero_pad_def Let_def)
  have "list_all is_decimal (replicate n (CHR ''0''))" for n by (induction n) (simp_all add: is_decimal_def)
  then show "list_all is_decimal (zero_pad (Suc k) i)" using decimal_digits_ok by (simp add: zero_pad_def Let_def)
  show "decimal_value (zero_pad (Suc k) i) = i"
    using assms(1) by (simp add: zero_pad_def Let_def decimal_value_zeros decimal_value_digits)
qed

lemma take_num_pad: "0 \<le> i \<Longrightarrow> i < 10 ^ Suc k \<Longrightarrow> take_num (Suc k) (zero_pad (Suc k) i @ s) = Some (i, s)"
  using zero_pad_ok [of i k] by (simp add: take_num_def)

lemma take_2: "0 \<le> i \<Longrightarrow> i < 100 \<Longrightarrow> take_num 2 (zero_pad 2 i @ s) = Some (i, s)"
  using take_num_pad [of i 1 s] by (simp add: numeral_2_eq_2)

lemma take_4: "0 \<le> i \<Longrightarrow> i < 10000 \<Longrightarrow> take_num 4 (zero_pad 4 i @ s) = Some (i, s)"
  using take_num_pad [of i 3 s] by (simp add: eval_nat_numeral)

lemma take_6: "0 \<le> i \<Longrightarrow> i < 1000000 \<Longrightarrow> take_num 6 (zero_pad 6 i @ s) = Some (i, s)"
  using take_num_pad [of i 5 s] by (simp add: eval_nat_numeral)

lemma pad_digits: "0 \<le> i \<Longrightarrow> i < 10 ^ k \<Longrightarrow> 0 < k \<Longrightarrow> list_all is_decimal (zero_pad k i) \<and> length (zero_pad k i) = k"
  using zero_pad_ok [of i "k - 1"] by simp

section \<open>Fields of a wall clock\<close>

lemma wall_fields:
  assumes "in_range w"
  shows "valid_civil (date_of_wall w)" and "make_wall (date_of_wall w) (time_of_wall w) = w"
    and "\<exists>h mi s us. time_of_wall w = (h, mi, s, us) \<and> 0 \<le> h \<and> h \<le> 23 \<and> 0 \<le> mi \<and> mi \<le> 59 \<and>
      0 \<le> s \<and> s \<le> 59 \<and> 0 \<le> us \<and> us \<le> 999999"
proof -
  have "-719162 \<le> w div micros_per_day" "w div micros_per_day \<le> 2932896"
    using assms unfolding in_range_def min_wall_def max_wall_def micros_per_day_def by linarith+
  then show "valid_civil (date_of_wall w)"
    using ord2ymd_valid by (simp add: date_of_wall_def epoch_ordinal_def MAX_ORDINAL_def)
  define us where "us = w mod micros_per_day"
  define s where "s = us div 1000000"
  have us: "0 \<le> us" "us < 86400000000" by (simp_all add: us_def micros_per_day_def)
  then have s: "0 \<le> s" "s < 86400" by (simp_all add: s_def)
  have t: "time_of_wall w = (s div 3600, s div 60 mod 60, s mod 60, us mod 1000000)"
    by (simp add: time_of_wall_def Let_def us_def s_def)
  have "s div 3600 = s div 60 div 60" by (simp add: zdiv_zmult2_eq [symmetric])
  moreover have "a * 60 + b = p \<Longrightarrow> p * 60 + c = s \<Longrightarrow> a * 3600 + b * 60 + c = s" for a b c p :: int by simp
  ultimately have "s div 3600 * 3600 + s div 60 mod 60 * 60 + s mod 60 = s"
    using div_mult_mod_eq [of "s div 60" 60] div_mult_mod_eq [of s 60] by metis
  moreover have "w = w div micros_per_day * micros_per_day + us" by (simp add: us_def)
  moreover have "us = s * 1000000 + us mod 1000000" by (simp add: s_def)
  ultimately show "make_wall (date_of_wall w) (time_of_wall w) = w"
    by (simp add: t make_wall_def date_of_wall_def ymd2ord_of_ord)
  have "s div 3600 \<le> 23" using s by linarith
  moreover have "x mod 60 \<le> 59" "x mod 1000000 \<le> 999999" for x :: int
    using pos_mod_bound [of 60 x] pos_mod_bound [of 1000000 x] by linarith+
  ultimately show "\<exists>h mi s us. time_of_wall w = (h, mi, s, us) \<and> 0 \<le> h \<and> h \<le> 23 \<and> 0 \<le> mi \<and> mi \<le> 59 \<and>
      0 \<le> s \<and> s \<le> 59 \<and> 0 \<le> us \<and> us \<le> 999999"
    using s(1) by (simp add: t pos_imp_zdiv_nonneg_iff)
qed

section \<open>Texts are read back\<close>

text \<open>%Y pads the years from 1000 on to four digits.\<close>

definition wf_years :: "datetime_env \<Rightarrow> bool" where
  "wf_years env \<longleftrightarrow> (\<forall>y. 1000 \<le> y \<and> y \<le> 9999 \<longrightarrow> de_year env y = zero_pad 4 y)"

definition year_1000 :: int where "year_1000 = -30610224000000000"

lemma date_after_1000:
  assumes "in_range w" and "year_1000 \<le> w"
  shows "1000 \<le> c_year (date_of_wall w)"
proof (rule ccontr)
  assume "\<not> 1000 \<le> c_year (date_of_wall w)"
  then have "date_of_wall w < Civil 1000 1 1" by (simp add: less_civil_def)
  moreover have "valid_civil (Civil 1000 1 1)" by code_simp
  ultimately have "ymd2ord (date_of_wall w) < ymd2ord (Civil 1000 1 1)" using wall_fields(1) [OF assms(1)] ymd2ord_mono by blast
  moreover have "ymd2ord (Civil 1000 1 1) = 364878" by code_simp
  ultimately have "w div micros_per_day < -354285" by (simp add: date_of_wall_def ymd2ord_of_ord epoch_ordinal_def)
  then show False using assms(2) unfolding year_1000_def micros_per_day_def by linarith
qed

lemma wall_text_years:
  assumes "wf_years env" and "in_range w" and "year_1000 \<le> w"
  shows "wall_text (de_year env) sep w = wall_text (zero_pad 4) sep w"
proof -
  obtain y m d where c: "date_of_wall w = Civil y m d" by (cases "date_of_wall w")
  moreover have "1000 \<le> y" "y \<le> 9999"
    using date_after_1000 [OF assms(2,3)] wall_fields(1) [OF assms(2)] by (simp_all add: c valid_civil_def)
  ultimately show ?thesis using assms(1) by (simp add: wall_text_def wf_years_def)
qed

lemma wall_field_bounds:
  assumes "in_range w"
  obtains y m d h mi s us where "date_of_wall w = Civil y m d" and "time_of_wall w = (h, mi, s, us)"
    and "0 \<le> y \<and> y < 10000 \<and> 0 \<le> m \<and> m < 100 \<and> 0 \<le> d \<and> d < 100 \<and> 0 \<le> h \<and> h \<le> 23 \<and> 0 \<le> mi \<and> mi < 60 \<and>
      0 \<le> s \<and> s < 60 \<and> 0 \<le> us \<and> us < 1000000"
proof -
  obtain y m d where c: "date_of_wall w = Civil y m d" by (cases "date_of_wall w")
  obtain h mi s us where t: "time_of_wall w = (h, mi, s, us)" "0 \<le> h" "h \<le> 23" "0 \<le> mi" "mi \<le> 59" "0 \<le> s" "s \<le> 59"
    "0 \<le> us" "us \<le> 999999" using wall_fields(3) [OF assms] by blast
  have "valid_civil (Civil y m d)" using wall_fields(1) [OF assms] c by simp
  moreover from this have "days_in_month (is_leap y) m \<le> 31" using days_in_month_31 by (simp add: valid_civil_def)
  ultimately show ?thesis using c t by (intro that) (auto simp: valid_civil_def)
qed

lemma take_chars: "take_char (CHR ''-'') (''-'' @ s) = Some s" "take_char (CHR '':'') ('':'' @ s) = Some s"
  "take_char (CHR ''.'') (''.'' @ s) = Some s"
  by (simp_all add: take_char_def)

lemma iso_fields_text:
  assumes "in_range w" and "iso_offset off = Some ofs"
  shows "iso_fields (wall_text (zero_pad 4) sep w @ off) = Some (date_of_wall w, time_of_wall w, ofs)"
proof -
  obtain y m d h mi s us where f: "date_of_wall w = Civil y m d" "time_of_wall w = (h, mi, s, us)"
    and r: "0 \<le> y \<and> y < 10000 \<and> 0 \<le> m \<and> m < 100 \<and> 0 \<le> d \<and> d < 100 \<and> 0 \<le> h \<and> h \<le> 23 \<and> 0 \<le> mi \<and> mi < 60 \<and>
      0 \<le> s \<and> s < 60 \<and> 0 \<le> us \<and> us < 1000000"
    using wall_field_bounds [OF assms(1)] by blast
  define clock where "clock = zero_pad 2 h @ '':'' @ zero_pad 2 mi @ '':'' @ zero_pad 2 s @ ''.'' @ zero_pad 6 us @ off"
  have "iso_date (zero_pad 4 y @ ''-'' @ zero_pad 2 m @ ''-'' @ zero_pad 2 d @ [sep] @ clock) = Some (Civil y m d, [sep] @ clock)"
    unfolding iso_date_def using r by (simp only: take_2 take_4 take_chars Option.bind.simps prod.case)
  moreover have "iso_clock clock = Some (h, mi, s, ''.'' @ zero_pad 6 us @ off)"
    unfolding iso_clock_def clock_def using r by (simp del: append_Cons append.simps add: take_2 take_chars)
  moreover have "iso_fraction (''.'' @ zero_pad 6 us @ off) = Some (us, off)"
    unfolding iso_fraction_def using r by (simp only: take_6 take_chars option.case)
  moreover have "wall_text (zero_pad 4) sep w @ off = zero_pad 4 y @ ''-'' @ zero_pad 2 m @ ''-'' @ zero_pad 2 d @ [sep] @ clock"
    by (simp add: wall_text_def f clock_def)
  ultimately show ?thesis using assms(2) by (simp add: iso_fields_def f)
qed

lemma fromisoformat_text:
  assumes "in_range w" and "iso_offset off = Some ofs"
  shows "fromisoformat env (wall_text (zero_pad 4) sep w @ off) = Inr (Datetime w ofs)"
proof -
  obtain h mi s us where f: "time_of_wall w = (h, mi, s, us)" "0 \<le> h" "h \<le> 23" "0 \<le> mi" "mi \<le> 59" "0 \<le> s" "s \<le> 59"
    "0 \<le> us" "us \<le> 999999" using wall_fields(3) [OF assms(1)] by blast
  then show ?thesis
    using iso_fields_text [OF assms] wall_fields(1,2) [OF assms(1)] by (simp add: fromisoformat_def make_datetime_def)
qed

end
