(* ===== verification/EtsXml.thy ===== *)
theory EtsXml
  imports IsoText "HOL-Library.Word"
begin

text \<open>
  The container format of ETS communication logs (src/knx_telegram_store/formats/ets_xml.py): reading
  and writing of timestamps, attributes and frames. The XML parser is the argument \<open>iterparse\<close>: the
  events it reports for a document and the exception that ends them, if any.
\<close>

section \<open>What the module uses of Python\<close>

text \<open>\<open>bytes.fromhex\<close> skips ASCII white space between bytes.\<close>

definition hex_value :: "char \<Rightarrow> int option" where
  "hex_value c =
     (if is_decimal c then Some (int (code c) - 48)
      else if 65 \<le> code c \<and> code c \<le> 70 then Some (int (code c) - 55)
      else if 97 \<le> code c \<and> code c \<le> 102 then Some (int (code c) - 87) else None)"

fun fromhex :: "string \<Rightarrow> exc + 8 word list" where
  "fromhex [] = Inr []"
| "fromhex [c] = (if 9 \<le> code c \<and> code c \<le> 13 \<or> code c = 32 then Inr [] else Inl (raise_exc ValueError))"
| "fromhex (c # d # s) =
     (if 9 \<le> code c \<and> code c \<le> 13 \<or> code c = 32 then fromhex (d # s)
      else (case (hex_value c, hex_value d) of
              (Some a, Some b) \<Rightarrow> bind_res (fromhex s) (\<lambda>bs. Inr (word_of_int (16 * a + b) # bs))
            | _ \<Rightarrow> Inl (raise_exc ValueError)))"

definition hex_upper :: "8 word \<Rightarrow> string" where
  "hex_upper b = [''0123456789ABCDEF'' ! (unat b div 16), ''0123456789ABCDEF'' ! (unat b mod 16)]"

text \<open>\<open>xml.sax.saxutils.quoteattr\<close>\<close>

definition escape_char :: "char \<Rightarrow> string" where
  "escape_char c =
     (if c = CHR ''&'' then ''&amp;'' else if c = CHR ''>'' then ''&gt;'' else if c = CHR ''<'' then ''&lt;''
      else if c = CHR 0x0A then ''&#10;'' else if c = CHR 0x0D then ''&#13;'' else if c = CHR 0x09 then ''&#9;'' else [c])"

definition quoteattr :: "string \<Rightarrow> string" where
  "quoteattr s =
     (let data = concat (map escape_char s) in
      if CHR 0x22 \<in> set data then
        if CHR 0x27 \<in> set data
        then CHR 0x22 # concat (map (\<lambda>c. if c = CHR 0x22 then ''&quot;'' else [c]) data) @ [CHR 0x22]
        else CHR 0x27 # data @ [CHR 0x27]
      else CHR 0x22 # data @ [CHR 0x22])"

section \<open>The module\<close>

definition KNX_TELEGRAM_NAMESPACE :: string where
  "KNX_TELEGRAM_NAMESPACE = ''http://knx.org/xml/telegrams/01''"

definition TELEGRAM_TAG :: string where
  "TELEGRAM_TAG = ''{'' @ KNX_TELEGRAM_NAMESPACE @ ''}Telegram''"

record raw_telegram_record =
  rt_timestamp :: datetime
  rt_service :: string
  rt_raw_data :: "8 word list"
  rt_frame_format :: string

text \<open>The fraction ends at the first plus sign, or else at the first minus sign.\<close>

definition split_offset :: "string \<Rightarrow> string \<times> string" where
  "split_offset rest =
     (let sep = (if CHR ''+'' \<in> set rest then CHR ''+'' else CHR ''-'') in
      (takeWhile (\<lambda>c. c \<noteq> sep) rest, dropWhile (\<lambda>c. c \<noteq> sep) rest))"

definition normalize_fraction :: "string \<Rightarrow> string" where
  "normalize_fraction ts = (case partition_dot ts of (base, dot, rest) \<Rightarrow>
     if dot then
       (case split_offset rest of (frac, off) \<Rightarrow>
          let frac = take 6 frac in base @ ''.'' @ frac @ replicate (6 - length frac) (CHR ''0'') @ off)
     else ts)"

definition parse_timestamp :: "datetime_env \<Rightarrow> string \<Rightarrow> exc + datetime" where
  "parse_timestamp env value =
     (let ts = strip value;
          ts = (if ts \<noteq> [] \<and> (last ts = CHR ''Z'' \<or> last ts = CHR ''z'') then butlast ts @ ''+00:00'' else ts)
      in bind_res (fromisoformat env (normalize_fraction ts)) (\<lambda>parsed.
           astimezone_utc (if utcoffset parsed = None then Datetime (wall parsed) (Some 0) else parsed)))"

text \<open>The regular expression of the comment with the offset, searched from the left.\<close>

definition strip_prefix :: "string \<Rightarrow> string \<Rightarrow> string option" where
  "strip_prefix p s = (if take (length p) s = p then Some (drop (length p) s) else None)"

definition some_spaces :: "string \<Rightarrow> string option" where
  "some_spaces s = (if s \<noteq> [] \<and> is_space (hd s) then Some (dropWhile is_space s) else None)"

definition timezone_match :: "string \<Rightarrow> int option" where
  "timezone_match s =
     Option.bind (strip_prefix ''timezone'' s) (\<lambda>s. Option.bind (some_spaces s) (\<lambda>s.
     Option.bind (strip_prefix ''offset'' s) (\<lambda>s. Option.bind (some_spaces s) (\<lambda>s.
     if s = [] \<or> hd s \<noteq> CHR ''+'' \<and> hd s \<noteq> CHR ''-'' then None
     else Option.bind (take_num 2 (tl s)) (\<lambda>(h, u). Option.bind (take_char (CHR '':'') u) (\<lambda>u.
       Option.bind (take_num 2 u) (\<lambda>(mi, u).
         Some ((if hd s = CHR ''+'' then 1 else -1) * (h * 3600 + mi * 60) * 1000000))))))))"

fun timezone_search :: "string \<Rightarrow> int option" where
  "timezone_search [] = None"
| "timezone_search (c # s) = (case timezone_match (c # s) of Some off \<Rightarrow> Some off | None \<Rightarrow> timezone_search s)"

text \<open>The reader, event by event, with the correction in force: what it yields and what ends it.\<close>

datatype xml_event = Comment string | End string "(string \<times> string) list"

definition read_telegram :: "datetime_env \<Rightarrow> int \<Rightarrow> (string \<times> string) list \<Rightarrow> exc + raw_telegram_record" where
  "read_telegram env utc_correction attrs = (case (map_of attrs ''Timestamp'', map_of attrs ''RawData'') of
     (Some ts, Some raw) \<Rightarrow>
       bind_res (parse_timestamp env ts) (\<lambda>t. bind_res (dt_plus t (- utc_correction)) (\<lambda>t.
       bind_res (fromhex raw) (\<lambda>bs.
         Inr \<lparr>rt_timestamp = t,
              rt_service = (case map_of attrs ''Service'' of Some s \<Rightarrow> s | None \<Rightarrow> ''L_Data.ind''),
              rt_raw_data = bs,
              rt_frame_format = (case map_of attrs ''FrameFormat'' of Some f \<Rightarrow> f | None \<Rightarrow> ''CommonEmi'')\<rparr>)))
   | _ \<Rightarrow> Inl (raise_exc ValueError))"

fun iter_events :: "datetime_env \<Rightarrow> int \<Rightarrow> xml_event list \<Rightarrow> raw_telegram_record list \<times> exc option" where
  "iter_events env utc_correction [] = ([], None)"
| "iter_events env utc_correction (Comment t # evs) =
     iter_events env (case timezone_search t of Some off \<Rightarrow> off | None \<Rightarrow> utc_correction) evs"
| "iter_events env utc_correction (End tag attrs # evs) =
     (if tag \<noteq> TELEGRAM_TAG then iter_events env utc_correction evs
      else (case read_telegram env utc_correction attrs of
              Inl e \<Rightarrow> ([], Some e)
            | Inr r \<Rightarrow> (case iter_events env utc_correction evs of (rs, e) \<Rightarrow> (r # rs, e))))"

definition iter_communication_log ::
  "datetime_env \<Rightarrow> ('s \<Rightarrow> xml_event list \<times> exc option) \<Rightarrow> 's \<Rightarrow> raw_telegram_record list \<times> exc option"
where
  "iter_communication_log env iterparse source = (case iterparse source of (evs, err) \<Rightarrow>
     case iter_events env 0 evs of (rs, e) \<Rightarrow> (rs, if e = None then err else e))"

text \<open>The writer.\<close>

definition format_timestamp :: "datetime_env \<Rightarrow> datetime \<Rightarrow> exc + string" where
  "format_timestamp env t =
     bind_res (case utcoffset t of
         None \<Rightarrow> bind_res (de_local env (wall t)) (\<lambda>w. Inr (Datetime w (Some 0)))
       | Some _ \<Rightarrow> astimezone_utc t) (\<lambda>t.
     Inr (wall_text (de_year env) (CHR ''T'') (wall t) @ ''Z''))"

definition COMMUNICATION_LOG_HEADER :: string where
  "COMMUNICATION_LOG_HEADER =
     ''<?xml version='' @ [CHR 0x22] @ ''1.0'' @ [CHR 0x22] @ '' encoding='' @ [CHR 0x22] @ ''utf-8'' @ [CHR 0x22] @ ''?>'' @
     [CHR 0x0A] @ ''<CommunicationLog xmlns='' @ [CHR 0x22] @ KNX_TELEGRAM_NAMESPACE @ [CHR 0x22] @ ''>'' @ [CHR 0x0A]"

definition COMMUNICATION_LOG_FOOTER :: string where
  "COMMUNICATION_LOG_FOOTER = ''</CommunicationLog>'' @ [CHR 0x0A]"

definition format_telegram_element :: "datetime_env \<Rightarrow> string \<Rightarrow> raw_telegram_record \<Rightarrow> exc + string" where
  "format_telegram_element env connection_name r =
     (let connection_attr = (if connection_name \<noteq> [] then '' ConnectionName='' @ quoteattr connection_name else []);
          service_attr = quoteattr (rt_service r);
          frame_format_attr = quoteattr (rt_frame_format r)
      in bind_res (format_timestamp env (rt_timestamp r)) (\<lambda>ts.
           Inr (''  <Telegram Timestamp='' @ [CHR 0x22] @ ts @ [CHR 0x22] @ connection_attr @
             '' Service='' @ service_attr @ '' FrameFormat='' @ frame_format_attr @
             '' RawData='' @ [CHR 0x22] @ concat (map hex_upper (rt_raw_data r)) @ [CHR 0x22] @ '' />'' @ [CHR 0x0A])))"

text \<open>What is written, until a record that cannot be: the text so far, and the count or the error.\<close>

fun write_records :: "datetime_env \<Rightarrow> string \<Rightarrow> raw_telegram_record list \<Rightarrow> string \<times> (exc + nat)" where
  "write_records env name [] = (COMMUNICATION_LOG_FOOTER, Inr 0)"
| "write_records env name (r # rs) = (case format_telegram_element env name r of
     Inl e \<Rightarrow> ([], Inl e)
   | Inr line \<Rightarrow> (case write_records env name rs of (out, n) \<Rightarrow> (line @ out, bind_res n (\<lambda>n. Inr (n + 1)))))"

definition write_communication_log ::
  "datetime_env \<Rightarrow> string \<Rightarrow> raw_telegram_record list \<Rightarrow> string \<times> (exc + nat)"
where
  "write_communication_log env name records =
     (case write_records env name records of (out, n) \<Rightarrow> (COMMUNICATION_LOG_HEADER @ out, n))"

end
