(* ===== verification/EtsLog.thy ===== *)
theory EtsLog
  imports EtsXml
begin

text \<open>
  Communication logs are read back as they were written. An XML parser is only assumed to follow the
  XML specification on small documents: a root element with a default namespace, holding comments and
  empty elements with attributes. \<open>xml_events\<close> is what the specification says of those.
\<close>

section \<open>Small XML documents\<close>

definition xml_space :: "char \<Rightarrow> bool" where
  "xml_space c \<longleftrightarrow> c \<in> {CHR 0x09, CHR 0x0A, CHR 0x0D, CHR '' ''}"

definition xml_char :: "char \<Rightarrow> bool" where
  "xml_char c \<longleftrightarrow> 32 \<le> code c \<or> code c \<in> {9, 10, 13}"

definition name_char :: "char \<Rightarrow> bool" where
  "name_char c \<longleftrightarrow> is_decimal c \<or> 65 \<le> code c \<and> code c \<le> 90 \<or> 97 \<le> code c \<and> code c \<le> 122"

definition REFERENCES :: "(string \<times> char) list" where
  "REFERENCES = [(''amp'', CHR ''&''), (''lt'', CHR ''<''), (''gt'', CHR ''>''), (''quot'', CHR 0x22),
     (''apos'', CHR 0x27), (''#9'', CHR 0x09), (''#10'', CHR 0x0A), (''#13'', CHR 0x0D)]"

text \<open>The value of an attribute; the second argument is the reference being read.\<close>

fun unescape :: "string \<Rightarrow> string option \<Rightarrow> string option" where
  "unescape [] None = Some []"
| "unescape [] (Some nm) = None"
| "unescape (c # cs) None =
     (if c = CHR ''&'' then unescape cs (Some [])
      else if c = CHR ''<'' then None
      else map_option ((#) (if xml_space c then CHR '' '' else c)) (unescape cs None))"
| "unescape (c # cs) (Some nm) =
     (if c = CHR '';''
      then Option.bind (map_of REFERENCES nm) (\<lambda>d. map_option ((#) d) (unescape cs None))
      else unescape cs (Some (nm @ [c])))"

definition split_at :: "char \<Rightarrow> string \<Rightarrow> (string \<times> string) option" where
  "split_at c s = (if c \<in> set s then Some (takeWhile (\<lambda>d. d \<noteq> c) s, tl (dropWhile (\<lambda>d. d \<noteq> c) s)) else None)"

text \<open>Attributes, each after white space; what is left starts with no name.\<close>

fun xml_attrs :: "nat \<Rightarrow> string \<Rightarrow> ((string \<times> string) list \<times> string) option" where
  "xml_attrs 0 s = None"
| "xml_attrs (Suc n) s =
     (let u = dropWhile xml_space s in
      if u = [] then None
      else if \<not> name_char (hd u) then Some ([], u)
      else if u = s then None
      else Option.bind (take_char (CHR ''='') (dropWhile name_char u)) (\<lambda>v.
        if v = [] \<or> hd v \<notin> {CHR 0x22, CHR 0x27} then None
        else Option.bind (split_at (hd v) (tl v)) (\<lambda>(val, rest).
          Option.bind (unescape val None) (\<lambda>a.
          Option.bind (xml_attrs n rest) (\<lambda>(as, r). Some ((takeWhile name_char u, a) # as, r))))))"

fun comment_end :: "string \<Rightarrow> (string \<times> string) option" where
  "comment_end [] = None"
| "comment_end (c # s) =
     (if take 2 (c # s) = ''--'' then map_option (\<lambda>r. ([], r)) (strip_prefix ''-->'' (c # s))
      else map_option (\<lambda>(t, r). (c # t, r)) (comment_end s))"

fun xml_content :: "nat \<Rightarrow> string \<Rightarrow> string \<Rightarrow> (xml_event list \<times> string) option" where
  "xml_content 0 ns s = None"
| "xml_content (Suc n) ns s =
     (let u = dropWhile xml_space s in
      if strip_prefix ''</'' u \<noteq> None then Some ([], u)
      else case strip_prefix ''<!--'' u of
        Some v \<Rightarrow> Option.bind (comment_end v) (\<lambda>(t, r).
          Option.bind (xml_content n ns r) (\<lambda>(evs, r). Some (Comment t # evs, r)))
      | None \<Rightarrow> Option.bind (take_char (CHR ''<'') u) (\<lambda>u.
          Option.bind (xml_attrs (length u) (dropWhile name_char u)) (\<lambda>(as, r).
          Option.bind (strip_prefix ''/>'' r) (\<lambda>r.
          if takeWhile name_char u = [] \<or> \<not> distinct (map fst as) \<or> ''xmlns'' \<in> fst ` set as then None
          else Option.bind (xml_content n ns r) (\<lambda>(evs, r).
            Some (End (ns @ takeWhile name_char u) as # evs, r))))))"

definition XML_DECLARATION :: string where
  "XML_DECLARATION = ''<?xml version='' @ [CHR 0x22] @ ''1.0'' @ [CHR 0x22] @ '' encoding='' @ [CHR 0x22] @ ''utf-8'' @
     [CHR 0x22] @ ''?>''"

definition xml_root :: "string \<Rightarrow> xml_event list option" where
  "xml_root s =
     Option.bind (take_char (CHR ''<'') (dropWhile xml_space s)) (\<lambda>u.
     Option.bind (xml_attrs (length u) (dropWhile name_char u)) (\<lambda>(as, r).
     Option.bind (take_char (CHR ''>'') r) (\<lambda>r.
     let name = takeWhile name_char u in
     if name = [] \<or> length as \<noteq> 1 \<or> fst (hd as) \<noteq> ''xmlns'' \<or> snd (hd as) = [] then None
     else let ns = ''{'' @ snd (hd as) @ ''}'' in
       Option.bind (xml_content (length r) ns r) (\<lambda>(evs, r).
       Option.bind (strip_prefix (''</'' @ name @ ''>'') r) (\<lambda>r.
       if list_all xml_space r then Some (evs @ [End (ns @ name) []]) else None)))))"

definition xml_events :: "string \<Rightarrow> xml_event list option" where
  "xml_events doc =
     (if \<not> list_all xml_char doc \<or> CHR 0x0D \<in> set doc then None
      else xml_root (case strip_prefix XML_DECLARATION doc of Some s \<Rightarrow> s | None \<Rightarrow> doc))"

definition reads_xml :: "(string \<Rightarrow> xml_event list \<times> exc option) \<Rightarrow> bool" where
  "reads_xml iterparse \<longleftrightarrow> (\<forall>doc evs. xml_events doc = Some evs \<longrightarrow> iterparse doc = (evs, None))"

section \<open>Attribute values\<close>

lemma unescape_char: "unescape (escape_char c @ s) None = map_option ((#) c) (unescape s None)"
  by (simp add: escape_char_def REFERENCES_def xml_space_def)

lemma unescape_escaped: "unescape (concat (map escape_char s)) None = Some s"
  by (induction s) (simp_all add: unescape_char)

lemma unescape_quot:
  "unescape (concat (map (\<lambda>c. if c = CHR 0x22 then ''&quot;'' else [c]) (concat (map escape_char s)))) None = Some s"
proof (induction s)
  case (Cons c s)
  then show ?case by (cases "c = CHR 0x22") (simp_all add: escape_char_def REFERENCES_def xml_space_def)
qed simp

definition quoted :: "char \<Rightarrow> string \<Rightarrow> string \<Rightarrow> bool" where
  "quoted k body s \<longleftrightarrow> k \<in> {CHR 0x22, CHR 0x27} \<and> k \<notin> set body \<and> unescape body None = Some s"

lemma quoteattr_quoted: "\<exists>k body. quoteattr s = k # body @ [k] \<and> quoted k body s"
  unfolding quoteattr_def Let_def quoted_def using unescape_escaped [of s] unescape_quot [of s]
  by (auto split: if_splits)

text \<open>Characters that stand for themselves, in either kind of quotes.\<close>

definition plain :: "char \<Rightarrow> bool" where
  "plain c \<longleftrightarrow> c \<notin> {CHR ''&'', CHR ''<'', CHR 0x22, CHR 0x27, CHR 0x0A, CHR 0x0D, CHR 0x09} \<and> xml_char c"

lemma plain_quoted: "list_all plain s \<Longrightarrow> quoted (CHR 0x22) s s"
proof -
  assume s: "list_all plain s"
  then have "unescape s None = Some s"
    by (induction s) (auto simp: plain_def xml_space_def)
  with s show ?thesis by (auto simp: quoted_def plain_def list_all_iff)
qed

lemma split_at_quoted: "quoted k body s \<Longrightarrow> split_at k (body @ k # rest) = Some (body, rest)"
proof -
  assume "quoted k body s"
  then have "\<forall>c \<in> set body. c \<noteq> k" by (auto simp: quoted_def)
  then show ?thesis by (simp add: split_at_def takeWhile_append2 dropWhile_append2)
qed

section \<open>Attributes\<close>

text \<open>An attribute as the writer puts it, behind a space.\<close>

definition attribute :: "string \<Rightarrow> string \<Rightarrow> string" where
  "attribute name val = CHR '' '' # name @ CHR ''='' # val"

definition is_name :: "string \<Rightarrow> bool" where
  "is_name s \<longleftrightarrow> s \<noteq> [] \<and> list_all name_char s"

lemma name_not_special: "name_char c \<Longrightarrow> \<not> xml_space c \<and> c \<noteq> CHR ''='' \<and> c \<noteq> CHR ''/'' \<and> c \<noteq> CHR ''>''"
  by (auto simp: name_char_def xml_space_def is_decimal_def)

lemma name_split:
  assumes "is_name s" and "u = [] \<or> \<not> name_char (hd u)"
  shows "takeWhile name_char (s @ u) = s" and "dropWhile name_char (s @ u) = u"
  using assms by (auto simp: is_name_def list_all_iff takeWhile_append dropWhile_append takeWhile_eq_Nil_iff
      dropWhile_eq_self_iff)

lemma spaces_before_name: "is_name s \<Longrightarrow> dropWhile xml_space (s @ u) = s @ u"
  using name_not_special by (cases s) (auto simp: is_name_def)

lemma take_char_Cons: "take_char c (c # s) = Some s"
  by (simp add: take_char_def)

lemma xml_attrs_step:
  assumes "is_name name" and "quoted k body a"
  shows "xml_attrs (Suc n) (attribute name (k # body @ [k]) @ rest) =
    map_option (\<lambda>(as, r). ((name, a) # as, r)) (xml_attrs n rest)"
proof -
  let ?u = "name @ CHR ''='' # k # body @ k # rest"
  have "\<not> name_char (CHR ''='')" using name_not_special by blast
  then have split: "takeWhile name_char ?u = name" "dropWhile name_char ?u = CHR ''='' # k # body @ k # rest"
    using name_split [OF assms(1)] by simp_all
  have s: "attribute name (k # body @ [k]) @ rest = CHR '' '' # ?u" by (simp add: attribute_def)
  have u: "dropWhile xml_space (CHR '' '' # ?u) = ?u"
    using spaces_before_name [OF assms(1)] by (simp add: xml_space_def)
  have "?u \<noteq> []" "name_char (hd ?u)" using assms(1) by (cases name; simp add: is_name_def)+
  moreover have "?u \<noteq> CHR '' '' # ?u" using length_Cons by (metis n_not_Suc_n)
  moreover have "k \<in> {CHR 0x22, CHR 0x27}" "unescape body None = Some a" using assms(2) by (simp_all add: quoted_def)
  ultimately show ?thesis
    unfolding s xml_attrs.simps Let_def u split by (auto simp: take_char_def split_at_quoted [OF assms(2)] map_option_case
        split: option.splits)
qed

definition no_attr :: "string \<Rightarrow> string \<Rightarrow> bool" where
  "no_attr s u \<longleftrightarrow> dropWhile xml_space s = u \<and> u \<noteq> [] \<and> \<not> name_char (hd u)"

lemma no_attr_simps [simp]: "no_attr (CHR '' '' # CHR ''/'' # s) (CHR ''/'' # s)" "no_attr (CHR ''>'' # s) (CHR ''>'' # s)"
  by (simp_all add: no_attr_def xml_space_def name_char_def is_decimal_def)

text \<open>An attribute with the text that stands for its value.\<close>

definition wf_attr :: "(string \<times> string) \<times> string \<Rightarrow> bool" where
  "wf_attr p \<longleftrightarrow> is_name (fst (fst p)) \<and> (\<exists>k body. snd p = k # body @ [k] \<and> quoted k body (snd (fst p)))"

definition attribute_text :: "((string \<times> string) \<times> string) list \<Rightarrow> string" where
  "attribute_text ps = concat (map (\<lambda>p. attribute (fst (fst p)) (snd p)) ps)"

lemma xml_attrs_all:
  "list_all wf_attr ps \<Longrightarrow> length ps < n \<Longrightarrow> no_attr s u \<Longrightarrow>
   xml_attrs n (attribute_text ps @ s) = Some (map fst ps, u)"
proof (induction ps arbitrary: n)
  case Nil
  then obtain m where "n = Suc m" by (cases n) auto
  then show ?case using Nil.prems(3) by (simp add: attribute_text_def no_attr_def)
next
  case (Cons p ps)
  then obtain m where n: "n = Suc m" "length ps < m" by (cases n) auto
  from Cons.prems obtain k body where p: "is_name (fst (fst p))" "snd p = k # body @ [k]" "quoted k body (snd (fst p))"
    by (auto simp: wf_attr_def)
  from Cons.IH [OF _ n(2) Cons.prems(3)] Cons.prems(1) show ?case
    unfolding n(1) attribute_text_def using xml_attrs_step [OF p(1,3), of m] p(2)
    by (simp del: xml_attrs.simps)
qed

section \<open>Elements\<close>

lemma xml_content_element:
  assumes "list_all wf_attr ps" and "length ps \<le> 5" and "distinct (map (fst \<circ> fst) ps)"
    and "''xmlns'' \<notin> (fst \<circ> fst) ` set ps"
  shows "xml_content (Suc n) ns (''  <Telegram'' @ attribute_text ps @ '' />'' @ rest) =
    Option.bind (xml_content n ns rest) (\<lambda>(evs, r). Some (End (ns @ ''Telegram'') (map fst ps) # evs, r))"
proof -
  let ?a = "attribute_text ps @ '' />'' @ rest"
  let ?u = "''Telegram'' @ ?a"
  have name: "is_name ''Telegram''" by (simp add: is_name_def name_char_def is_decimal_def)
  have sp: "\<not> name_char (CHR '' '')" by (simp add: name_char_def is_decimal_def)
  have "?a = [] \<or> \<not> name_char (hd ?a)"
    using sp by (cases ps) (simp_all add: attribute_text_def attribute_def)
  note split = name_split [OF name this]
  have d: "dropWhile xml_space (''  <Telegram'' @ ?a) = CHR ''<'' # ?u" by (simp add: xml_space_def)
  have no: "strip_prefix ''</'' (CHR ''<'' # ?u) = None" "strip_prefix ''<!--'' (CHR ''<'' # ?u) = None"
    by (simp_all add: strip_prefix_def)
  have "length ps < length ?u" "no_attr ('' />'' @ rest) (''/>'' @ rest)" using assms(2) by simp_all
  note attrs = xml_attrs_all [OF assms(1) this]
  have "strip_prefix ''/>'' (''/>'' @ rest) = Some rest" by (simp add: strip_prefix_def)
  then show ?thesis
    unfolding xml_content.simps Let_def d no take_char_Cons option.case Option.bind.simps attrs split prod.case
    using assms(3,4) by (simp del: append_Cons append.simps add: image_image comp_def)
qed

lemma xml_content_newline: "xml_content n ns ([CHR 0x0A] @ s) = xml_content n ns s"
  by (cases n) (simp_all add: xml_space_def)

text \<open>Lines of elements, given as lists of attributes, up to the closing tag.\<close>

definition element_line :: "((string \<times> string) \<times> string) list \<Rightarrow> string" where
  "element_line ps = ''  <Telegram'' @ attribute_text ps @ '' />'' @ [CHR 0x0A]"

definition wf_element :: "((string \<times> string) \<times> string) list \<Rightarrow> bool" where
  "wf_element ps \<longleftrightarrow> list_all wf_attr ps \<and> length ps \<le> 5 \<and> distinct (map (fst \<circ> fst) ps) \<and>
     ''xmlns'' \<notin> (fst \<circ> fst) ` set ps"

lemma xml_content_lines:
  "list_all wf_element es \<Longrightarrow> length es < n \<Longrightarrow>
   xml_content n ns (concat (map element_line es) @ COMMUNICATION_LOG_FOOTER) =
     Some (map (\<lambda>ps. End (ns @ ''Telegram'') (map fst ps)) es, COMMUNICATION_LOG_FOOTER)"
proof (induction es arbitrary: n)
  case Nil
  then show ?case
    by (cases n) (simp_all add: COMMUNICATION_LOG_FOOTER_def xml_space_def strip_prefix_def Let_def)
next
  case (Cons ps es)
  then obtain m where n: "n = Suc m" "length es < m" by (cases n) auto
  have line: "concat (map element_line (ps # es)) @ COMMUNICATION_LOG_FOOTER =
      ''  <Telegram'' @ attribute_text ps @ '' />'' @ [CHR 0x0A] @ (concat (map element_line es) @ COMMUNICATION_LOG_FOOTER)"
    by (simp add: element_line_def)
  have "list_all wf_attr ps" "length ps \<le> 5" "distinct (map (fst \<circ> fst) ps)" "''xmlns'' \<notin> (fst \<circ> fst) ` set ps"
    using Cons.prems(1) by (simp_all add: wf_element_def)
  note element = xml_content_element [OF this]
  show ?case unfolding line n(1) element xml_content_newline
    using Cons.IH [OF _ n(2)] Cons.prems(1) by (simp del: append.simps xml_content.simps)
qed

section \<open>Documents\<close>

definition doc_char :: "char \<Rightarrow> bool" where
  "doc_char c \<longleftrightarrow> xml_char c \<and> c \<noteq> CHR 0x0D"

lemma header_split:
  "COMMUNICATION_LOG_HEADER @ s = XML_DECLARATION @ [CHR 0x0A] @ ''<CommunicationLog'' @
     attribute_text [((''xmlns'', KNX_TELEGRAM_NAMESPACE), CHR 0x22 # KNX_TELEGRAM_NAMESPACE @ [CHR 0x22])] @ ''>'' @
     [CHR 0x0A] @ s"
  by (simp add: COMMUNICATION_LOG_HEADER_def XML_DECLARATION_def attribute_text_def attribute_def)

lemma namespace_attr:
  "list_all wf_attr [((''xmlns'', KNX_TELEGRAM_NAMESPACE), CHR 0x22 # KNX_TELEGRAM_NAMESPACE @ [CHR 0x22])]"
proof -
  have "list_all plain KNX_TELEGRAM_NAMESPACE" by (simp add: KNX_TELEGRAM_NAMESPACE_def plain_def xml_char_def)
  from plain_quoted [OF this] show ?thesis by (auto simp: wf_attr_def is_name_def name_char_def is_decimal_def)
qed

lemma header_chars: "list_all doc_char COMMUNICATION_LOG_HEADER" "list_all doc_char COMMUNICATION_LOG_FOOTER"
  by (simp_all add: COMMUNICATION_LOG_HEADER_def COMMUNICATION_LOG_FOOTER_def KNX_TELEGRAM_NAMESPACE_def doc_char_def
      xml_char_def)

lemma xml_root_log:
  assumes "list_all wf_element es"
  shows "xml_root ([CHR 0x0A] @ ''<CommunicationLog'' @
      attribute_text [((''xmlns'', KNX_TELEGRAM_NAMESPACE), CHR 0x22 # KNX_TELEGRAM_NAMESPACE @ [CHR 0x22])] @ ''>'' @
      [CHR 0x0A] @ concat (map element_line es) @ COMMUNICATION_LOG_FOOTER) =
    Some (map (\<lambda>ps. End TELEGRAM_TAG (map fst ps)) es @
      [End (''{'' @ KNX_TELEGRAM_NAMESPACE @ ''}CommunicationLog'') []])"
    (is "xml_root ([CHR 0x0A] @ ''<CommunicationLog'' @ ?ns @ ''>'' @ ?body) = _")
proof -
  let ?u = "''CommunicationLog'' @ ?ns @ ''>'' @ ?body"
  have name: "is_name ''CommunicationLog''" by (simp add: is_name_def name_char_def is_decimal_def)
  have "?ns @ ''>'' @ ?body = [] \<or> \<not> name_char (hd (?ns @ ''>'' @ ?body))"
    by (simp add: attribute_text_def attribute_def name_char_def is_decimal_def)
  note split = name_split [OF name this]
  have d: "dropWhile xml_space ([CHR 0x0A] @ ''<CommunicationLog'' @ ?ns @ ''>'' @ ?body) = CHR ''<'' # ?u"
    by (simp add: xml_space_def)
  have "length [((''xmlns'', KNX_TELEGRAM_NAMESPACE), CHR 0x22 # KNX_TELEGRAM_NAMESPACE @ [CHR 0x22])] < length ?u"
    "no_attr (''>'' @ ?body) (''>'' @ ?body)" by simp_all
  note attrs = xml_attrs_all [OF namespace_attr this]
  have gt: "take_char (CHR ''>'') (''>'' @ ?body) = Some ?body" by (simp add: take_char_def)
  have "length es \<le> length (concat (map element_line es))"
    by (induction es) (simp_all add: element_line_def)
  then have "length es < length ?body" by simp
  note body = xml_content_lines [OF assms this]
  have foot: "strip_prefix (''</'' @ ''CommunicationLog'' @ ''>'') COMMUNICATION_LOG_FOOTER = Some [CHR 0x0A]"
    by (simp add: strip_prefix_def COMMUNICATION_LOG_FOOTER_def)
  show ?thesis
    unfolding xml_root_def Let_def d take_char_Cons Option.bind.simps attrs split prod.case gt xml_content_newline body foot
    by (simp add: xml_space_def TELEGRAM_TAG_def) (simp add: KNX_TELEGRAM_NAMESPACE_def)
qed

lemma xml_events_log:
  assumes "list_all wf_element es" and "list_all doc_char (concat (map element_line es))"
  shows "xml_events (COMMUNICATION_LOG_HEADER @ concat (map element_line es) @ COMMUNICATION_LOG_FOOTER) =
    Some (map (\<lambda>ps. End TELEGRAM_TAG (map fst ps)) es @
      [End (''{'' @ KNX_TELEGRAM_NAMESPACE @ ''}CommunicationLog'') []])"
proof -
  let ?doc = "COMMUNICATION_LOG_HEADER @ concat (map element_line es) @ COMMUNICATION_LOG_FOOTER"
  have "list_all doc_char ?doc" using assms(2) header_chars by simp
  then have "list_all xml_char ?doc" "CHR 0x0D \<notin> set ?doc" by (auto simp: list_all_iff doc_char_def)
  moreover have "strip_prefix XML_DECLARATION (XML_DECLARATION @ s) = Some s" for s by (simp add: strip_prefix_def)
  ultimately show ?thesis unfolding xml_events_def using xml_root_log [OF assms(1)] by (simp only: header_split) simp
qed

end
