(* ===== verification/EtsProperties.thy ===== *)
theory EtsProperties
  imports EtsLog
begin

text \<open>
  Reading back what was written: timestamps, frames, whole logs, and logs of data loggers that declare
  the offset of their clock.
\<close>

section \<open>Timestamps\<close>

text \<open>The format with four digits for the year and a \<open>T\<close> before the time.\<close>

abbreviation iso_text :: "int \<Rightarrow> string" where
  "iso_text \<equiv> wall_text (zero_pad 4) (CHR ''T'')"

lemma format_timestamp_ok:
  assumes "wf_years env" and "is_aware t" and "in_range (instant t)" and "year_1000 \<le> instant t"
  shows "format_timestamp env t = Inr (iso_text (instant t) @ ''Z'')"
  using assms by (auto simp: is_aware_def format_timestamp_def astimezone_utc_def wall_text_years)

text \<open>The characters of a timestamp.\<close>

definition iso_char :: "char \<Rightarrow> bool" where
  "iso_char c \<longleftrightarrow> is_decimal c \<or> c \<in> {CHR ''-'', CHR ''T'', CHR '':'', CHR ''.'', CHR ''Z'', CHR ''+''}"

lemma iso_text_chars:
  assumes "in_range w"
  obtains base frac where "iso_text w = base @ ''.'' @ frac" and "list_all (\<lambda>c. iso_char c \<and> c \<noteq> CHR ''.'') base"
    and "list_all is_decimal frac" and "length frac = 6"
proof -
  obtain y m d h mi s us where f: "date_of_wall w = Civil y m d" "time_of_wall w = (h, mi, s, us)"
    and r: "0 \<le> y \<and> y < 10000 \<and> 0 \<le> m \<and> m < 100 \<and> 0 \<le> d \<and> d < 100 \<and> 0 \<le> h \<and> h \<le> 23 \<and> 0 \<le> mi \<and> mi < 60 \<and>
      0 \<le> s \<and> s < 60 \<and> 0 \<le> us \<and> us < 1000000"
    using wall_field_bounds [OF assms] by blast
  define base where "base = zero_pad 4 y @ ''-'' @ zero_pad 2 m @ ''-'' @ zero_pad 2 d @ ''T'' @ zero_pad 2 h @ '':'' @
    zero_pad 2 mi @ '':'' @ zero_pad 2 s"
  have pads: "list_all (\<lambda>c. iso_char c \<and> c \<noteq> CHR ''.'') (zero_pad k i)" if "0 \<le> i" "i < 10 ^ k" "0 < k" for k i
    using pad_digits [OF that] by (auto simp: list_all_iff iso_char_def is_decimal_def)
  have "list_all (\<lambda>c. iso_char c \<and> c \<noteq> CHR ''.'') base"
    unfolding base_def using r by (simp add: pads) (simp add: iso_char_def)
  moreover have "iso_text w = base @ ''.'' @ zero_pad 6 us" by (simp add: wall_text_def f base_def)
  ultimately show ?thesis using that pad_digits [of us 6] r by auto
qed

lemma iso_char_no_space: "iso_char c \<Longrightarrow> \<not> is_space c"
  by (auto simp: iso_char_def is_decimal_def is_space_def)

lemma iso_text_iso_chars: "in_range w \<Longrightarrow> list_all iso_char (iso_text w @ ''Z'')"
proof -
  assume "in_range w"
  then obtain base frac where t: "iso_text w = base @ ''.'' @ frac" "list_all (\<lambda>c. iso_char c \<and> c \<noteq> CHR ''.'') base"
    "list_all is_decimal frac" using iso_text_chars by blast
  have "iso_char (CHR ''Z'')" "iso_char (CHR ''.'')" "\<And>c. is_decimal c \<Longrightarrow> iso_char c" by (simp_all add: iso_char_def)
  with t show ?thesis by (auto simp: list_all_iff)
qed

lemma parse_timestamp_text:
  assumes "in_range w"
  shows "parse_timestamp env (iso_text w @ ''Z'') = Inr (Datetime w (Some 0))"
proof -
  obtain base frac where t: "iso_text w = base @ ''.'' @ frac" and base: "list_all (\<lambda>c. iso_char c \<and> c \<noteq> CHR ''.'') base"
    and frac: "list_all is_decimal frac" "length frac = 6"
    using iso_text_chars [OF assms] by blast
  have "list_all (\<lambda>c. \<not> is_space c) (iso_text w @ ''Z'')"
    using iso_text_iso_chars [OF assms] by (simp add: list_all_iff iso_char_no_space)
  then have strip: "strip (iso_text w @ ''Z'') = iso_text w @ ''Z''" by (rule strip_no_space)
  have part: "partition_dot (base @ ''.'' @ frac @ ''+00:00'') = (base, True, frac @ ''+00:00'')"
    using base by (auto simp: partition_dot_def Let_def list_all_iff takeWhile_append2)
  have "\<forall>c \<in> set frac. c \<noteq> CHR ''+''" using frac(1) by (auto simp: list_all_iff is_decimal_def)
  then have "split_offset (frac @ ''+00:00'') = (frac, ''+00:00'')"
    by (simp add: split_offset_def takeWhile_append2 dropWhile_append2)
  then have norm: "normalize_fraction (iso_text w @ ''+00:00'') = iso_text w @ ''+00:00''"
    using part frac(2) by (simp add: normalize_fraction_def t)
  have "iso_offset ''+00:00'' = Some (Some 0)" by code_simp
  from fromisoformat_text [OF assms this, of env]
  show ?thesis using assms by (simp add: parse_timestamp_def strip norm astimezone_utc_def butlast_append)
qed

section \<open>Frames\<close>

definition hex_digit_ok :: "nat \<Rightarrow> bool" where
  "hex_digit_ok k \<longleftrightarrow> (let c = ''0123456789ABCDEF'' ! k in hex_value c = Some (int k) \<and>
     \<not> (9 \<le> code c \<and> code c \<le> 13 \<or> code c = 32) \<and> plain c)"

lemma hex_digits: "list_all hex_digit_ok [0..<16]"
  by code_simp

lemma hex_digit: "k < 16 \<Longrightarrow> hex_digit_ok k"
  using hex_digits by (auto simp: list_all_iff)

lemma unat_byte: "unat (b :: 8 word) div 16 < 16"
proof -
  have "unat b < 2 ^ LENGTH(8)" by (rule unsigned_less)
  then show ?thesis by simp
qed

lemma fromhex_upper: "fromhex (hex_upper b @ s) = bind_res (fromhex s) (\<lambda>bs. Inr (b # bs))"
proof -
  have "16 * int (unat b div 16) + int (unat b mod 16) = int (16 * (unat b div 16) + unat b mod 16)" by (simp only: of_nat_add of_nat_mult of_nat_numeral)
  also have "\<dots> = int (unat b)" by (simp only: mult_div_mod_eq)
  finally have "word_of_int (16 * int (unat b div 16) + int (unat b mod 16)) = (word_of_int (int (unat b)) :: 8 word)"
    by (rule arg_cong)
  then have "word_of_int (16 * int (unat b div 16) + int (unat b mod 16)) = b" by simp
  then show ?thesis
    using hex_digit [OF unat_byte [of b]] hex_digit [of "unat b mod 16"]
    unfolding hex_upper_def append.simps fromhex.simps hex_digit_ok_def Let_def by auto
qed

lemma fromhex_frame: "fromhex (concat (map hex_upper bs)) = Inr bs"
  by (induction bs) (simp_all only: list.map concat.simps fromhex_upper fromhex.simps bind_res_simps)

lemma hex_plain: "list_all plain (concat (map hex_upper bs))"
  using hex_digit unat_byte by (induction bs) (simp_all add: hex_upper_def hex_digit_ok_def Let_def)

section \<open>Elements\<close>

definition dquoted :: "string \<Rightarrow> string" where
  "dquoted s = CHR 0x22 # s @ [CHR 0x22]"

definition element_attrs :: "string \<Rightarrow> raw_telegram_record \<Rightarrow> ((string \<times> string) \<times> string) list" where
  "element_attrs name r =
     (let ts = iso_text (instant (rt_timestamp r)) @ ''Z''; raw = concat (map hex_upper (rt_raw_data r)) in
      ((''Timestamp'', ts), dquoted ts) #
      (if name \<noteq> [] then [((''ConnectionName'', name), quoteattr name)] else []) @
      [((''Service'', rt_service r), quoteattr (rt_service r)),
       ((''FrameFormat'', rt_frame_format r), quoteattr (rt_frame_format r)),
       ((''RawData'', raw), dquoted raw)])"

definition writable :: "raw_telegram_record \<Rightarrow> bool" where
  "writable r \<longleftrightarrow> is_aware (rt_timestamp r) \<and> in_range (instant (rt_timestamp r)) \<and>
     year_1000 \<le> instant (rt_timestamp r) \<and> list_all xml_char (rt_service r) \<and> list_all xml_char (rt_frame_format r)"

definition in_utc :: "raw_telegram_record \<Rightarrow> raw_telegram_record" where
  "in_utc r = r\<lparr>rt_timestamp := Datetime (instant (rt_timestamp r)) (Some 0)\<rparr>"

lemma format_element:
  assumes "wf_years env" and "writable r"
  shows "format_telegram_element env name r = Inr (element_line (element_attrs name r))"
  using format_timestamp_ok [OF assms(1), of "rt_timestamp r"] assms(2)
  by (simp add: format_telegram_element_def writable_def element_line_def element_attrs_def attribute_text_def
      attribute_def dquoted_def Let_def)

lemma iso_char_plain: "iso_char c \<Longrightarrow> plain c"
  by (auto simp: iso_char_def plain_def xml_char_def is_decimal_def)

lemma dquoted_attr: "is_name n \<Longrightarrow> list_all plain s \<Longrightarrow> wf_attr ((n, s), dquoted s)"
  using plain_quoted [of s] by (auto simp: wf_attr_def dquoted_def)

lemma quoteattr_attr: "is_name n \<Longrightarrow> wf_attr ((n, s), quoteattr s)"
  using quoteattr_quoted [of s] by (auto simp: wf_attr_def)

lemma attr_names:
  "is_name ''Timestamp''" "is_name ''ConnectionName''" "is_name ''Service''" "is_name ''FrameFormat''" "is_name ''RawData''"
  by (simp_all add: is_name_def name_char_def is_decimal_def)

lemma text_plain: "writable r \<Longrightarrow> list_all plain (iso_text (instant (rt_timestamp r)) @ ''Z'')"
  using iso_text_iso_chars [of "instant (rt_timestamp r)"] iso_char_plain by (auto simp: list_all_iff writable_def)

lemma element_wf: "writable r \<Longrightarrow> wf_element (element_attrs name r)"
  using text_plain [of r] hex_plain [of "rt_raw_data r"]
  by (simp add: wf_element_def element_attrs_def Let_def dquoted_attr quoteattr_attr attr_names)

lemma plain_doc: "plain c \<Longrightarrow> doc_char c"
  by (auto simp: plain_def doc_char_def)

lemma escape_doc: "xml_char c \<Longrightarrow> list_all doc_char (escape_char c)"
  by (auto simp: escape_char_def doc_char_def xml_char_def)

lemma quoteattr_doc:
  assumes "list_all xml_char s"
  shows "list_all doc_char (quoteattr s)"
proof -
  have "list_all doc_char (concat (map escape_char s))"
    using assms by (induction s) (simp_all add: escape_doc)
  moreover have "list_all doc_char (concat (map (\<lambda>c. if c = CHR 0x22 then ''&quot;'' else [c]) u))"
    if "list_all doc_char u" for u
    using that by (induction u) (simp_all add: doc_char_def xml_char_def)
  moreover have "doc_char (CHR 0x22)" "doc_char (CHR 0x27)" by (simp_all add: doc_char_def xml_char_def)
  ultimately show ?thesis by (simp add: quoteattr_def Let_def)
qed

lemma element_doc:
  assumes "writable r" and "list_all xml_char name"
  shows "list_all doc_char (element_line (element_attrs name r))"
proof -
  have "list_all doc_char (dquoted s)" if "list_all plain s" for s
    using that plain_doc by (auto simp: dquoted_def list_all_iff doc_char_def xml_char_def)
  moreover have "list_all doc_char (attribute n v)" if "list_all plain n" "list_all doc_char v" for n v
    using that plain_doc by (auto simp: attribute_def list_all_iff doc_char_def xml_char_def)
  moreover have "list_all plain ''Timestamp''" "list_all plain ''ConnectionName''" "list_all plain ''Service''"
    "list_all plain ''FrameFormat''" "list_all plain ''RawData''" by (simp_all add: plain_def xml_char_def)
  moreover have "list_all doc_char ''  <Telegram''" "list_all doc_char '' />''" "doc_char (CHR 0x0A)"
    by (simp_all add: doc_char_def xml_char_def)
  ultimately show ?thesis
    using assms text_plain [OF assms(1)] hex_plain [of "rt_raw_data r"]
    by (simp add: element_line_def attribute_text_def element_attrs_def Let_def quoteattr_doc writable_def del: append.simps)
qed

lemma read_element:
  assumes "writable r"
  shows "read_telegram env 0 (map fst (element_attrs name r)) = Inr (in_utc r)"
  using assms parse_timestamp_text [of "instant (rt_timestamp r)" env] fromhex_frame [of "rt_raw_data r"]
  by (simp add: read_telegram_def element_attrs_def Let_def writable_def dt_plus_def in_utc_def)

section \<open>Logs\<close>

lemma write_records_ok:
  "wf_years env \<Longrightarrow> list_all writable rs \<Longrightarrow>
   write_records env name rs = (concat (map element_line (map (element_attrs name) rs)) @ COMMUNICATION_LOG_FOOTER, Inr (length rs))"
  by (induction rs) (simp_all add: format_element)

lemma read_records_ok:
  "list_all writable rs \<Longrightarrow>
   iter_events env 0 (map (\<lambda>ps. End TELEGRAM_TAG (map fst ps)) (map (element_attrs name) rs) @ evs) =
     (map in_utc rs @ fst (iter_events env 0 evs), snd (iter_events env 0 evs))"
  by (induction rs) (simp_all add: read_element)

text \<open>
  C35: A communication log is read back as it was written: with any XML parser that follows the
  specification, the records come out complete, in their order, with the same frames, services and
  formats, whatever characters XML allows these have, and the same instants, put in UTC; the number
  returned by the writer is the number of records.
\<close>

theorem ets_log_roundtrip:
  assumes "reads_xml iterparse" and "wf_years env" and "list_all writable records" and "list_all xml_char name"
  shows "\<exists>doc. write_communication_log env name records = (doc, Inr (length records)) \<and>
    iter_communication_log env iterparse doc = (map in_utc records, None)"
proof -
  let ?es = "map (element_attrs name) records"
  let ?doc = "COMMUNICATION_LOG_HEADER @ concat (map element_line ?es) @ COMMUNICATION_LOG_FOOTER"
  have "list_all wf_element ?es" using assms(3) by (simp add: list_all_iff element_wf)
  moreover have "list_all doc_char (concat (map element_line ?es))"
    using assms(3,4) by (induction records) (simp_all add: element_doc)
  ultimately have "iterparse ?doc = (map (\<lambda>ps. End TELEGRAM_TAG (map fst ps)) ?es @
      [End (''{'' @ KNX_TELEGRAM_NAMESPACE @ ''}CommunicationLog'') []], None)"
    using assms(1) xml_events_log unfolding reads_xml_def by blast
  then have "iter_communication_log env iterparse ?doc = (map in_utc records, None)"
    using read_records_ok [OF assms(3)] by (simp add: iter_communication_log_def TELEGRAM_TAG_def)
  then show ?thesis using write_records_ok [OF assms(2,3)] by (simp add: write_communication_log_def)
qed

definition sample_env :: datetime_env where
  "sample_env = \<lparr>de_year = zero_pad 4, de_local = (\<lambda>_. Inl (raise_exc OverflowError)), de_iso = (\<lambda>_. Inl (raise_exc ValueError))\<rparr>"

definition sample_record :: raw_telegram_record where
  "sample_record = \<lparr>rt_timestamp = Datetime 1700000000123456 (Some 3600000000), rt_service = ''L <&> '' @ [CHR 0x22, CHR 0x27],
     rt_raw_data = [0x29, 0, 0xBC], rt_frame_format = ''CommonEmi''\<rparr>"

definition small_parser :: "string \<Rightarrow> xml_event list \<times> exc option" where
  "small_parser doc = (case xml_events doc of Some evs \<Rightarrow> (evs, None) | None \<Rightarrow> ([], Some (raise_exc XmlParseError)))"

theorem ets_log_roundtrip_witness:
  "\<exists>doc. write_communication_log sample_env ''IP'' [sample_record] = (doc, Inr 1) \<and>
    iter_communication_log sample_env small_parser doc = ([in_utc sample_record], None)"
proof -
  have "reads_xml small_parser" by (simp add: reads_xml_def small_parser_def)
  moreover have "wf_years sample_env" by (simp add: wf_years_def sample_env_def)
  moreover have "list_all writable [sample_record]"
    by (simp add: writable_def sample_record_def in_range_def min_wall_def max_wall_def year_1000_def xml_char_def)
  moreover have "list_all xml_char ''IP''" by (simp add: xml_char_def)
  ultimately show ?thesis using ets_log_roundtrip [of small_parser sample_env "[sample_record]" "''IP''"] by simp
qed

section \<open>Clocks that declare their offset\<close>

definition offset_comment :: "bool \<Rightarrow> int \<Rightarrow> int \<Rightarrow> string" where
  "offset_comment ahead h mi =
     '' timezone offset '' @ [if ahead then CHR ''+'' else CHR ''-''] @ zero_pad 2 h @ '':'' @ zero_pad 2 mi @ '' hour ''"

definition offset_micros :: "bool \<Rightarrow> int \<Rightarrow> int \<Rightarrow> int" where
  "offset_micros ahead h mi = (if ahead then 1 else -1) * (h * 3600 + mi * 60) * 1000000"

lemma offset_found:
  assumes "0 \<le> h" and "h < 100" and "0 \<le> mi" and "mi < 100"
  shows "timezone_search (offset_comment ahead h mi) = Some (offset_micros ahead h mi)"
proof -
  let ?c = "if ahead then CHR ''+'' else CHR ''-''"
  let ?s = "''timezone offset '' @ [?c] @ zero_pad 2 h @ '':'' @ zero_pad 2 mi @ '' hour ''"
  have c: "\<not> is_space ?c" "?c = CHR ''+'' \<or> ?c = CHR ''-''" by (simp_all add: is_space_def)
  have "strip_prefix ''timezone'' ?s = Some ('' offset '' @ [?c] @ zero_pad 2 h @ '':'' @ zero_pad 2 mi @ '' hour '')"
    "some_spaces ('' offset '' @ u) = Some (''offset '' @ u)" "strip_prefix ''offset'' (''offset '' @ u) = Some ('' '' @ u)"
    "some_spaces ('' '' @ ?c # u) = Some (?c # u)" for u
    using c(1) by (simp_all add: strip_prefix_def some_spaces_def is_space_def del: if_split)
  moreover have "tl (?c # u) = u" "hd (?c # u) = ?c" "?c # u \<noteq> []" for u by simp_all
  moreover have "take_num 2 (zero_pad 2 h @ '':'' @ u) = Some (h, '':'' @ u)" "take_num 2 (zero_pad 2 mi @ u) = Some (mi, u)" for u
    using assms by (simp_all only: take_2)
  ultimately have "timezone_match ?s = Some (offset_micros ahead h mi)"
    unfolding timezone_match_def using c(2)
    by (simp only: Option.bind.simps append.simps prod.case take_chars [simplified append.simps] offset_micros_def) simp
  moreover have "timezone_match (CHR '' '' # u) = None" for u by (simp add: timezone_match_def strip_prefix_def)
  ultimately show ?thesis by (simp add: offset_comment_def)
qed

text \<open>A telegram as a data logger writes it, at its local time.\<close>

definition logged :: "int \<Rightarrow> int \<times> 8 word list \<Rightarrow> xml_event" where
  "logged off r = End TELEGRAM_TAG [(''Timestamp'', iso_text (fst r + off) @ ''Z''), (''Service'', ''L_Busmon.ind''),
     (''RawData'', concat (map hex_upper (snd r)))]"

definition logged_record :: "int \<times> 8 word list \<Rightarrow> raw_telegram_record" where
  "logged_record r = \<lparr>rt_timestamp = Datetime (fst r) (Some 0), rt_service = ''L_Busmon.ind'', rt_raw_data = snd r,
     rt_frame_format = ''CommonEmi''\<rparr>"

lemma read_logged:
  assumes "in_range (fst r)" and "in_range (fst r + off)"
  shows "iter_events env off (logged off r # evs) = (logged_record r # fst (iter_events env off evs), snd (iter_events env off evs))"
  using assms parse_timestamp_text [OF assms(2), of env] fromhex_frame [of "snd r"]
  by (simp add: logged_def read_telegram_def dt_plus_def logged_record_def split: prod.split)

text \<open>
  C36: The log of a data logger that writes its local time and declares the offset in a comment is read
  in true UTC: each telegram after the comment gets the instant at which it was received, for every
  offset ahead of or behind UTC; without the comment local time would be taken for UTC.
\<close>

theorem declared_offset_corrected:
  assumes "0 \<le> h" and "h < 100" and "0 \<le> mi" and "mi < 100" and "off = offset_micros ahead h mi"
    and log: "\<forall>r \<in> set log. in_range (fst r) \<and> in_range (fst r + off)"
    and "iterparse source = (Comment (offset_comment ahead h mi) # map (logged off) log, err)"
    and "iterparse plain_source = (map (logged off) log, err)"
  shows "iter_communication_log env iterparse source = (map logged_record log, err) \<and>
    iter_communication_log env iterparse plain_source = (map (\<lambda>(t, bs). logged_record (t + off, bs)) log, err)"
proof -
  have "iter_events env off (map (logged off) log) = (map logged_record log, None)"
    using log by (induction log) (simp_all add: read_logged)
  moreover have "iter_events env 0 (map (logged off) log) = (map (\<lambda>(t, bs). logged_record (t + off, bs)) log, None)"
    using log
  proof (induction log)
    case (Cons r log)
    have "logged off r = logged 0 (fst r + off, snd r)" by (simp add: logged_def)
    with Cons read_logged [of "(fst r + off, snd r)" 0] show ?case by (simp add: case_prod_unfold)
  qed simp
  ultimately show ?thesis
    using assms(7,8) offset_found [OF assms(1-4)] assms(5) by (simp add: iter_communication_log_def)
qed

theorem declared_offset_corrected_witness:
  "\<exists>iterparse. iter_communication_log sample_env iterparse True = ([logged_record (1700000000000000, [0x29])], None) \<and>
    iter_communication_log sample_env iterparse False = ([logged_record (1700003600000000, [0x29])], None)"
proof -
  let ?log = "[(1700000000000000, [0x29 :: 8 word])]"
  let ?parse = "\<lambda>commented. ((if commented then [Comment (offset_comment True 1 0)] else []) @
    map (logged (offset_micros True 1 0)) ?log, None)"
  have "iter_communication_log sample_env ?parse True = (map logged_record ?log, None) \<and>
      iter_communication_log sample_env ?parse False =
        (map (\<lambda>(t, bs). logged_record (t + offset_micros True 1 0, bs)) ?log, None)"
    by (rule declared_offset_corrected [where h = 1 and mi = 0 and ahead = True])
      (simp_all add: in_range_def min_wall_def max_wall_def offset_micros_def)
  then have "iter_communication_log sample_env ?parse True = ([logged_record (1700000000000000, [0x29])], None) \<and>
      iter_communication_log sample_env ?parse False = ([logged_record (1700003600000000, [0x29])], None)"
    by (simp add: offset_micros_def)
  then show ?thesis by (rule exI [of _ ?parse])
qed

end
