(* ===== verification/TextOrder.thy ===== *)
theory TextOrder
  imports IsoText
begin

text \<open>
  The texts in which SQLite files of earlier versions hold their timestamps, and SQLite's comparison
  of values: every integer sorts before every text, and texts are compared byte by byte. Texts of the
  fixed format sort as the instants they denote.
\<close>

section \<open>Comparison\<close>

fun text_le :: "string \<Rightarrow> string \<Rightarrow> bool" where
  "text_le [] t = True"
| "text_le (c # s) [] = False"
| "text_le (c # s) (d # t) = (code c < code d \<or> c = d \<and> text_le s t)"

datatype column_value = IntValue int | TextValue string

fun value_le :: "column_value \<Rightarrow> column_value \<Rightarrow> bool" where
  "value_le (IntValue a) (IntValue b) = (a \<le> b)"
| "value_le (IntValue a) (TextValue t) = True"
| "value_le (TextValue s) (IntValue b) = False"
| "value_le (TextValue s) (TextValue t) = text_le s t"

text \<open>SQLAlchemy's format, always with four digits for the year, and the same to the millisecond.\<close>

definition sqlite_text :: "int \<Rightarrow> string" where
  "sqlite_text us = wall_text (zero_pad 4) (CHR '' '') us"

definition ms_text :: "int \<Rightarrow> string" where
  "ms_text ms = (case date_of_wall (1000 * ms) of Civil y m d \<Rightarrow> case time_of_wall (1000 * ms) of (h, mi, s, us) \<Rightarrow>
     zero_pad 4 y @ ''-'' @ zero_pad 2 m @ ''-'' @ zero_pad 2 d @ '' '' @ zero_pad 2 h @ '':'' @ zero_pad 2 mi @ '':'' @
     zero_pad 2 s @ ''.'' @ zero_pad 3 (us div 1000))"

section \<open>Numerals of equal width\<close>

lemma code_inject: "code c = code d \<longleftrightarrow> c = d"
  using of_char_eq_iff [where 'a = nat] by blast

lemma decimal_value_Cons: "decimal_value (c # u) = (int (code c) - 48) * 10 ^ length u + decimal_value u"
proof (induction u rule: rev_induct)
  case Nil
  then show ?case by (simp add: decimal_value_def)
next
  case (snoc x xs)
  then show ?case using decimal_value_snoc [of "c # xs" x] decimal_value_snoc [of xs x] by (simp add: algebra_simps)
qed

lemma decimal_value_bounds: "list_all is_decimal u \<Longrightarrow> 0 \<le> decimal_value u \<and> decimal_value u < 10 ^ length u"
proof (induction u)
  case Nil
  then show ?case by (simp add: decimal_value_def)
next
  case (Cons c u)
  then have "0 \<le> int (code c) - 48" "int (code c) - 48 \<le> 9" by (simp_all add: is_decimal_def)
  then have "0 \<le> (int (code c) - 48) * 10 ^ length u" by (intro mult_nonneg_nonneg) simp_all
  moreover have "(int (code c) - 48) * 10 ^ length u \<le> 9 * 10 ^ length u"
    using \<open>int (code c) - 48 \<le> 9\<close> by (intro mult_right_mono) simp_all
  moreover have "0 \<le> decimal_value u" "decimal_value u < 10 ^ length u" using Cons by simp_all
  ultimately show ?case unfolding decimal_value_Cons length_Cons power_Suc by linarith
qed

lemma lex_step:
  assumes "0 \<le> r" and "r < k" and "0 \<le> r'" and "r' < (k :: int)"
  shows "q * k + r < q' * k + r' \<longleftrightarrow> q < q' \<or> q = q' \<and> r < r'"
    and "q * k + r = q' * k + r' \<longleftrightarrow> q = q' \<and> r = r'"
proof -
  have less: "a * k + x < b * k + y" if "a < b" "0 \<le> x" "x < k" "0 \<le> y" for a b x y
  proof -
    have "(a + 1) * k \<le> b * k" using that assms by (intro mult_right_mono) auto
    with that show ?thesis by (simp add: algebra_simps)
  qed
  show "q * k + r < q' * k + r' \<longleftrightarrow> q < q' \<or> q = q' \<and> r < r'"
    using less [of q q' r r'] less [of q' q r' r] assms by (cases q q' rule: linorder_cases) auto
  show "q * k + r = q' * k + r' \<longleftrightarrow> q = q' \<and> r = r'"
    using less [of q q' r r'] less [of q' q r' r] assms by (cases q q' rule: linorder_cases) auto
qed

lemma text_le_digits:
  "list_all is_decimal u \<Longrightarrow> list_all is_decimal v \<Longrightarrow> length u = length v \<Longrightarrow>
   text_le (u @ s) (v @ t) \<longleftrightarrow> decimal_value u < decimal_value v \<or> decimal_value u = decimal_value v \<and> text_le s t"
proof (induction u arbitrary: v)
  case Nil
  then show ?case by simp
next
  case (Cons c u)
  then obtain d v' where v: "v = d # v'" "length u = length v'" by (cases v) auto
  have b: "0 \<le> decimal_value u" "decimal_value u < 10 ^ length v'" "0 \<le> decimal_value v'" "decimal_value v' < 10 ^ length v'"
    using Cons.prems v decimal_value_bounds [of u] decimal_value_bounds [of v'] by simp_all
  have "text_le ((c # u) @ s) (v @ t) \<longleftrightarrow> code c < code d \<or> c = d \<and>
      (decimal_value u < decimal_value v' \<or> decimal_value u = decimal_value v' \<and> text_le s t)"
    using Cons v by simp
  then show ?case
    unfolding v decimal_value_Cons v(2) using lex_step [OF b, of "int (code c) - 48" "int (code d) - 48"] code_inject [of c d]
    by auto
qed

lemma text_le_pad:
  assumes "0 \<le> i" and "i < 10 ^ k" and "0 \<le> j" and "j < 10 ^ k" and "0 < k"
  shows "text_le (zero_pad k i @ s) (zero_pad k j @ t) \<longleftrightarrow> i < j \<or> i = j \<and> text_le s t"
proof -
  obtain n where k: "k = Suc n" using assms(5) by (cases k) auto
  show ?thesis
    using text_le_digits [of "zero_pad k i" "zero_pad k j" s t] zero_pad_ok [of i n] zero_pad_ok [of j n] assms
    by (simp add: k)
qed

lemma text_le_same: "text_le (u @ s) (u @ t) = text_le s t"
  by (induction u) simp_all

section \<open>Texts sort by time\<close>

text \<open>The fields of a wall clock in milliseconds.\<close>

definition ms_in_range :: "int \<Rightarrow> bool" where
  "ms_in_range ms \<longleftrightarrow> in_range (1000 * ms)"

lemma ms_fields:
  assumes "ms_in_range ms"
  obtains c h mi s ml where "date_of_wall (1000 * ms) = c" and "valid_civil c"
    and "time_of_wall (1000 * ms) = (h, mi, s, 1000 * ml)"
    and "0 \<le> h \<and> h < 24 \<and> 0 \<le> mi \<and> mi < 60 \<and> 0 \<le> s \<and> s < 60 \<and> 0 \<le> ml \<and> ml < 1000"
    and "ms = (ymd2ord c - epoch_ordinal) * 86400000 + (((h * 60 + mi) * 60 + s) * 1000 + ml)"
proof -
  have r: "in_range (1000 * ms)" using assms by (simp add: ms_in_range_def)
  obtain h mi s us where t: "time_of_wall (1000 * ms) = (h, mi, s, us)" "0 \<le> h" "h \<le> 23" "0 \<le> mi" "mi \<le> 59"
    "0 \<le> s" "s \<le> 59" "0 \<le> us" "us \<le> 999999" using wall_fields(3) [OF r] by blast
  define ord where "ord = ymd2ord (date_of_wall (1000 * ms)) - epoch_ordinal"
  have w: "1000 * ms = ord * 86400000000 + ((h * 3600 + mi * 60 + s) * 1000000 + us)"
    using wall_fields(2) [OF r] t(1) by (simp add: make_wall_def micros_per_day_def ord_def)
  define ml where "ml = us div 1000"
  have "us = 1000 * (ms - ord * 86400000 - (h * 3600 + mi * 60 + s) * 1000)" using w by simp
  then have us: "us = 1000 * ml" by (simp add: ml_def)
  show ?thesis
  proof (rule that [of "date_of_wall (1000 * ms)" h mi s ml])
    show "ms = (ymd2ord (date_of_wall (1000 * ms)) - epoch_ordinal) * 86400000 + (((h * 60 + mi) * 60 + s) * 1000 + ml)"
      using w us by (simp add: ord_def)
  qed (use t us wall_fields(1) [OF r] in auto)
qed

text \<open>Valid dates in their text are ordered like dates.\<close>

definition date_text :: "civil \<Rightarrow> string" where
  "date_text c = zero_pad 4 (c_year c) @ ''-'' @ zero_pad 2 (c_month c) @ ''-'' @ zero_pad 2 (c_day c)"

lemma text_le_Cons: "text_le (c # s) (c # t) = text_le s t"
  by simp

lemma text_le_date:
  assumes "valid_civil a" and "valid_civil b"
  shows "text_le (date_text a @ s) (date_text b @ t) \<longleftrightarrow> a < b \<or> a = b \<and> text_le s t"
proof -
  have r: "0 \<le> c_year c \<and> c_year c < 10 ^ 4 \<and> 0 \<le> c_month c \<and> c_month c < 10 ^ 2 \<and> 0 \<le> c_day c \<and> c_day c < 10 ^ 2"
    if "valid_civil c" for c
    using that days_in_month_31 [of "c_month c" "is_leap (c_year c)"] by (auto simp: valid_civil_def)
  have eq: "a = b \<longleftrightarrow> c_year a = c_year b \<and> c_month a = c_month b \<and> c_day a = c_day b"
    by (auto intro: civil.expand)
  show ?thesis
    unfolding date_text_def append_assoc less_civil_def eq
    using r [OF assms(1)] r [OF assms(2)] by (auto simp: text_le_pad)
qed

definition clock_text :: "int \<Rightarrow> int \<Rightarrow> int \<Rightarrow> int \<Rightarrow> string" where
  "clock_text h mi s ml = zero_pad 2 h @ '':'' @ zero_pad 2 mi @ '':'' @ zero_pad 2 s @ ''.'' @ zero_pad 3 ml"

lemma text_le_clock:
  assumes "0 \<le> h \<and> h < 24 \<and> 0 \<le> mi \<and> mi < 60 \<and> 0 \<le> s \<and> s < 60 \<and> 0 \<le> ml \<and> ml < 1000"
    and "0 \<le> h' \<and> h' < 24 \<and> 0 \<le> mi' \<and> mi' < 60 \<and> 0 \<le> s' \<and> s' < 60 \<and> 0 \<le> ml' \<and> ml' < 1000"
    and m: "m = ((h * 60 + mi) * 60 + s) * 1000 + ml" "m' = ((h' * 60 + mi') * 60 + s') * 1000 + ml'"
  shows "text_le (clock_text h mi s ml @ u) (clock_text h' mi' s' ml' @ v) \<longleftrightarrow> m < m' \<or> m = m' \<and> text_le u v"
proof -
  have "text_le (clock_text h mi s ml @ u) (clock_text h' mi' s' ml' @ v) \<longleftrightarrow>
      h < h' \<or> h = h' \<and> (mi < mi' \<or> mi = mi' \<and> (s < s' \<or> s = s' \<and> (ml < ml' \<or> ml = ml' \<and> text_le u v)))"
    unfolding clock_text_def append_assoc using assms(1,2) by (simp add: text_le_pad)
  then show ?thesis
    unfolding m using assms(1,2) lex_step [of ml 1000 ml' "(h * 60 + mi) * 60 + s" "(h' * 60 + mi') * 60 + s'"]
      lex_step [of s 60 s' "h * 60 + mi" "h' * 60 + mi'"] lex_step [of mi 60 mi' h h'] by blast
qed

lemma ms_text_parts:
  assumes "date_of_wall (1000 * ms) = c" and "time_of_wall (1000 * ms) = (h, mi, s, 1000 * ml)"
  shows "ms_text ms = date_text c @ '' '' @ clock_text h mi s ml"
  using assms by (cases c) (simp add: ms_text_def date_text_def clock_text_def)

lemma text_le_ms:
  assumes "ms_in_range a" and "ms_in_range b"
  shows "text_le (ms_text a @ u) (ms_text b @ v) \<longleftrightarrow> a < b \<or> a = b \<and> text_le u v"
proof -
  obtain c h mi s ml where a: "date_of_wall (1000 * a) = c" "valid_civil c" "time_of_wall (1000 * a) = (h, mi, s, 1000 * ml)"
    "0 \<le> h \<and> h < 24 \<and> 0 \<le> mi \<and> mi < 60 \<and> 0 \<le> s \<and> s < 60 \<and> 0 \<le> ml \<and> ml < 1000"
    "a = (ymd2ord c - epoch_ordinal) * 86400000 + (((h * 60 + mi) * 60 + s) * 1000 + ml)"
    by (rule ms_fields [OF assms(1)])
  obtain c' h' mi' s' ml' where b: "date_of_wall (1000 * b) = c'" "valid_civil c'"
    "time_of_wall (1000 * b) = (h', mi', s', 1000 * ml')"
    "0 \<le> h' \<and> h' < 24 \<and> 0 \<le> mi' \<and> mi' < 60 \<and> 0 \<le> s' \<and> s' < 60 \<and> 0 \<le> ml' \<and> ml' < 1000"
    "b = (ymd2ord c' - epoch_ordinal) * 86400000 + (((h' * 60 + mi') * 60 + s') * 1000 + ml')"
    by (rule ms_fields [OF assms(2)])
  define m m' where "m = ((h * 60 + mi) * 60 + s) * 1000 + ml" and "m' = ((h' * 60 + mi') * 60 + s') * 1000 + ml'"
  have "0 \<le> m" "m < 86400000" "0 \<le> m'" "m' < 86400000" using a(4) b(4) by (auto simp: m_def m'_def)
  note lex = lex_step [OF this, of "ymd2ord c - epoch_ordinal" "ymd2ord c' - epoch_ordinal"]
  have "c < c' \<longleftrightarrow> ymd2ord c < ymd2ord c'"
    using ymd2ord_mono [OF a(2) b(2)] ymd2ord_mono [OF b(2) a(2)] by (cases c c' rule: linorder_cases) auto
  moreover have "c = c' \<longleftrightarrow> ymd2ord c = ymd2ord c'" using ymd2ord_inject [OF a(2) b(2)] by simp
  moreover have "text_le (ms_text a @ u) (ms_text b @ v) \<longleftrightarrow> c < c' \<or> c = c' \<and> (m < m' \<or> m = m' \<and> text_le u v)"
    unfolding ms_text_parts [OF a(1,3)] ms_text_parts [OF b(1,3)] append_assoc text_le_date [OF a(2) b(2)]
    using text_le_clock [OF a(4) b(4) m_def m'_def, of u v] by simp
  ultimately show ?thesis using lex a(5) b(5) by (simp add: m_def m'_def) blast
qed

section \<open>Microseconds behind milliseconds\<close>

lemma decimal_value_Nil [simp]: "decimal_value [] = 0"
  by (simp add: decimal_value_def)

lemma decimal_value_append: "decimal_value (u @ v) = decimal_value u * 10 ^ length v + decimal_value v"
  by (induction u) (simp_all add: decimal_value_Cons power_add algebra_simps)

lemma digits_unique:
  "list_all is_decimal u \<Longrightarrow> list_all is_decimal v \<Longrightarrow> length u = length v \<Longrightarrow> decimal_value u = decimal_value v \<Longrightarrow> u = v"
proof (induction u arbitrary: v)
  case (Cons c u)
  then obtain d v' where v: "v = d # v'" "length u = length v'" by (cases v) auto
  have b: "0 \<le> decimal_value u" "decimal_value u < 10 ^ length v'" "0 \<le> decimal_value v'" "decimal_value v' < 10 ^ length v'"
    using Cons.prems v decimal_value_bounds [of u] decimal_value_bounds [of v'] by simp_all
  have "(int (code c) - 48) * 10 ^ length v' + decimal_value u = (int (code d) - 48) * 10 ^ length v' + decimal_value v'"
    using Cons.prems(4) unfolding v(1) decimal_value_Cons v(2) .
  then have "int (code c) - 48 = int (code d) - 48 \<and> decimal_value u = decimal_value v'"
    by (simp only: lex_step(2) [OF b])
  then have c: "code c = code d" and u: "decimal_value u = decimal_value v'" by simp_all
  have "u = v'" using Cons.prems(1,2) v(2) u unfolding v(1) by (intro Cons.IH) simp_all
  with c show ?case unfolding v(1) code_inject by simp
qed simp

lemma zero_pad_split:
  assumes "0 \<le> x" and "x < 1000000"
  shows "zero_pad 6 x = zero_pad 3 (x div 1000) @ zero_pad 3 (x mod 1000)"
proof (rule digits_unique)
  have six: "length (zero_pad 6 x) = 6" "list_all is_decimal (zero_pad 6 x)" "decimal_value (zero_pad 6 x) = x"
    using zero_pad_ok [of x 5] assms by simp_all
  have three: "length (zero_pad 3 y) = 3" "list_all is_decimal (zero_pad 3 y)" "decimal_value (zero_pad 3 y) = y"
    if "0 \<le> y" "y < 1000" for y
    using zero_pad_ok [of y 2] that by simp_all
  have y: "0 \<le> x div 1000" "x div 1000 < 1000" "0 \<le> x mod 1000" "x mod 1000 < 1000" using assms by simp_all
  show "list_all is_decimal (zero_pad 6 x)" by (rule six)
  show "list_all is_decimal (zero_pad 3 (x div 1000) @ zero_pad 3 (x mod 1000))"
    "length (zero_pad 6 x) = length (zero_pad 3 (x div 1000) @ zero_pad 3 (x mod 1000))"
    "decimal_value (zero_pad 6 x) = decimal_value (zero_pad 3 (x div 1000) @ zero_pad 3 (x mod 1000))"
    using three [OF y(1,2)] three [OF y(3,4)] six by (simp_all add: decimal_value_append)
qed

lemma wall_of_ms:
  "date_of_wall (1000 * (us div 1000)) = date_of_wall us"
  "time_of_wall us = (h, mi, s, f) \<Longrightarrow> time_of_wall (1000 * (us div 1000)) = (h, mi, s, 1000 * (f div 1000)) \<and> f mod 1000 = us mod 1000"
proof -
  have "86400000000 * (us div 86400000000) \<le> us" "us < 86400000000 * (us div 86400000000) + 86400000000"
    by simp_all
  define day r where "day = us div 86400000000" and "r = us mod 86400000000"
  have us: "us = day * 86400000000 + r" "0 \<le> r" "r < 86400000000" by (simp_all add: day_def r_def)
  have "us div 1000 = day * 86400000 + r div 1000" by (subst us(1)) simp
  then have w: "1000 * (us div 1000) = day * 86400000000 + 1000 * (r div 1000)" by simp
  have r': "0 \<le> 1000 * (r div 1000)" "1000 * (r div 1000) < 86400000000" using us(2,3) by simp_all
  have div: "1000 * (us div 1000) div 86400000000 = day" "1000 * (us div 1000) mod 86400000000 = 1000 * (r div 1000)"
    unfolding w using r' by simp_all
  then show "date_of_wall (1000 * (us div 1000)) = date_of_wall us"
    by (simp add: date_of_wall_def micros_per_day_def day_def)
  assume t: "time_of_wall us = (h, mi, s, f)"
  have "1000 * (r div 1000) div 1000000 = r div 1000000" by simp
  moreover have "1000 * (r div 1000) mod 1000000 = 1000 * (r mod 1000000 div 1000)"
  proof -
    have "r mod (1000 * 1000) = 1000 * (r div 1000 mod 1000) + r mod 1000" by (rule zmod_zmult2_eq) simp
    then have e: "r mod 1000000 = 1000 * (r div 1000 mod 1000) + r mod 1000" by simp
    have "0 \<le> r mod 1000" "r mod 1000 < 1000" by simp_all
    from int_div_pos_eq [OF e this] have "r mod 1000000 div 1000 = r div 1000 mod 1000" .
    moreover have "1000 * (r div 1000) mod (1000 * 1000) = 1000 * (r div 1000 mod 1000)" by (rule mult_mod_right [symmetric])
    ultimately show ?thesis by simp
  qed
  moreover have "r mod 1000000 mod 1000 = us mod 1000"
  proof -
    have "us = r + 1000 * (day * 86400000)" unfolding us(1) by simp
    then have "us mod 1000 = r mod 1000" by (simp only: mod_mult_self2)
    moreover have "r mod 1000000 mod 1000 = r mod 1000" by (rule mod_mod_cancel) simp
    ultimately show ?thesis by simp
  qed
  moreover have "h = r div 1000000 div 3600" "mi = r div 1000000 div 60 mod 60" "s = r div 1000000 mod 60" "f = r mod 1000000"
    using t unfolding time_of_wall_def Let_def micros_per_day_def r_def by simp_all
  ultimately show "time_of_wall (1000 * (us div 1000)) = (h, mi, s, 1000 * (f div 1000)) \<and> f mod 1000 = us mod 1000"
    unfolding time_of_wall_def Let_def micros_per_day_def div(2) by (simp only: prod.inject simp_thms)
qed

lemma sqlite_text_ms:
  assumes "in_range us"
  shows "sqlite_text us = ms_text (us div 1000) @ zero_pad 3 (us mod 1000)"
proof -
  obtain h mi s f where t: "time_of_wall us = (h, mi, s, f)" "0 \<le> f" "f \<le> 999999" using wall_fields(3) [OF assms] by blast
  obtain y m d where c: "date_of_wall us = Civil y m d" by (cases "date_of_wall us")
  show ?thesis
    using wall_of_ms(1) [of us] wall_of_ms(2) [OF t(1)] t(2,3)
    by (simp add: sqlite_text_def wall_text_def ms_text_def c t(1) zero_pad_split)
qed

lemma in_range_ms: "in_range us \<Longrightarrow> ms_in_range (us div 1000)"
proof -
  assume "in_range us"
  then have us: "-62135596800000000 \<le> us" "us \<le> 253402300799999999" by (simp_all add: in_range_def min_wall_def max_wall_def)
  have "-62135596800000 \<le> us div 1000" using zdiv_mono1 [OF us(1), of 1000] by simp
  moreover have "us div 1000 \<le> 253402300799999" using zdiv_mono1 [OF us(2), of 1000] by simp
  ultimately show ?thesis by (simp add: ms_in_range_def in_range_def min_wall_def max_wall_def)
qed

lemma text_order:
  assumes "in_range a" and "in_range b"
  shows "text_le (sqlite_text a) (sqlite_text b) \<longleftrightarrow> a \<le> b"
proof -
  have "text_le (zero_pad 3 (a mod 1000) @ []) (zero_pad 3 (b mod 1000) @ []) \<longleftrightarrow>
      a mod 1000 < b mod 1000 \<or> a mod 1000 = b mod 1000 \<and> text_le [] []"
    by (rule text_le_pad) simp_all
  then have "text_le (sqlite_text a) (sqlite_text b) \<longleftrightarrow>
      a div 1000 < b div 1000 \<or> a div 1000 = b div 1000 \<and> a mod 1000 \<le> b mod 1000"
    unfolding sqlite_text_ms [OF assms(1)] sqlite_text_ms [OF assms(2)] text_le_ms [OF in_range_ms [OF assms(1)] in_range_ms [OF assms(2)]]
    by auto
  also have "\<dots> \<longleftrightarrow> a \<le> b"
    using lex_step [of "b mod 1000" 1000 "a mod 1000" "b div 1000" "a div 1000"] by (simp add: not_less [symmetric]) auto
  finally show ?thesis .
qed

lemma text_after_ms:
  assumes "ms_in_range m" and "in_range us"
  shows "text_le (ms_text m) (sqlite_text us) \<longleftrightarrow> 1000 * m \<le> us"
    and "text_le (sqlite_text us) (ms_text m) \<longleftrightarrow> us < 1000 * m"
proof -
  have "zero_pad 3 (us mod 1000) \<noteq> []" using zero_pad_ok(1) [of "us mod 1000" 2] by auto
  then have "\<not> text_le (zero_pad 3 (us mod 1000)) []" by (cases "zero_pad 3 (us mod 1000)") auto
  then show "text_le (ms_text m) (sqlite_text us) \<longleftrightarrow> 1000 * m \<le> us" "text_le (sqlite_text us) (ms_text m) \<longleftrightarrow> us < 1000 * m"
    using text_le_ms [OF assms(1) in_range_ms [OF assms(2)], of "[]"] text_le_ms [OF in_range_ms [OF assms(2)] assms(1), of _ "[]"]
    by (auto simp: sqlite_text_ms [OF assms(2)])
qed

end
