(* ===== verification/TextQuery.thy ===== *)
theory TextQuery
  imports SqlQuery TextOrder
begin

text \<open>
  Queries of a read-only SQLite store over a file whose timestamps are still texts
  (\<open>_text_timestamps\<close> of src/knx_telegram_store/backends/sqlite.py, and \<open>_text_timestamp\<close> and the
  branches of \<open>query\<close> that use it in src/knx_telegram_store/backends/base_sql.py).
\<close>

section \<open>The query\<close>

text \<open>\<open>_text_timestamps\<close>: \<open>converted\<close> is the outcome of reading the flag; once seen it is not read again.\<close>

definition text_timestamps :: "exc + bool \<Rightarrow> bool \<Rightarrow> bool \<Rightarrow> (exc + bool) \<times> bool" where
  "text_timestamps converted read_only seen =
     (if \<not> read_only \<or> seen then (Inr False, seen)
      else (case converted of Inl e \<Rightarrow> (Inl e, seen) | Inr c \<Rightarrow> (Inr (\<not> c), seen \<or> c)))"

definition text_timestamp :: "datetime_env \<Rightarrow> datetime \<Rightarrow> exc + string" where
  "text_timestamp env v =
     bind_res (if utcoffset v \<noteq> None then astimezone_utc v else Inr v) (\<lambda>v.
       Inr (wall_text (de_year env) (CHR '' '') (wall v)))"

text \<open>
  SQLite's \<open>strftime\<close> with milliseconds, of a value shifted back or ahead by milliseconds, is the
  argument \<open>shift\<close>; None is NULL. \<open>column\<close> gives the cell of a row, whose instant is \<open>r_timestamp\<close>.
\<close>

type_synonym sqlite_shift = "bool \<Rightarrow> int \<Rightarrow> column_value \<Rightarrow> string option"

fun bind_text_condition ::
  "datetime_env \<Rightarrow> (telegram_row \<Rightarrow> column_value) \<Rightarrow> condition \<Rightarrow> exc + (telegram_row \<Rightarrow> bool)"
where
  "bind_text_condition env column (Holds p) = Inr p"
| "bind_text_condition env column (Since st) =
     bind_res (text_timestamp env st) (\<lambda>t. Inr (\<lambda>r. value_le (TextValue t) (column r)))"
| "bind_text_condition env column (Until en) =
     bind_res (text_timestamp env en) (\<lambda>t. Inr (\<lambda>r. value_le (column r) (TextValue t)))"

definition exists_text_pivot ::
  "sqlite_shift \<Rightarrow> (telegram_row \<Rightarrow> column_value) \<Rightarrow> int \<Rightarrow> int \<Rightarrow> column_value list \<Rightarrow> telegram_row \<Rightarrow> bool"
where
  "exists_text_pivot shift column before after pivots r =
     list_ex (\<lambda>p. (case shift False before p of None \<Rightarrow> False | Some t \<Rightarrow> value_le (TextValue t) (column r)) \<and>
       (case shift True after p of None \<Rightarrow> False | Some t \<Rightarrow> value_le (column r) (TextValue t))) pivots"

definition text_where_clause ::
  "datetime_env \<Rightarrow> sqlite_shift \<Rightarrow> (telegram_row \<Rightarrow> column_value) \<Rightarrow> sql_store \<Rightarrow> telegram_query \<Rightarrow>
   exc + (telegram_row \<Rightarrow> bool)"
where
  "text_where_clause env shift column s q =
     (let db = sql_db s; filters = sql_filters (string_lookup db) q in
      bind_res (map_res (bind_text_condition env column) filters) (\<lambda>conds.
        if (0 < delta_before_ms q \<or> 0 < delta_after_ms q) \<and> filters \<noteq> []
        then Inr (exists_text_pivot shift column (delta_before_ms q) (delta_after_ms q)
               (map column (filter (all_hold conds) (telegrams db))))
        else Inr (all_hold conds)))"

text \<open>ORDER BY: the position of a value among those of the table, by how many are smaller.\<close>

definition value_key :: "column_value list \<Rightarrow> bool \<Rightarrow> column_value \<Rightarrow> int" where
  "value_key vs descending v =
     (let n = int (length (filter (\<lambda>u. \<not> value_le v u) vs)) in if descending then - n else n)"

text \<open>A text comes back as the datetime it spells, in UTC.\<close>

definition text_result_time :: "datetime_env \<Rightarrow> column_value \<Rightarrow> exc + datetime" where
  "text_result_time env v = (case v of
     IntValue us \<Rightarrow> micros_to_datetime us
   | TextValue t \<Rightarrow> bind_res (fromisoformat env t) (\<lambda>d. Inr (Datetime (wall d) (Some 0))))"

definition text_query ::
  "datetime_env \<Rightarrow> sqlite_shift \<Rightarrow> (telegram_row \<Rightarrow> column_value) \<Rightarrow> sql_engine \<Rightarrow> sql_store \<Rightarrow> telegram_query \<Rightarrow>
   exc + telegram_query_result"
where
  "text_query env shift column eng s q = wrap_store_errors
     (let db = sql_db s;
          key = (\<lambda>r. value_key (map column (telegrams db)) (order_descending q) (column r)) in
      bind_res (text_where_clause env shift column s q) (\<lambda>cond.
      bind_res (execute eng db (SelectRows [limit q, offset q])) (\<lambda>_.
        let total = int (length (filter cond (telegrams db)));
            paged = limit_offset (limit q) (offset q) (order_by eng key (filter cond (telegrams db)));
            rows = order_by eng key paged
        in bind_res (map_res (\<lambda>r. bind_res (text_result_time env (column r)) (\<lambda>ts.
             Inr ((row_telegram (string_lookup db) r)\<lparr>timestamp := ts\<rparr>))) rows) (\<lambda>ts.
             Inr \<lparr>res_telegrams = ts, total_count = total, limit_reached = (total > offset q + limit q)\<rparr>))))"

text \<open>\<open>query\<close> of a SQLite store, and whether the flag has been seen.\<close>

definition sqlite_query ::
  "datetime_env \<Rightarrow> sqlite_shift \<Rightarrow> (telegram_row \<Rightarrow> column_value) \<Rightarrow> sql_engine \<Rightarrow> exc + bool \<Rightarrow> bool \<Rightarrow> sql_store \<Rightarrow>
   telegram_query \<Rightarrow> (exc + telegram_query_result) \<times> bool"
where
  "sqlite_query env shift column eng converted seen s q =
     (case text_timestamps converted (sql_read_only s) seen of
        (Inl e, seen) \<Rightarrow> (wrap_store_errors (Inl e), seen)
      | (Inr texts, seen) \<Rightarrow>
          (if texts then text_query env shift column eng s q else sql_query eng s q, seen))"

section \<open>A file of texts answers as one of integers\<close>

text \<open>A file as earlier versions wrote it.\<close>

definition text_column :: "telegram_row \<Rightarrow> column_value" where
  "text_column r = TextValue (sqlite_text (r_timestamp r))"

definition text_bounds_ok :: "telegram_query \<Rightarrow> bool" where
  "text_bounds_ok q \<longleftrightarrow> bounds_ok q \<and>
     (\<forall>d \<in> set_option (start_time q) \<union> set_option (end_time q). year_1000 \<le> instant d)"

lemma text_timestamp_Inr:
  assumes "wf_years env" and "in_range (instant d)" and "year_1000 \<le> instant d"
  shows "text_timestamp env d = Inr (sqlite_text (instant d))"
  using assms wall_text_years [OF assms, of "CHR '' ''"]
  by (cases "utcoffset d") (auto simp: text_timestamp_def astimezone_utc_def sqlite_text_def instant_def)

lemma text_conditions_Inr:
  assumes "wf_years env" and "text_bounds_ok q"
  shows "\<exists>conds. map_res (bind_text_condition env text_column) (sql_filters table q) = Inr conds \<and>
    (\<forall>r. in_range (r_timestamp r) \<longrightarrow> all_hold conds r = all_hold (map holds (sql_filters table q)) r)"
proof -
  let ?g = "\<lambda>c. case c of Holds p \<Rightarrow> p | Since st \<Rightarrow> (\<lambda>r. value_le (TextValue (sqlite_text (instant st))) (text_column r))
    | Until en \<Rightarrow> (\<lambda>r. value_le (text_column r) (TextValue (sqlite_text (instant en))))"
  have ok: "in_range (instant d)" "year_1000 \<le> instant d" if "Since d \<in> set (sql_filters table q) \<or> Until d \<in> set (sql_filters table q)" for d
    using that assms(2)
    by (auto simp: sql_filters_def id_filter_def text_bounds_ok_def bounds_ok_def split: if_splits option.splits)
  have "bind_text_condition env text_column c = Inr (?g c)" if "c \<in> set (sql_filters table q)" for c
    by (insert that ok text_timestamp_Inr [OF assms(1)], cases c) simp_all
  then have "map_res (bind_text_condition env text_column) (sql_filters table q) = Inr (map ?g (sql_filters table q))"
    by (rule map_res_Inr)
  moreover have "?g c r = holds c r" if "c \<in> set (sql_filters table q)" "in_range (r_timestamp r)" for c r
    by (insert that ok, cases c) (simp_all add: holds_def text_column_def text_order)
  ultimately show ?thesis by (auto simp: all_hold_def list_all_iff)
qed

text \<open>Positions sort as any order the values agree with.\<close>

lemma value_key_sorted:
  assumes agree: "\<And>r u. r \<in> set rows \<Longrightarrow> u \<in> set rows \<Longrightarrow> value_le (column r) (column u) \<longleftrightarrow> time r \<le> (time u :: int)"
    and "set xs \<subseteq> set rows" and "sorted (map (\<lambda>r. value_key (map column rows) desc (column r)) xs)"
  shows "sorted (map (\<lambda>r. if desc then - time r else time r) xs)"
proof -
  let ?n = "\<lambda>r. length (filter (\<lambda>u. time u < time r) rows)"
  have key: "value_key (map column rows) desc (column r) = (if desc then - int (?n r) else int (?n r))" if "r \<in> set rows" for r
  proof -
    have "filter (\<lambda>u. \<not> value_le (column r) (column u)) rows = filter (\<lambda>u. time u < time r) rows"
      using that agree by (intro filter_cong) auto
    then show ?thesis by (simp add: value_key_def Let_def filter_map comp_def)
  qed
  have less: "?n r < ?n u" if "r \<in> set rows" "u \<in> set rows" "time r < time u" for r u
  proof -
    have sub: "filter (\<lambda>v. time v < time r) rows = filter (\<lambda>v. time v < time r) (filter (\<lambda>v. time v < time u) rows)"
      using that(3) by (auto intro: filter_cong)
    show ?thesis
      unfolding sub using that by (intro length_filter_less [of r]) simp_all
  qed
  have "(if desc then - time r else time r) \<le> (if desc then - time u else time u)"
    if "r \<in> set rows" "u \<in> set rows" "value_key (map column rows) desc (column r) \<le> value_key (map column rows) desc (column u)" for r u
    using that key [OF that(1)] key [OF that(2)] less [OF that(1,2)] less [OF that(2,1)]
    by (cases "time r" "time u" rule: linorder_cases; cases desc) auto
  then show ?thesis using assms(2,3) by (induction xs) auto
qed

lemma text_key_sorted:
  assumes "\<forall>r \<in> set rows. in_range (r_timestamp r)" and "set xs \<subseteq> set rows"
    and "sorted (map (\<lambda>r. value_key (map text_column rows) desc (text_column r)) xs)"
  shows "sorted (map (row_key desc) xs)"
  using value_key_sorted [where time = r_timestamp, OF _ assms(2,3)] assms(1)
  by (simp add: text_column_def text_order row_key_def [abs_def])

lemma text_where_selects:
  assumes "wf_years env" and "text_bounds_ok q" and inv: "sql_inv s" and off: "\<not> window_on q"
  shows "\<exists>p. text_where_clause env shift text_column s q = Inr p \<and>
    (\<forall>r \<in> set (telegrams (sql_db s)). p r \<longleftrightarrow> selects q (contents s) (row_telegram (string_lookup (sql_db s)) r))"
proof -
  let ?tb = "string_lookup (sql_db s)"
  obtain conds where conds: "map_res (bind_text_condition env text_column) (sql_filters ?tb q) = Inr conds"
    "\<forall>r. in_range (r_timestamp r) \<longrightarrow> all_hold conds r = all_hold (map holds (sql_filters ?tb q)) r"
    using text_conditions_Inr [OF assms(1,2)] by blast
  have "all_hold conds r \<longleftrightarrow> selects q (contents s) (row_telegram ?tb r)" if "r \<in> set (telegrams (sql_db s))" for r
    using conds(2) filters_match [OF sql_invD(1) [OF inv]] sql_invD(3) [OF inv that] off
    by (simp add: row_ok_def selects_def)
  moreover have "text_where_clause env shift text_column s q = Inr (all_hold conds)"
    using conds(1) off by (simp add: text_where_clause_def window_on_def)
  ultimately show ?thesis by blast
qed

lemma text_result: "in_range (r_timestamp r) \<Longrightarrow> text_result_time env (text_column r) = Inr (Datetime (r_timestamp r) (Some 0))"
  using fromisoformat_text [of "r_timestamp r" "[]" None env "CHR '' ''"]
  by (simp add: text_result_time_def text_column_def sqlite_text_def iso_offset_def)

lemma text_query_answers:
  assumes "wf_years env" and "text_bounds_ok q" and wf: "wf_engine eng" and acc: "accepting eng" and inv: "sql_inv s"
    and q: "wf_query q" and off: "\<not> window_on q"
  shows "\<exists>r. text_query env shift text_column eng s q = Inr r \<and> answers q (contents s) r"
proof -
  let ?tb = "string_lookup (sql_db s)" and ?rows = "telegrams (sql_db s)"
  let ?rt = "row_telegram ?tb" and ?key = "\<lambda>r. value_key (map text_column ?rows) (order_descending q) (text_column r)"
  obtain p where p: "text_where_clause env shift text_column s q = Inr p"
    "\<forall>r \<in> set ?rows. p r \<longleftrightarrow> selects q (contents s) (?rt r)"
    using text_where_selects [OF assms(1,2) inv off] by blast
  let ?os = "order_by eng ?key (filter p ?rows)"
  let ?out = "order_by eng ?key (page q ?os)" and ?total = "int (length (filter p ?rows))"
  let ?r = "\<lparr>res_telegrams = map ?rt ?out, total_count = ?total, limit_reached = (?total > offset q + limit q)\<rparr>"
  have rng: "\<forall>r \<in> set ?rows. in_range (r_timestamp r)" using sql_invD(3) [OF inv] by (simp add: row_ok_def)
  from page_answers [OF wf p(2) text_key_sorted [OF rng] refl refl refl]
  have ans: "set ?out \<subseteq> set ?rows" "answers q (contents s) ?r" by auto
  have "map_res (\<lambda>r. bind_res (text_result_time env (text_column r)) (\<lambda>ts. Inr ((?rt r)\<lparr>timestamp := ts\<rparr>))) ?out =
      Inr (map ?rt ?out)"
    using ans(1) rng by (intro map_res_Inr) (auto simp: text_result row_telegram_def)
  moreover have "limit_offset (limit q) (offset q) ?os = page q ?os" using q by (rule limit_offset_page)
  ultimately have "text_query env shift text_column eng s q = Inr ?r"
    using p(1) acc by (simp add: text_query_def Let_def)
  with ans(2) show ?thesis by blast
qed

end
