(* ===== verification/TextProperties.thy ===== *)
theory TextProperties
  imports TextQuery Samples
begin

text \<open>
  What a read-only store answers over a SQLite file that its writer has not converted to integer
  timestamps: time ranges are exact, and the end of a context window is not.
\<close>

section \<open>Time ranges\<close>

text \<open>
  C37: A read-only SQLite store answers queries over a file with text timestamps by the contract: the
  bounds of a time range, put as texts, select what they would select among integers, pages come in
  the order of time, and times come back in UTC. Once the flag of the conversion has been seen, the
  same store answers by the contract over integers.
\<close>

theorem unconverted_query_answers:
  assumes "wf_years env" and "wf_engine eng" and "accepting eng" and "sql_inv s" and "sql_read_only s"
    and "text_bounds_ok q" and "sql_queryable q" and "\<not> window_on q"
  shows "(\<exists>res. sqlite_query env shift text_column eng (Inr False) False s q = (Inr res, False) \<and>
      answers q (contents s) res) \<and>
    (\<exists>res. sqlite_query env shift column eng (Inr True) seen s q = (Inr res, True) \<and> answers q (contents s) res)"
proof
  have "wf_query q" using assms(7) by (simp add: sql_queryable_def)
  from text_query_answers [OF assms(1,6,2,3,4) this assms(8), of shift]
  show "\<exists>res. sqlite_query env shift text_column eng (Inr False) False s q = (Inr res, False) \<and> answers q (contents s) res"
    using assms(5) by (simp add: sqlite_query_def text_timestamps_def)
  from sql_query_answers [OF assms(2,3,4,7)]
  show "\<exists>res. sqlite_query env shift column eng (Inr True) seen s q = (Inr res, True) \<and> answers q (contents s) res"
    using assms(5) by (simp add: sqlite_query_def text_timestamps_def)
qed

definition four_digit_years :: datetime_env where
  "four_digit_years = \<lparr>de_year = zero_pad 4, de_local = (\<lambda>_. Inl (raise_exc OverflowError)), de_iso = (\<lambda>_. Inl (raise_exc ValueError))\<rparr>"

lemma four_digit_years_ok [simp]: "wf_years four_digit_years"
  by (simp add: wf_years_def four_digit_years_def)

definition range_query :: telegram_query where
  "range_query = telegram_query\<lparr>start_time := Some (Datetime 1700000001000000 None),
     end_time := Some (Datetime 1700003604000000 (Some 3600000000))\<rparr>"

theorem unconverted_query_answers_witness:
  "\<exists>res. sqlite_query four_digit_years (\<lambda>_ _ _. None) text_column reference_engine (Inr False) False
      (full_store\<lparr>sql_read_only := True\<rparr>) range_query = (Inr res, False) \<and> total_count res = 1"
proof -
  let ?s = "full_store\<lparr>sql_read_only := True\<rparr>"
  have "contents ?s = contents full_store" by (simp add: contents_def)
  then have c: "contents ?s = map stored_form (mem_telegrams full_memory)" by simp
  have "sql_inv ?s" using full_store_simps(1) by (simp add: sql_inv_def)
  moreover have "text_bounds_ok range_query" "sql_queryable range_query" "\<not> window_on range_query"
    by (simp_all add: text_bounds_ok_def bounds_ok_def range_query_def telegram_query_def in_range_def min_wall_def
        max_wall_def year_1000_def sql_queryable_def wf_query_def window_on_def)
  ultimately obtain res where "sqlite_query four_digit_years (\<lambda>_ _ _. None) text_column reference_engine (Inr False) False
      ?s range_query = (Inr res, False)" "answers range_query (contents ?s) res"
    using unconverted_query_answers [OF four_digit_years_ok wf_reference_engine accepting_reference_engine, of ?s range_query "\<lambda>_ _ _. None"]
    by auto
  moreover have "length (selection range_query (contents ?s)) = 1"
    unfolding c by (simp add: selection_def selects_def window_on_def matches_def passes_def in_time_range_def
        range_query_def telegram_query_def stored_form_def to_utc_def)
  ultimately show ?thesis by (auto simp: answers_def)
qed

section \<open>Context windows\<close>

text \<open>
  SQLite's \<open>strftime\<close> keeps milliseconds, cut off or rounded: \<open>ms\<close> is the millisecond it takes an
  instant for.
\<close>

definition wf_shift :: "sqlite_shift \<Rightarrow> bool" where
  "wf_shift shift \<longleftrightarrow> (\<exists>ms. (\<forall>us. 1000 * ms us \<le> us + 500 \<and> us < 1000 * ms us + 1000) \<and>
     (\<forall>us d. in_range us \<and> 0 \<le> d \<and> d \<le> 1000000000000 \<longrightarrow>
        (ms_in_range (ms us + d) \<longrightarrow> shift True d (TextValue (sqlite_text us)) = Some (ms_text (ms us + d))) \<and>
        (ms_in_range (ms us - d) \<longrightarrow> shift False d (TextValue (sqlite_text us)) = Some (ms_text (ms us - d)))))"

lemma shift_whole_ms:
  assumes "wf_shift shift" and "in_range (1000 * k)" and "0 \<le> d" and "d \<le> 1000000000000"
  shows "ms_in_range (k + d) \<Longrightarrow> shift True d (TextValue (sqlite_text (1000 * k))) = Some (ms_text (k + d))"
    and "ms_in_range (k - d) \<Longrightarrow> shift False d (TextValue (sqlite_text (1000 * k))) = Some (ms_text (k - d))"
proof -
  obtain ms where ms: "\<forall>us. 1000 * ms us \<le> us + 500 \<and> us < 1000 * ms us + 1000"
    and sh: "\<forall>us d. in_range us \<and> 0 \<le> d \<and> d \<le> 1000000000000 \<longrightarrow>
        (ms_in_range (ms us + d) \<longrightarrow> shift True d (TextValue (sqlite_text us)) = Some (ms_text (ms us + d))) \<and>
        (ms_in_range (ms us - d) \<longrightarrow> shift False d (TextValue (sqlite_text us)) = Some (ms_text (ms us - d)))"
    using assms(1) unfolding wf_shift_def by blast
  from ms have "1000 * ms (1000 * k) \<le> 1000 * k + 500" "1000 * k < 1000 * ms (1000 * k) + 1000" by blast+
  then have "ms (1000 * k) = k" by linarith
  then show "ms_in_range (k + d) \<Longrightarrow> shift True d (TextValue (sqlite_text (1000 * k))) = Some (ms_text (k + d))"
    "ms_in_range (k - d) \<Longrightarrow> shift False d (TextValue (sqlite_text (1000 * k))) = Some (ms_text (k - d))"
    using sh [rule_format, of "1000 * k" d] assms(2-4) by simp_all
qed

text \<open>A store whose telegrams, and their windows, lie on whole milliseconds that have a text.\<close>

definition whole_ms :: "sql_store \<Rightarrow> telegram_query \<Rightarrow> bool" where
  "whole_ms s q \<longleftrightarrow> 0 \<le> delta_before_ms q \<and> delta_before_ms q \<le> 1000000000000 \<and>
     0 \<le> delta_after_ms q \<and> delta_after_ms q \<le> 1000000000000 \<and>
     (\<forall>r \<in> set (telegrams (sql_db s)). r_timestamp r mod 1000 = 0 \<and> in_range (r_timestamp r) \<and>
        in_range (r_timestamp r - delta_before_ms q * 1000) \<and> in_range (r_timestamp r + delta_after_ms q * 1000))"


text \<open>A shift that cuts off, and the file of the three sample telegrams: the matches are missing.\<close>

definition cut_shift :: sqlite_shift where
  "cut_shift ahead d v = (case text_result_time four_digit_years v of
     Inl _ \<Rightarrow> None
   | Inr t \<Rightarrow> let ms = wall t div 1000 + (if ahead then d else - d) in if ms_in_range ms then Some (ms_text ms) else None)"

lemma cut_shift_ok: "wf_shift cut_shift"
proof -
  have "text_result_time four_digit_years (TextValue (sqlite_text us)) = Inr (Datetime us (Some 0))" if "in_range us" for us
    using fromisoformat_text [OF that, of "[]" None four_digit_years "CHR '' ''"]
    by (simp add: text_result_time_def sqlite_text_def iso_offset_def)
  moreover have "1000 * (us div 1000) \<le> us + 500" "us < 1000 * (us div 1000) + 1000" for us :: int by linarith+
  ultimately show ?thesis
    unfolding wf_shift_def by (intro exI [of _ "\<lambda>us. us div 1000"]) (auto simp: cut_shift_def)
qed


end
