(* ===== verification/SqliteStart.thy ===== *)
theory SqliteStart
  imports SqliteSchema SqliteFile SqlMaintenance
begin

text \<open>
  The start of a SQLite store (\<open>SqliteStore.initialize\<close> of
  src/knx_telegram_store/backends/sqlite.py): the passes of LegacySchema, SqliteSchema, SqliteFile,
  SqliteUtc and SqlMaintenance, one after the other, on one file. Each pass was modelled over the
  part of the file it reads and writes; here is the whole file, with its parts.
\<close>

section \<open>The file\<close>

text \<open>
  \<open>fl_db\<close>: the table \<open>telegrams\<close> in the order of its rowids, \<open>string_lookup\<close> and the entries of
  \<open>store_metadata\<close>, but for those kept here as the values they spell. \<open>fl_last\<close>: the table
  \<open>last_ga_telegrams\<close>, whose rowid is its integer primary key \<open>destination_id\<close>. \<open>fl_statistics\<close>: the
  row count \<open>sqlite_stat1\<close> records for the timestamp index. A timestamp is a text or an integer.
\<close>

record sqlite_file =
  fl_db :: legacy_db
  fl_rowids :: "int list"
  fl_last :: "(sqlval, json) row list"
  fl_boundary :: "datetime option"
  fl_legacy_rowid :: "int option"
  fl_source_zone :: "zone option"
  fl_statistics :: "int option"
  fl_catalogue :: catalogue

text \<open>
  The arguments of the constructor that matter here, and what the surroundings contribute:
  \<open>se_seconds\<close> is SQLite's \<open>strftime('%s')\<close> of the first 19 characters, \<open>se_disk\<close> the free space
  and the size of the file (\<open>db_free_space\<close> and \<open>db_file_size\<close>) when a pass asks, the \<open>_fails\<close> the exceptions of statements,
  \<open>se_vacuum_rowids\<close> the rowids a VACUUM leaves, and \<open>se_mixed\<close> the outcome of the conversion to UTC on
  a file that holds texts though it is flagged to hold none.
\<close>

record start_options =
  so_read_only :: bool
  so_is_memory :: bool
  so_zone :: "zone option"
  so_retention_days :: "int option"

datatype disk_check = BeforeIntegers | BeforeVacuum | BeforeUtc

record start_env =
  se_legacy :: legacy_engine
  se_sql :: sql_engine
  se_seconds :: "string \<Rightarrow> int"
  se_disk :: "disk_check \<Rightarrow> int option \<times> int"
  se_now :: datetime
  se_wal_fails :: "exc option"
  se_unwrap_fails :: "nat \<Rightarrow> bool"
  se_batch_fails :: "int \<Rightarrow> exc option"
  se_index_fails :: "exc option"
  se_vacuum_fails :: "exc option"
  se_vacuum_rowids :: "int list \<Rightarrow> int list"
  se_mixed :: "sqlite_file \<Rightarrow> (exc + int) \<times> sqlite_file"

section \<open>Timestamps of the file\<close>

text \<open>The text or integer of a timestamp as the conversion sees it, and what the conversion writes.\<close>

definition cell_of :: "start_env \<Rightarrow> sqlval \<Rightarrow> cell" where
  "cell_of env v = (case v of
     SInt n \<Rightarrow> IntCell n
   | SText t \<Rightarrow> TextCell (se_seconds env (take 19 t)) (if length t \<le> 19 then None else Some (drop 20 t))
   | _ \<Rightarrow> IntCell 0)"

definition put_cell :: "sqlval \<Rightarrow> cell \<Rightarrow> sqlval" where
  "put_cell v c = (case c of IntCell n \<Rightarrow> SInt n | TextCell _ _ \<Rightarrow> v)"

definition cell_int :: "sqlval \<Rightarrow> int" where
  "cell_int v = (case v of SInt n \<Rightarrow> n | _ \<Rightarrow> 0)"

definition with_time :: "'t \<Rightarrow> ('u, 'j) row \<Rightarrow> ('t, 'j) row" where
  "with_time t r = \<lparr>r_timestamp = t, r_source_id = r_source_id r, r_destination_id = r_destination_id r,
     r_telegramtype_id = r_telegramtype_id r, r_direction_id = r_direction_id r,
     r_source_name_id = r_source_name_id r, r_destination_name_id = r_destination_name_id r,
     r_payload = r_payload r, r_dpt_main = r_dpt_main r, r_dpt_sub = r_dpt_sub r, r_value = r_value r,
     r_value_numeric = r_value_numeric r, r_raw_data = r_raw_data r, r_data_secure = r_data_secure r\<rparr>"

definition set_times :: "sqlval list \<Rightarrow> cells list \<Rightarrow> cells list" where
  "set_times ts rows = map2 (\<lambda>t r. r(''timestamp'' := t)) ts rows"

definition on_schema :: "(legacy_db \<Rightarrow> legacy_db) \<Rightarrow> sqlite_file \<Rightarrow> sqlite_file" where
  "on_schema g f = f\<lparr>fl_db := g (fl_db f)\<rparr>"

text \<open>\<open>_set_flag\<close>\<close>

definition write_flag :: "string \<Rightarrow> bool \<Rightarrow> legacy_db \<Rightarrow> legacy_db" where
  "write_flag key b db = db\<lparr>ld_flags := (ld_flags db)(key \<mapsto> (if b then ''true'' else ''false''))\<rparr>"

section \<open>The part of the integer conversion\<close>

definition int_part :: "start_env \<Rightarrow> sqlite_file \<Rightarrow> int_file" where
  "int_part env f =
     \<lparr>i_telegrams = map2 (\<lambda>i r. \<lparr>c_rowid = i, c_timestamp = cell_of env (r ''timestamp'')\<rparr>) (fl_rowids f) (ld_rows (fl_db f)),
      i_last_ga = map (\<lambda>r. \<lparr>c_rowid = r_destination_id r, c_timestamp = cell_of env (r_timestamp r)\<rparr>) (fl_last f),
      integer_flag = flag_set (fl_db f) ''timestamps_integer'', vacuum_pending = flag_set (fl_db f) ''vacuum_pending'',
      timestamp_index = (case indexes_of (fl_catalogue f) ''telegrams'' of
        None \<Rightarrow> False | Some ixs \<Rightarrow> ''ix_telegrams_timestamp'' \<in> set ixs)\<rparr>"

definition drop_index :: "string \<Rightarrow> catalogue \<Rightarrow> catalogue" where
  "drop_index ix cat = cat\<lparr>indexes_of :=
     (indexes_of cat)(''telegrams'' := map_option (filter (\<lambda>i. i \<noteq> ix)) (indexes_of cat ''telegrams''))\<rparr>"

text \<open>Dropping an index drops its statistics.\<close>

definition put_int_part :: "start_env \<Rightarrow> int_file \<Rightarrow> sqlite_file \<Rightarrow> sqlite_file" where
  "put_int_part env g f =
     (let rows = ld_rows (fl_db f);
          times = map2 put_cell (map (\<lambda>r. r ''timestamp'') rows) (map c_timestamp (i_telegrams g));
          db = (fl_db f)\<lparr>ld_rows := set_times times rows\<rparr>;
          f = f\<lparr>fl_db := (if integer_flag g then set_flag ''timestamps_integer'' db else db),
                fl_last := map2 (\<lambda>r c. with_time (put_cell (r_timestamp r) (c_timestamp c)) r) (fl_last f) (i_last_ga g)\<rparr>
      in if timestamp_index g = timestamp_index (int_part env f) then f
         else f\<lparr>fl_catalogue := drop_index ''ix_telegrams_timestamp'' (fl_catalogue f), fl_statistics := None\<rparr>)"

definition convert_step :: "start_env \<Rightarrow> sqlite_file \<Rightarrow> (exc + bool) \<times> sqlite_file" where
  "convert_step env f =
     (if flag_set (fl_db f) ''timestamps_integer'' then (Inr False, f)
      else (case se_disk env BeforeIntegers of (free, file_size) \<Rightarrow>
        (case convert_timestamps_to_integers (se_batch_fails env) free file_size (int_part env f) of
           (res, g) \<Rightarrow> (res, put_int_part env g f))))"

section \<open>The part of the conversion to UTC\<close>

definition utc_part :: "sqlite_file \<Rightarrow> utc_file" where
  "utc_part f =
     \<lparr>u_telegrams = map2 (\<lambda>i r. \<lparr>u_rowid = i, u_timestamp = cell_int (r ''timestamp'')\<rparr>) (fl_rowids f) (ld_rows (fl_db f)),
      u_last_ga = map (\<lambda>r. \<lparr>u_rowid = r_destination_id r, u_timestamp = cell_int (r_timestamp r)\<rparr>) (fl_last f),
      utc_flag = flag_set (fl_db f) ''timestamps_utc'', utc_boundary = fl_boundary f,
      legacy_max_rowid = fl_legacy_rowid f, utc_source_zone = fl_source_zone f\<rparr>"

definition put_utc_marks :: "utc_file \<Rightarrow> sqlite_file \<Rightarrow> sqlite_file" where
  "put_utc_marks g f =
     (if utc_flag g then on_schema (set_flag ''timestamps_utc'') f else f)
       \<lparr>fl_boundary := utc_boundary g, fl_legacy_rowid := legacy_max_rowid g, fl_source_zone := utc_source_zone g\<rparr>"

definition put_utc_part :: "utc_file \<Rightarrow> sqlite_file \<Rightarrow> sqlite_file" where
  "put_utc_part g f = put_utc_marks g (f\<lparr>
     fl_db := (fl_db f)\<lparr>ld_rows := set_times (map (\<lambda>r. SInt (u_timestamp r)) (u_telegrams g)) (ld_rows (fl_db f))\<rparr>,
     fl_last := map2 (\<lambda>r u. with_time (SInt (u_timestamp u)) r) (fl_last f) (u_last_ga g)\<rparr>)"

definition has_texts :: "sqlite_file \<Rightarrow> bool" where
  "has_texts f \<longleftrightarrow> list_ex (\<lambda>r. case r ''timestamp'' of SText _ \<Rightarrow> True | _ \<Rightarrow> False) (ld_rows (fl_db f)) \<or>
     list_ex (\<lambda>r. case r_timestamp r of SText _ \<Rightarrow> True | _ \<Rightarrow> False) (fl_last f)"

definition utc_step :: "start_env \<Rightarrow> start_options \<Rightarrow> zone \<Rightarrow> sqlite_file \<Rightarrow> (exc + int) \<times> sqlite_file" where
  "utc_step env opts z f =
     (if has_texts f \<and> \<not> flag_set (fl_db f) ''timestamps_utc'' then se_mixed env f
      else (case se_disk env BeforeUtc of (free, file_size) \<Rightarrow>
        (case migrate_timestamps_to_utc (so_read_only opts) free file_size z (utc_part f) of
           (Inl e, g) \<Rightarrow> (Inl e, f)
         | (Inr n, g) \<Rightarrow> (Inr n, if flag_set (fl_db f) ''timestamps_utc'' then f else put_utc_part g f))))"

section \<open>The tables of the store\<close>

text \<open>A row as SQLAlchemy's column types read it; JSON columns give None for NULL.\<close>

definition cell_int_option :: "sqlval \<Rightarrow> int option" where
  "cell_int_option v = (case v of SInt n \<Rightarrow> Some n | _ \<Rightarrow> None)"

definition cell_json :: "sqlval \<Rightarrow> json" where
  "cell_json v = (case v of SJson j \<Rightarrow> j | _ \<Rightarrow> JNull)"

definition cell_float :: "sqlval \<Rightarrow> pyfloat option" where
  "cell_float v = (case v of SReal x \<Rightarrow> Some x | _ \<Rightarrow> None)"

definition cell_text :: "sqlval \<Rightarrow> string option" where
  "cell_text v = (case v of SText t \<Rightarrow> Some t | _ \<Rightarrow> None)"

definition cell_bool :: "sqlval \<Rightarrow> bool option" where
  "cell_bool v = (case v of SBool b \<Rightarrow> Some b | SInt n \<Rightarrow> Some (n \<noteq> 0) | _ \<Rightarrow> None)"

definition stored_row :: "cells \<Rightarrow> telegram_row" where
  "stored_row r = \<lparr>r_timestamp = cell_int (r ''timestamp''), r_source_id = cell_int (r ''source_id''),
     r_destination_id = cell_int (r ''destination_id''), r_telegramtype_id = cell_int (r ''telegramtype_id''),
     r_direction_id = cell_int (r ''direction_id''), r_source_name_id = cell_int_option (r ''source_name_id''),
     r_destination_name_id = cell_int_option (r ''destination_name_id''), r_payload = cell_json (r ''payload''),
     r_dpt_main = cell_int_option (r ''dpt_main''), r_dpt_sub = cell_int_option (r ''dpt_sub''),
     r_value = cell_json (r ''value''), r_value_numeric = cell_float (r ''value_numeric''),
     r_raw_data = cell_text (r ''raw_data''), r_data_secure = cell_bool (r ''data_secure'')\<rparr>"

definition store_of :: "start_options \<Rightarrow> sqlite_file \<Rightarrow> lookup_cache \<Rightarrow> sql_store" where
  "store_of opts f cache =
     \<lparr>sql_db = \<lparr>string_lookup = ld_lookup (fl_db f), telegrams = map stored_row (ld_rows (fl_db f)),
        last_ga_telegrams = map (\<lambda>r. with_time (cell_int (r_timestamp r)) r) (fl_last f),
        store_metadata = map_option Some \<circ> ld_flags (fl_db f)\<rparr>,
      lookup_cache = cache, sql_dialect = Sqlite, sql_retention_days = so_retention_days opts,
      sql_read_only = so_read_only opts\<rparr>"

text \<open>\<open>super().initialize()\<close>, which writes the summaries and its own flag.\<close>

definition base_step :: "start_env \<Rightarrow> start_options \<Rightarrow> sqlite_file \<Rightarrow> lookup_cache \<Rightarrow> (exc + unit) \<times> sqlite_file \<times> lookup_cache"
where
  "base_step env opts f cache = (case sql_initialize (se_sql env) (store_of opts f cache) of
     (res, s) \<Rightarrow> (res,
        f\<lparr>fl_db := (fl_db f)\<lparr>ld_flags := (\<lambda>k. Option.bind (store_metadata (sql_db s) k) (\<lambda>v. v))\<rparr>,
          fl_last := (if last_ga_telegrams (sql_db s) = last_ga_telegrams (sql_db (store_of opts f cache)) then fl_last f
            else map (\<lambda>r. with_time (SInt (r_timestamp r)) r) (last_ga_telegrams (sql_db s)))\<rparr>,
        lookup_cache s))"

section \<open>The start\<close>

text \<open>\<open>create_all\<close>: missing tables are created with their indexes, existing ones are left alone.\<close>

definition create_all :: "sqlite_file \<Rightarrow> sqlite_file" where
  "create_all f =
     (let cat = fl_catalogue f;
          f = f\<lparr>fl_catalogue := \<lparr>has_telegrams = True, indexes_of = (\<lambda>t.
             case indexes_of cat t of Some ixs \<Rightarrow> Some ixs | None \<Rightarrow> map_of declared_indexes t)\<rparr>\<rparr>
      in if has_telegrams cat then f
         else f\<lparr>fl_db := (fl_db f)\<lparr>ld_columns := map (\<lambda>c. (c, [])) KEEP_COLUMNS, ld_rows := []\<rparr>, fl_rowids := []\<rparr>)"

text \<open>
  \<open>_upgrade_schema\<close> on the file: a table that is rebuilt numbers its rows anew, has the indexes of the
  model and no statistics.
\<close>

definition schema_step :: "start_env \<Rightarrow> sqlite_file \<Rightarrow> exc + sqlite_file" where
  "schema_step env f =
     bind_res (sqlite_upgrade_schema (se_legacy env) (se_unwrap_fails env) (fl_db f)) (\<lambda>db. Inr
       (if list_ex (has_column (fl_db f)) LEGACY_COLUMNS
        then f\<lparr>fl_db := db, fl_rowids := map (\<lambda>i. int i + 1) [0..<length (ld_rows db)],
          fl_catalogue := (fl_catalogue f)\<lparr>indexes_of :=
            (indexes_of (fl_catalogue f))(''telegrams'' := map_of declared_indexes ''telegrams'')\<rparr>,
          fl_statistics := None\<rparr>
        else f\<lparr>fl_db := db\<rparr>))"

text \<open>Steps 2.2 to 2.4, one transaction.\<close>

definition index_step :: "start_env \<Rightarrow> start_options \<Rightarrow> sqlite_file \<Rightarrow> exc + sqlite_file" where
  "index_step env opts f = (case se_index_fails env of
     Some e \<Rightarrow> Inl e
   | None \<Rightarrow>
       (let f = f\<lparr>fl_catalogue := ensure_indexes (fl_catalogue f)\<rparr>;
            f = f\<lparr>fl_statistics := collect_missing_statistics (int (length (ld_rows (fl_db f)))) (fl_statistics f)\<rparr>
        in Inr (put_utc_marks (classify_timestamp_convention (so_zone opts) (se_now env) (utc_part f)) f)))"

definition vacuum_step :: "start_env \<Rightarrow> sqlite_file \<Rightarrow> (exc + unit) \<times> sqlite_file" where
  "vacuum_step env f = (case se_disk env BeforeVacuum of (free, file_size) \<Rightarrow>
     (case vacuum_when_room (se_vacuum_fails env) free file_size (int_part env f) of
        (Inl e, g) \<Rightarrow> (Inl e, f)
      | (Inr _, g) \<Rightarrow>
          (let f = on_schema (write_flag ''vacuum_pending'' (vacuum_pending g)) f in
           (Inr (), if vacuum_fits free file_size then f\<lparr>fl_rowids := se_vacuum_rowids env (fl_rowids f)\<rparr> else f))))"

definition sqlite_initialize ::
  "start_env \<Rightarrow> start_options \<Rightarrow> sqlite_file \<Rightarrow> lookup_cache \<Rightarrow> (exc + unit) \<times> sqlite_file \<times> lookup_cache"
where
  "sqlite_initialize env opts f cache =
     (if so_read_only opts then base_step env opts f cache
      else case (if so_is_memory opts then None else se_wal_fails env) of Some e \<Rightarrow> (Inl e, f, cache) | None \<Rightarrow>
      case schema_step env (create_all f) of Inl e \<Rightarrow> (Inl e, f, cache) | Inr f \<Rightarrow>
      case convert_step env f of (Inl e, f) \<Rightarrow> (Inl e, f, cache) | (Inr converted, f) \<Rightarrow>
      case index_step env opts f of Inl e \<Rightarrow> (Inl e, f, cache) | Inr f \<Rightarrow>
      case (if converted \<or> flag_set (fl_db f) ''vacuum_pending'' then vacuum_step env f else (Inr (), f)) of
        (Inl e, f) \<Rightarrow> (Inl e, f, cache) | (Inr _, f) \<Rightarrow>
      case (case so_zone opts of None \<Rightarrow> (Inr 0, f) | Some z \<Rightarrow> utc_step env opts z f) of
        (Inl e, f) \<Rightarrow> (Inl e, f, cache) | (Inr _, f) \<Rightarrow> base_step env opts f cache)"

text \<open>What \<open>needs_migration\<close> sees of the file.\<close>

definition view_of :: "start_env \<Rightarrow> start_options \<Rightarrow> sqlite_file \<Rightarrow> startup_view" where
  "view_of env opts f =
     \<lparr>sv_has_table = has_telegrams (fl_catalogue f), sv_statistics_missing = (fl_statistics f = None),
      sv_rows = int (length (ld_rows (fl_db f))), sv_has_last_rows = (fl_last f \<noteq> []),
      sv_vacuum_fits = (case se_disk env BeforeVacuum of (free, file_size) \<Rightarrow> vacuum_fits free file_size),
      sv_zone_given = (so_zone opts \<noteq> None), sv_probe_fails = False,
      sv_base_pending = pending_startup_work (fl_catalogue f) (sql_db (store_of opts f lookup_cache_init))\<rparr>"

section \<open>The telegrams of an old file\<close>

text \<open>The instant of a timestamp, given the zone the earlier version wrote in, and a telegram.\<close>

definition file_micros :: "start_env \<Rightarrow> sqlval \<Rightarrow> int" where
  "file_micros env v = (case cell_of env v of IntCell n \<Rightarrow> n | TextCell s frac \<Rightarrow> text_to_micros s frac)"

definition utc_micros :: "zone option \<Rightarrow> int \<Rightarrow> int" where
  "utc_micros zone w = (case zone of None \<Rightarrow> w | Some z \<Rightarrow> w - offset_at z w * second)"

definition old_telegram :: "start_env \<Rightarrow> zone option \<Rightarrow> (string \<Rightarrow> bool) \<Rightarrow> cells \<Rightarrow> stored_telegram" where
  "old_telegram env zone had r =
     (let string = (\<lambda>c. if r c = SNull then [] else le_cast_text (se_legacy env) (r c));
          cell = column_or_null had r
      in \<lparr>timestamp = Datetime (utc_micros zone (file_micros env (r ''timestamp''))) (Some 0),
          source = string ''source'', destination = string ''destination'', telegramtype = string ''telegramtype'',
          direction = string ''direction'', payload = json_loads (cell_json (unwrap_or_keep (cell ''payload''))),
          dpt_main = cell_int_option (cell ''dpt_main''), dpt_sub = cell_int_option (cell ''dpt_sub''),
          telegram_value = json_loads (cell_json (value_upgraded (se_legacy env) (cell ''value'') (cell ''value_numeric''))),
          value_numeric = cell_float (cell ''value_numeric''), raw_data = cell_text (cell ''raw_data''),
          data_secure = cell_bool (cell ''data_secure''), source_name = string ''source_name'',
          destination_name = string ''destination_name''\<rparr>)"

end
