(* ===== verification/StartProperties.thy ===== *)
theory StartProperties
  imports SqliteStart SchemaProperties FileProperties
begin

text \<open>
  What the start of a SQLite store makes of a file an early version wrote: every telegram is there,
  at its instant, and queries answer over them.
\<close>

section \<open>The schema\<close>

lemma add_missing_flags [simp]: "ld_flags (foldl add_missing db cs) = ld_flags db"
  by (induction cs arbitrary: db) (simp_all add: add_missing_def add_column_def)

lemma add_id_flags [simp]: "ld_flags (foldl add_id_column db cats) = ld_flags db"
  by (induction cats arbitrary: db) (simp_all add: add_id_column_def add_column_def)

lemma upgrade_flags:
  assumes "sqlite_upgrade_schema eng fails db = Inr db'" and "k \<noteq> ''nulls_recovered''" and "k \<noteq> ''data_unwrapped''"
  shows "ld_flags db' k = ld_flags db k"
proof -
  obtain db1 db2 where d: "(if has_column db ''source'' then normalize_strings eng db else Inr db) = Inr db1"
    "(if list_ex (has_column db) LEGACY_COLUMNS then rebuild_table (foldl add_missing db1 EXPECTED_COLUMNS)
      else Inr (foldl add_missing db1 EXPECTED_COLUMNS)) = Inr db2"
    "db' = finish_upgrade eng fails (foldl add_missing db1 EXPECTED_COLUMNS) db2"
    using assms(1) unfolding sqlite_upgrade_Inr by blast
  have "ld_flags db1 = ld_flags db" using d(1) by (auto simp: normalize_strings_def Let_def split: if_splits)
  moreover have "ld_flags db2 = ld_flags db1" using d(2) by (auto simp: rebuild_table_def Let_def split: if_splits)
  moreover have "ld_flags db' k = ld_flags db2 k"
    using assms(2,3)
    by (auto simp: d(3) finish_upgrade_def Let_def recover_pass_def unwrap_pass_def set_flag_def split: prod.splits)
  ultimately show ?thesis by simp
qed

section \<open>Timestamps\<close>

text \<open>The rows with their timestamps replaced.\<close>

definition retimed :: "(sqlval \<Rightarrow> int) \<Rightarrow> cells list \<Rightarrow> cells list" where
  "retimed g rows = map (\<lambda>r. r(''timestamp'' := SInt (g (r ''timestamp'')))) rows"

definition timed :: "cells \<Rightarrow> bool" where
  "timed r \<longleftrightarrow> (\<exists>n. r ''timestamp'' = SInt n) \<or> (\<exists>t. r ''timestamp'' = SText t)"

lemma set_times_map: "set_times (map (\<lambda>r. SInt (g (r ''timestamp''))) rows) rows = retimed g rows"
  by (induction rows) (simp_all add: set_times_def retimed_def)

text \<open>A run of the integer conversion that nothing stops.\<close>

lemma integers_converted:
  assumes "\<not> integer_flag g" and "\<forall>r \<in> set (i_telegrams g). 0 < c_rowid r" and "i_last_ga g = []"
    and "\<And>low. fails low = None" and "require_free_space free (file_size div 2) = Inr ()"
  shows "\<exists>rewritten g'. convert_timestamps_to_integers fails free file_size g = (Inr rewritten, g') \<and>
    i_telegrams g' = map convert_cell (i_telegrams g) \<and> i_last_ga g' = [] \<and> integer_flag g'"
proof (cases "list_ex is_text (i_telegrams g)")
  case True
  have "convert_table_to_integers fails [] = (Inr (), [])" using convert_table_complete [of "[]" fails] assms(4) by simp
  with True assms convert_table_complete [OF assms(2), of fails] show ?thesis
    by (auto simp: convert_timestamps_to_integers_def Let_def)
next
  case False
  with assms(1,3) no_text_converted [of "i_telegrams g"] show ?thesis
    by (auto simp: convert_timestamps_to_integers_def)
qed

text \<open>Each pass leaves everything but what it is for.\<close>

definition same_file :: "sqlite_file \<Rightarrow> sqlite_file \<Rightarrow> bool" where
  "same_file f f' \<longleftrightarrow> ld_rows (fl_db f') = ld_rows (fl_db f) \<and> column_names (fl_db f') = column_names (fl_db f) \<and>
     ld_lookup (fl_db f') = ld_lookup (fl_db f) \<and> fl_last f' = fl_last f \<and> length (fl_rowids f') = length (fl_rowids f)"

lemma convert_step_ok:
  assumes "\<not> flag_set (fl_db f) ''timestamps_integer''" and "fl_last f = []"
    and len: "length (fl_rowids f) = length (ld_rows (fl_db f))" and "\<forall>i \<in> set (fl_rowids f). 0 < i"
    and timed: "\<forall>r \<in> set (ld_rows (fl_db f)). timed r"
    and "\<And>low. se_batch_fails env low = None"
    and space: "require_free_space (fst (se_disk env BeforeIntegers)) (snd (se_disk env BeforeIntegers) div 2) = Inr ()"
  shows "\<exists>rewritten f'. convert_step env f = (Inr rewritten, f') \<and>
    ld_rows (fl_db f') = retimed (file_micros env) (ld_rows (fl_db f)) \<and> fl_last f' = [] \<and>
    column_names (fl_db f') = column_names (fl_db f) \<and> ld_lookup (fl_db f') = ld_lookup (fl_db f) \<and>
    fl_rowids f' = fl_rowids f \<and> fl_boundary f' = fl_boundary f \<and> fl_legacy_rowid f' = fl_legacy_rowid f \<and>
    has_telegrams (fl_catalogue f') = has_telegrams (fl_catalogue f) \<and>
    (\<forall>t. indexes_of (fl_catalogue f') t = None \<longleftrightarrow> indexes_of (fl_catalogue f) t = None) \<and>
    ld_flags (fl_db f') = (ld_flags (fl_db f))(''timestamps_integer'' \<mapsto> ''true'')"
proof -
  let ?rows = "ld_rows (fl_db f)" and ?g = "int_part env f"
  let ?disk = "se_disk env BeforeIntegers"
  have pos: "\<forall>r \<in> set (i_telegrams ?g). 0 < c_rowid r"
    using assms(4) by (auto simp: int_part_def set_zip dest: nth_mem)
  obtain rewritten g' where g': "convert_timestamps_to_integers (se_batch_fails env) (fst ?disk) (snd ?disk) ?g = (Inr rewritten, g')"
    "i_telegrams g' = map convert_cell (i_telegrams ?g)" "i_last_ga g' = []" "integer_flag g'"
    using integers_converted [OF _ pos, of "se_batch_fails env" "fst ?disk" "snd ?disk"] assms(1,2,6) space
    by (auto simp: int_part_def)
  have step: "convert_step env f = (Inr rewritten, put_int_part env g' f)"
    using assms(1) g'(1) by (simp add: convert_step_def case_prod_unfold)
  have cell: "put_cell (r ''timestamp'') (c_timestamp (convert_cell \<lparr>c_rowid = i, c_timestamp = cell_of env (r ''timestamp'')\<rparr>)) =
      SInt (file_micros env (r ''timestamp''))" if "timed r" for r i
    using that by (auto simp: timed_def cell_of_def put_cell_def convert_cell_def file_micros_def)
  have "map2 put_cell (map (\<lambda>r. r ''timestamp'') ?rows) (map c_timestamp (i_telegrams g')) =
      map (\<lambda>r. SInt (file_micros env (r ''timestamp''))) ?rows"
    using len timed cell by (intro nth_equalityI) (simp_all add: g'(2) int_part_def)
  then have "set_times (map2 put_cell (map (\<lambda>r. r ''timestamp'') ?rows) (map c_timestamp (i_telegrams g'))) ?rows =
      retimed (file_micros env) ?rows"
    by (simp add: set_times_map)
  with step g'(3,4) assms(2) show ?thesis
    by (auto simp: put_int_part_def Let_def set_flag_def column_names_def drop_index_def)
qed

lemma put_utc_marks_same:
  "same_file f (put_utc_marks g f)" "fl_rowids (put_utc_marks g f) = fl_rowids f"
  "fl_catalogue (put_utc_marks g f) = fl_catalogue f" "fl_statistics (put_utc_marks g f) = fl_statistics f"
  "flag_set (fl_db (put_utc_marks g f)) k \<longleftrightarrow> flag_set (fl_db f) k \<or> k = ''timestamps_utc'' \<and> utc_flag g"
  "fl_boundary (put_utc_marks g f) = utc_boundary g"
  by (auto simp: put_utc_marks_def same_file_def on_schema_def)

text \<open>Indexes, statistics and marks; the flag for UTC is set on an empty file only.\<close>

lemma index_step_ok:
  assumes "se_index_fails env = None" and "\<not> flag_set (fl_db f) ''timestamps_utc''" and "fl_last f = []"
    and "length (fl_rowids f) = length (ld_rows (fl_db f))" and "fl_boundary f = None"
  shows "\<exists>f'. index_step env opts f = Inr f' \<and> same_file f f' \<and> fl_rowids f' = fl_rowids f \<and>
    fl_catalogue f' = ensure_indexes (fl_catalogue f) \<and>
    (fl_statistics f' = None \<longrightarrow> ld_rows (fl_db f) = []) \<and>
    (\<forall>k. flag_set (fl_db f') k \<longleftrightarrow> flag_set (fl_db f) k \<or> k = ''timestamps_utc'' \<and> ld_rows (fl_db f) = []) \<and>
    (if so_zone opts = None then flag_set (fl_db f') ''timestamps_utc'' \<or> fl_boundary f' \<noteq> None else fl_boundary f' = None)"
proof -
  let ?f = "f\<lparr>fl_catalogue := ensure_indexes (fl_catalogue f),
    fl_statistics := collect_missing_statistics (int (length (ld_rows (fl_db f)))) (fl_statistics f)\<rparr>"
  let ?g = "classify_timestamp_convention (so_zone opts) (se_now env) (utc_part ?f)"
  have empty: "u_telegrams (utc_part ?f) = [] \<longleftrightarrow> ld_rows (fl_db f) = []" "u_last_ga (utc_part ?f) = []"
    using assms(3,4) by (auto simp: utc_part_def zip_eq_Nil_iff)
  have g: "utc_flag ?g \<longleftrightarrow> ld_rows (fl_db f) = []" "so_zone opts \<noteq> None \<Longrightarrow> utc_boundary ?g = None"
    "so_zone opts = None \<Longrightarrow> utc_flag ?g \<or> utc_boundary ?g \<noteq> None"
    using assms(2,5) empty by (auto simp: classify_timestamp_convention_def utc_part_def)
  have "index_step env opts f = Inr (put_utc_marks ?g ?f)" using assms(1) by (simp add: index_step_def Let_def)
  moreover have "same_file f (put_utc_marks ?g ?f)"
    using put_utc_marks_same(1) [of ?f ?g] by (simp add: same_file_def)
  ultimately show ?thesis
    using g by (auto simp: put_utc_marks_same collect_missing_statistics_def split: if_splits)
qed

lemma vacuum_step_ok:
  assumes "se_vacuum_fails env = None" and "\<And>ids. length (se_vacuum_rowids env ids) = length ids"
    and "vacuum_fits (fst (se_disk env BeforeVacuum)) (snd (se_disk env BeforeVacuum))"
  shows "\<exists>f'. vacuum_step env f = (Inr (), f') \<and> same_file f f' \<and> fl_catalogue f' = fl_catalogue f \<and>
    fl_statistics f' = fl_statistics f \<and> fl_boundary f' = fl_boundary f \<and> \<not> flag_set (fl_db f') ''vacuum_pending'' \<and>
    (\<forall>k. k \<noteq> ''vacuum_pending'' \<longrightarrow> flag_set (fl_db f') k = flag_set (fl_db f) k)"
proof -
  let ?d = "se_disk env BeforeVacuum"
  have "vacuum_when_room None (fst ?d) (snd ?d) g = (Inr (), g\<lparr>vacuum_pending := False\<rparr>)" for g
    using assms(3) by (simp add: vacuum_when_room_def)
  then have "vacuum_step env f = (Inr (), on_schema (write_flag ''vacuum_pending'' False) f
      \<lparr>fl_rowids := se_vacuum_rowids env (fl_rowids f)\<rparr>)"
    using assms(1,3) by (simp add: vacuum_step_def case_prod_unfold on_schema_def)
  then show ?thesis
    using assms(2) by (simp add: same_file_def on_schema_def write_flag_def flag_set_def column_names_def)
qed

lemma utc_step_ok:
  assumes "\<not> so_read_only opts" and "fl_last f = []" and "fl_boundary f = None"
    and len: "length (fl_rowids f) = length (ld_rows (fl_db f))"
    and times: "\<forall>r \<in> set (ld_rows (fl_db f)). \<exists>n. r ''timestamp'' = SInt n"
    and space: "require_free_space (fst (se_disk env BeforeUtc)) (snd (se_disk env BeforeUtc)) = Inr ()"
    and conv: "convertible z (map (\<lambda>r. cell_int (r ''timestamp'')) (ld_rows (fl_db f)))"
    and flag: "flag_set (fl_db f) ''timestamps_utc'' \<Longrightarrow> ld_rows (fl_db f) = []"
  shows "\<exists>n f'. utc_step env opts z f = (Inr n, f') \<and>
    ld_rows (fl_db f') = retimed (\<lambda>v. utc_micros (Some z) (cell_int v)) (ld_rows (fl_db f)) \<and> fl_last f' = [] \<and>
    column_names (fl_db f') = column_names (fl_db f) \<and> ld_lookup (fl_db f') = ld_lookup (fl_db f) \<and>
    fl_catalogue f' = fl_catalogue f \<and> fl_statistics f' = fl_statistics f \<and> fl_rowids f' = fl_rowids f \<and>
    flag_set (fl_db f') ''timestamps_utc'' \<and>
    (\<forall>k. k \<noteq> ''timestamps_utc'' \<longrightarrow> flag_set (fl_db f') k = flag_set (fl_db f) k)"
proof -
  let ?rows = "ld_rows (fl_db f)" and ?d = "se_disk env BeforeUtc" and ?g = "utc_part f"
  have texts: "\<not> has_texts f" using times assms(2) by (fastforce simp: has_texts_def list_ex_iff)
  show ?thesis
  proof (cases "flag_set (fl_db f) ''timestamps_utc''")
    case True
    then show ?thesis
      using flag assms(1,2) texts
      by (simp add: utc_step_def migrate_timestamps_to_utc_def wrapped_def utc_part_def case_prod_unfold retimed_def)
  next
    case False
    have all: "legacy_row_scopes z ?g = (\<lambda>_. True, \<lambda>_. True)"
      using assms(3) by (simp add: legacy_row_scopes_def utc_part_def)
    have walls: "map u_timestamp (u_telegrams ?g) = map (\<lambda>r. cell_int (r ''timestamp'')) ?rows"
      using len by (intro nth_equalityI) (simp_all add: utc_part_def)
    have last: "u_last_ga ?g = []" using assms(2) by (simp add: utc_part_def)
    have flag_off: "\<not> utc_flag ?g" using False by (simp add: utc_part_def)
    have no_rows: "convertible z []" by (simp add: convertible_def)
    obtain n g' where g': "migrate_timestamps_to_utc False (fst ?d) (snd ?d) z ?g = (Inr n, g')" "utc_flag g'"
      "u_telegrams g' = map (to_utc_row z) (u_telegrams ?g)" "u_last_ga g' = []"
      using migrate_ok [of False ?g, OF _ flag_off space all] walls conv last by (auto simp: no_rows)
    have "map (\<lambda>r. SInt (u_timestamp r)) (u_telegrams g') =
        map (\<lambda>w. SInt (utc_micros (Some z) w)) (map u_timestamp (u_telegrams ?g))"
      by (simp add: g'(3) to_utc_row_def utc_micros_def)
    also have "\<dots> = map (\<lambda>r. SInt (utc_micros (Some z) (cell_int (r ''timestamp'')))) ?rows"
      by (simp add: walls)
    finally have "set_times (map (\<lambda>r. SInt (u_timestamp r)) (u_telegrams g')) ?rows =
        retimed (\<lambda>v. utc_micros (Some z) (cell_int v)) ?rows"
      using set_times_map [of "\<lambda>v. utc_micros (Some z) (cell_int v)" ?rows] by simp
    moreover have "utc_step env opts z f = (Inr n, put_utc_part g' f)"
      using texts assms(1) g'(1) False by (simp add: utc_step_def case_prod_unfold)
    ultimately show ?thesis
      using g'(2,4) assms(2)
      by (auto simp: put_utc_part_def put_utc_marks_def on_schema_def)
  qed
qed

section \<open>Rows\<close>

lemma retimed_twice: "retimed g (retimed h rows) = retimed (\<lambda>v. g (SInt (h v))) rows"
  by (simp add: retimed_def)

text \<open>A row that was upgraded and got its instant is the telegram it was.\<close>

lemma upgraded_row:
  assumes up: "row_upgraded (se_legacy env) had table r r2"
    and "\<forall>c \<in> {''source'', ''destination'', ''telegramtype'', ''direction''}. r c \<noteq> SNull"
    and t: "t = utc_micros zone (file_micros env (r ''timestamp''))" "in_range t"
  shows "row_ok table (stored_row (r2(''timestamp'' := SInt t)))"
    and "row_telegram table (stored_row (r2(''timestamp'' := SInt t))) = old_telegram env zone had r"
proof -
  have "\<exists>i. r2 (id_col cat) = SInt i \<and> lookup_value table cat i = Some (le_cast_text (se_legacy env) (r cat))"
    if "cat \<in> {''source'', ''destination'', ''telegramtype'', ''direction''}" for cat
    using up assms(2) that by (auto simp: row_upgraded_def strings_moved_def COLS_TO_MIGRATE_def)
  note ids = this [of "''source''"] this [of "''destination''"] this [of "''telegramtype''"] this [of "''direction''"]
  have "if r cat = SNull then r2 (id_col cat) = SNull
      else (\<exists>i. r2 (id_col cat) = SInt i \<and> lookup_value table cat i = Some (le_cast_text (se_legacy env) (r cat)))"
    if "cat \<in> {''source_name'', ''destination_name''}" for cat
    using up that by (auto simp: row_upgraded_def strings_moved_def COLS_TO_MIGRATE_def)
  note names = this [of "''source_name''"] this [of "''destination_name''"]
  have required: "r ''source'' \<noteq> SNull" "r ''destination'' \<noteq> SNull" "r ''telegramtype'' \<noteq> SNull" "r ''direction'' \<noteq> SNull"
    using assms(2) by simp_all
  show "row_ok table (stored_row (r2(''timestamp'' := SInt t)))"
    using ids names t(2)
    by (auto simp: row_ok_def interned_def stored_row_def id_col_def cell_int_def cell_int_option_def split: if_splits)
  show "row_telegram table (stored_row (r2(''timestamp'' := SInt t))) = old_telegram env zone had r"
    using ids names required up
    by (auto simp: row_telegram_def stored_row_def old_telegram_def id_col_def cell_int_def cell_int_option_def joined_def
        Let_def row_upgraded_def t(1) split: if_splits)
qed

section \<open>The base class\<close>

lemma with_time_simps [simp]:
  "with_time (r_timestamp r) r = r" "with_time (r_timestamp r) (with_time t r) = r" "r_timestamp (with_time t r) = t"
  "with_time t (with_time u r) = with_time t r"
  by (simp_all add: with_time_def)

lemma reconcile_keeps:
  assumes "reconcile_last_ga_telegrams eng db = Inr db'"
  shows "\<exists>lga. db' = db\<lparr>last_ga_telegrams := lga\<rparr> \<or>
    db' = set_metadata_value LAST_GA_RECONCILED_KEY ''true'' (db\<lparr>last_ga_telegrams := lga\<rparr>)"
proof (cases "last_ga_telegrams db \<noteq> [] \<and> metadata_flag_set db LAST_GA_RECONCILED_KEY")
  case True
  with assms have "db' = db\<lparr>last_ga_telegrams := last_ga_telegrams db\<rparr>" by (simp add: reconcile_last_ga_telegrams_def)
  then show ?thesis by blast
next
  case False
  with assms show ?thesis
    by (cases "metadata_flag_set db LAST_GA_RECONCILED_KEY")
      (auto simp: reconcile_last_ga_telegrams_def Let_def bind_res_Inr_conv)
qed

lemma initialize_db:
  assumes "sql_initialize eng s = (res, s')"
  shows "sql_dialect s' = sql_dialect s \<and> sql_read_only s' = sql_read_only s \<and> sql_retention_days s' = sql_retention_days s \<and>
    (sql_db s' = sql_db s \<or> reconcile_last_ga_telegrams eng (sql_db s) = Inr (sql_db s'))"
  using assms by (auto simp: sql_initialize_def wrapped_def Let_def split: sum.splits if_splits)

lemma initialize_keeps:
  assumes "sql_initialize eng s = (res, s')"
  shows "string_lookup (sql_db s') = string_lookup (sql_db s)" and "telegrams (sql_db s') = telegrams (sql_db s)"
    and "sql_dialect s' = sql_dialect s" and "sql_read_only s' = sql_read_only s"
    and "sql_retention_days s' = sql_retention_days s"
    and "k \<noteq> LAST_GA_RECONCILED_KEY \<Longrightarrow> store_metadata (sql_db s') k = store_metadata (sql_db s) k"
    and "store_metadata (sql_db s') k \<noteq> store_metadata (sql_db s) k \<Longrightarrow> store_metadata (sql_db s') k = Some (Some ''true'')"
proof -
  show "sql_dialect s' = sql_dialect s" "sql_read_only s' = sql_read_only s" "sql_retention_days s' = sql_retention_days s"
    using initialize_db [OF assms] by simp_all
  have "\<exists>lga. sql_db s' = (sql_db s)\<lparr>last_ga_telegrams := lga\<rparr> \<or>
      sql_db s' = set_metadata_value LAST_GA_RECONCILED_KEY ''true'' ((sql_db s)\<lparr>last_ga_telegrams := lga\<rparr>)"
    using initialize_db [OF assms] reconcile_keeps [of eng "sql_db s" "sql_db s'"]
    by (auto intro: exI [of _ "last_ga_telegrams (sql_db s)"])
  then obtain lga where lga: "sql_db s' = (sql_db s)\<lparr>last_ga_telegrams := lga\<rparr> \<or>
      sql_db s' = set_metadata_value LAST_GA_RECONCILED_KEY ''true'' ((sql_db s)\<lparr>last_ga_telegrams := lga\<rparr>)" ..
  then show "string_lookup (sql_db s') = string_lookup (sql_db s)" "telegrams (sql_db s') = telegrams (sql_db s)"
    "k \<noteq> LAST_GA_RECONCILED_KEY \<Longrightarrow> store_metadata (sql_db s') k = store_metadata (sql_db s) k"
    "store_metadata (sql_db s') k \<noteq> store_metadata (sql_db s) k \<Longrightarrow> store_metadata (sql_db s') k = Some (Some ''true'')"
    by (elim disjE; simp add: set_metadata_value_def split: if_splits)+
qed

lemma bind_Some_id [simp]: "Option.bind (map_option Some x) (\<lambda>v. v) = x"
  by (cases x) simp_all

lemma base_step_store:
  assumes "sql_initialize (se_sql env) (store_of opts f cache) = (res, s)"
    and "base_step env opts f cache = (res', f', cache')"
  shows "res' = res" and "store_of opts f' cache' = s" and "ld_rows (fl_db f') = ld_rows (fl_db f)"
    and "column_names (fl_db f') = column_names (fl_db f)"
    and "k \<noteq> LAST_GA_RECONCILED_KEY \<Longrightarrow> flag_set (fl_db f') k = flag_set (fl_db f) k"
    and "fl_statistics f' = fl_statistics f" and "fl_catalogue f' = fl_catalogue f"
    and "fl_rowids f' = fl_rowids f" and "fl_boundary f' = fl_boundary f"
proof -
  let ?s = "store_of opts f cache"
  note keep = initialize_keeps [OF assms(1)]
  define g where "g = f\<lparr>fl_db := (fl_db f)\<lparr>ld_flags := (\<lambda>k. Option.bind (store_metadata (sql_db s) k) (\<lambda>v. v))\<rparr>,
    fl_last := (if last_ga_telegrams (sql_db s) = last_ga_telegrams (sql_db ?s) then fl_last f
      else map (\<lambda>r. with_time (SInt (r_timestamp r)) r) (last_ga_telegrams (sql_db s)))\<rparr>"
  have r: "res' = res" "f' = g" "cache' = lookup_cache s"
    using assms by (simp_all add: base_step_def g_def)
  show "res' = res" by (rule r(1))
  show "ld_rows (fl_db f') = ld_rows (fl_db f)" "column_names (fl_db f') = column_names (fl_db f)"
    "fl_statistics f' = fl_statistics f" "fl_catalogue f' = fl_catalogue f"
    "fl_rowids f' = fl_rowids f" "fl_boundary f' = fl_boundary f"
    by (simp_all add: r(2) g_def column_names_def)
  have meta: "store_metadata (sql_db ?s) = map_option Some \<circ> ld_flags (fl_db f)" by (simp add: store_of_def)
  show "flag_set (fl_db f') k = flag_set (fl_db f) k" if "k \<noteq> LAST_GA_RECONCILED_KEY"
    using keep(6) [OF that] meta by (auto simp: r(2) g_def flag_set_def)
  have "store_metadata (sql_db s) k = map_option Some (Option.bind (store_metadata (sql_db s) k) (\<lambda>v. v))" for k
    using keep(7) [of k] meta by (cases "store_metadata (sql_db s) k = store_metadata (sql_db ?s) k")
      (auto simp: option.map_comp comp_def split: option.split)
  then have m: "map_option Some \<circ> (\<lambda>k. Option.bind (store_metadata (sql_db s) k) (\<lambda>v. v)) = store_metadata (sql_db s)"
    by (simp add: fun_eq_iff)
  have l: "map (\<lambda>r. with_time (cell_int (r_timestamp r)) r) (fl_last g) = last_ga_telegrams (sql_db s)"
    by (auto simp: g_def store_of_def comp_def cell_int_def)
  show "store_of opts f' cache' = s"
    using keep(1-5) m l unfolding r(2,3) by (simp add: store_of_def g_def)
qed

section \<open>The whole start\<close>

lemma ensure_has [simp]: "has_telegrams (ensure_indexes cat) = has_telegrams cat"
proof -
  have "has_telegrams (foldl ensure_table_indexes cat tixs) = has_telegrams cat" for tixs
    by (induction tixs arbitrary: cat) (simp_all add: ensure_table_indexes_has)
  then show ?thesis by (simp add: ensure_indexes_def Let_def)
qed

lemma ensured_indexes:
  "indexes_of (ensure_indexes cat) t = map_option (\<lambda>ex. filter (\<lambda>i. i \<notin> set OBSOLETE_INDEXES)
     (if t = ''telegrams'' then ex @ filter (\<lambda>i. i \<notin> set ex) (snd (hd declared_indexes)) else ex)) (indexes_of cat t)"
  unfolding ensure_indexes_def declared_indexes_def Let_def
  by (simp only: foldl.simps ensure_table_indexes_none catalogue.simps list.sel snd_conv,
    cases "indexes_of cat ''telegrams''"; cases "t = ''telegrams''"; simp add: ensure_table_indexes_def)

lemma ensure_indexes_twice [simp]: "ensure_indexes (ensure_indexes cat) = ensure_indexes cat"
proof -
  have "indexes_of (ensure_indexes (ensure_indexes cat)) t = indexes_of (ensure_indexes cat) t" for t
    by (cases "indexes_of cat t")
      (auto simp: ensured_indexes [of "ensure_indexes cat"] ensured_indexes [of cat] declared_indexes_def OBSOLETE_INDEXES_def)
  then show ?thesis by (intro catalogue.equality) auto
qed

definition start_in_order :: "start_env \<Rightarrow> bool" where
  "start_in_order env \<longleftrightarrow> fresh_ids (le_new_id (se_legacy env)) \<and> wf_engine (se_sql env) \<and> accepting (se_sql env) \<and>
     se_wal_fails env = None \<and> (\<forall>n. \<not> se_unwrap_fails env n) \<and> (\<forall>low. se_batch_fails env low = None) \<and>
     se_index_fails env = None \<and> se_vacuum_fails env = None \<and>
     (\<forall>ids. length (se_vacuum_rowids env ids) = length ids) \<and>
     require_free_space (fst (se_disk env BeforeIntegers)) (snd (se_disk env BeforeIntegers) div 2) = Inr () \<and>
     vacuum_fits (fst (se_disk env BeforeVacuum)) (snd (se_disk env BeforeVacuum)) \<and>
     require_free_space (fst (se_disk env BeforeUtc)) (snd (se_disk env BeforeUtc)) = Inr ()"

definition earlier_file :: "start_env \<Rightarrow> zone option \<Rightarrow> sqlite_file \<Rightarrow> bool" where
  "earlier_file env zone f \<longleftrightarrow> flat_db (fl_db f) \<and> has_telegrams (fl_catalogue f) \<and> fl_last f = [] \<and> fl_boundary f = None \<and>
     \<not> flag_set (fl_db f) ''timestamps_integer'' \<and> \<not> flag_set (fl_db f) ''timestamps_utc'' \<and>
     (\<forall>r \<in> set (ld_rows (fl_db f)). timed r \<and> in_range (utc_micros zone (file_micros env (r ''timestamp'')))) \<and>
     (\<forall>z. zone = Some z \<longrightarrow> convertible z (map (\<lambda>r. file_micros env (r ''timestamp'')) (ld_rows (fl_db f))))"

text \<open>The schema step: the rows of the file, with everything but their instants settled.\<close>

lemma upgrade_sets_flags:
  assumes "sqlite_upgrade_schema eng fails db = Inr db'" and "\<And>n. \<not> fails n"
  shows "flag_set db' ''nulls_recovered''" and "flag_set db' ''data_unwrapped''"
  using assms(1) unwrap_pass_done [OF assms(2)]
  unfolding sqlite_upgrade_Inr by (auto simp: finish_upgrade_def Let_def)

lemma schema_pending_settled:
  "column_names db' = column_names db \<Longrightarrow> flag_set db ''nulls_recovered'' \<Longrightarrow> flag_set db ''data_unwrapped'' \<Longrightarrow>
    flag_set db' ''nulls_recovered'' \<Longrightarrow> flag_set db' ''data_unwrapped'' \<Longrightarrow> schema_pending pf db' = schema_pending pf db"
  by (simp add: schema_pending_def)

lemma schema_step_ok:
  assumes ord: "start_in_order env" and old: "earlier_file env zone f"
  shows "\<exists>f1. schema_step env (create_all f) = Inr f1 \<and> fl_last f1 = [] \<and> fl_boundary f1 = None \<and>
    lookup_ok (ld_lookup (fl_db f1)) \<and> has_telegrams (fl_catalogue f1) \<and>
    (\<forall>tix \<in> set declared_indexes. indexes_of (fl_catalogue f1) (fst tix) \<noteq> None) \<and> column_names (fl_db f1) = KEEP_COLUMNS \<and>
    list_all2 (row_upgraded (se_legacy env) (has_column (fl_db f)) (ld_lookup (fl_db f1))) (ld_rows (fl_db f)) (ld_rows (fl_db f1)) \<and>
    fl_rowids f1 = map (\<lambda>i. int i + 1) [0..<length (ld_rows (fl_db f1))] \<and>
    flag_set (fl_db f1) ''nulls_recovered'' \<and> flag_set (fl_db f1) ''data_unwrapped'' \<and>
    \<not> flag_set (fl_db f1) ''timestamps_integer'' \<and> \<not> flag_set (fl_db f1) ''timestamps_utc''"
proof -
  have env: "fresh_ids (le_new_id (se_legacy env))" "\<And>n. \<not> se_unwrap_fails env n"
    using ord by (simp_all add: start_in_order_def)
  have flat: "flat_db (fl_db f)" using old by (simp add: earlier_file_def)
  obtain db new where db: "sqlite_upgrade_schema (se_legacy env) (se_unwrap_fails env) (fl_db f) = Inr db"
    "column_names db = KEEP_COLUMNS" "ld_lookup db = ld_lookup (fl_db f) @ new" "lookup_ok (ld_lookup db)"
    "list_all2 (row_upgraded (se_legacy env) (has_column (fl_db f)) (ld_lookup db)) (ld_rows (fl_db f)) (ld_rows db)"
    using sqlite_upgrade_flat [where fails = "se_unwrap_fails env", OF env(1) flat env(2)] by blast
  have "has_column (fl_db f) ''source''" using flat by (simp add: flat_db_def COLS_TO_MIGRATE_def)
  then have legacy: "list_ex (has_column (fl_db f)) LEGACY_COLUMNS"
    by (simp add: LEGACY_COLUMNS_def COLS_TO_MIGRATE_def)
  have same: "fl_db (create_all f) = fl_db f" "fl_last (create_all f) = fl_last f" "fl_boundary (create_all f) = fl_boundary f"
    "has_telegrams (fl_catalogue (create_all f))"
    using old by (simp_all add: create_all_def earlier_file_def Let_def)
  have tables: "\<forall>tix \<in> set declared_indexes. indexes_of (fl_catalogue (create_all f)) (fst tix) \<noteq> None"
    by (auto simp: create_all_def Let_def declared_indexes_def split: option.split)
  have "flag_set db k = flag_set (fl_db f) k" if "k \<noteq> ''nulls_recovered''" "k \<noteq> ''data_unwrapped''" for k
    using upgrade_flags [OF db(1) that] by (simp add: flag_set_def)
  then show ?thesis
    using db legacy same old tables upgrade_sets_flags [OF db(1) env(2)]
    by (auto simp: schema_step_def earlier_file_def declared_indexes_def)
qed

lemma upgraded_timestamp:
  assumes "flat_db db" and "row_upgraded eng (has_column db) table r r2"
  shows "r2 ''timestamp'' = r ''timestamp''"
  using assms by (simp add: flat_db_def row_upgraded_def column_or_null_def)

lemma upgraded_times:
  assumes "flat_db db" and "list_all2 (row_upgraded eng (has_column db) table) rows rows2"
  shows "map (\<lambda>r. g (r ''timestamp'')) rows2 = map (\<lambda>r. g (r ''timestamp'')) rows"
  using assms(2) by (induction rows rows2 rule: list_all2_induct) (simp_all add: upgraded_timestamp [OF assms(1)])

lemma upgraded_timed:
  assumes "flat_db db" and "list_all2 (row_upgraded eng (has_column db) table) rows rows2" and "\<forall>r \<in> set rows. timed r"
  shows "\<forall>r \<in> set rows2. timed r"
  using assms(2,3)
  by (induction rows rows2 rule: list_all2_induct) (simp_all add: timed_def upgraded_timestamp [OF assms(1)])

text \<open>What the passes establish before the base class takes over, and what it means for the check.\<close>

definition passes_done :: "start_options \<Rightarrow> sqlite_file \<Rightarrow> bool" where
  "passes_done opts f \<longleftrightarrow> column_names (fl_db f) = KEEP_COLUMNS \<and> has_telegrams (fl_catalogue f) \<and>
     (\<forall>tix \<in> set declared_indexes. indexes_of (fl_catalogue f) (fst tix) \<noteq> None) \<and>
     ensure_indexes (fl_catalogue f) = fl_catalogue f \<and> (fl_statistics f = None \<longrightarrow> ld_rows (fl_db f) = []) \<and>
     flag_set (fl_db f) ''nulls_recovered'' \<and> flag_set (fl_db f) ''data_unwrapped'' \<and>
     flag_set (fl_db f) ''timestamps_integer'' \<and> \<not> flag_set (fl_db f) ''vacuum_pending'' \<and>
     (flag_set (fl_db f) ''timestamps_utc'' \<or> so_zone opts = None \<and> fl_boundary f \<noteq> None \<and> ld_rows (fl_db f) \<noteq> []) \<and>
     length (fl_rowids f) = length (ld_rows (fl_db f))"

lemma passes_done_settled:
  assumes "passes_done opts f"
  shows "\<not> schema_pending False (fl_db f)"
    and "\<forall>tix \<in> set declared_indexes. \<not> missing_index (fl_catalogue f) tix"
proof -
  have f: "column_names (fl_db f) = KEEP_COLUMNS" "ensure_indexes (fl_catalogue f) = fl_catalogue f"
    "flag_set (fl_db f) ''nulls_recovered''" "flag_set (fl_db f) ''data_unwrapped''"
    using assms by (simp_all add: passes_done_def)
  have "\<not> list_ex (has_column (fl_db f)) LEGACY_COLUMNS"
    "\<forall>c \<in> fst ` set EXPECTED_COLUMNS. has_column (fl_db f) c \<or> has_column (fl_db f) (id_col c)"
    using f(1) by (simp_all add: LEGACY_COLUMNS_def COLS_TO_MIGRATE_def KEEP_COLUMNS_def EXPECTED_COLUMNS_def)
  then show "\<not> schema_pending False (fl_db f)" using f(3,4) by (rule no_legacy_pending)
  show "\<forall>tix \<in> set declared_indexes. \<not> missing_index (fl_catalogue f) tix"
    using ensure_indexes_complete [of _ "fl_catalogue f"] f(2) by simp
qed

text \<open>The schema and the integers.\<close>

lemma integer_passes_ok:
  assumes ord: "start_in_order env" and old: "earlier_file env zone f"
  shows "\<exists>f1 f2 rows2 rewritten. schema_step env (create_all f) = Inr f1 \<and> convert_step env f1 = (Inr rewritten, f2) \<and>
    list_all2 (row_upgraded (se_legacy env) (has_column (fl_db f)) (ld_lookup (fl_db f2))) (ld_rows (fl_db f)) rows2 \<and>
    ld_rows (fl_db f2) = retimed (file_micros env) rows2 \<and> fl_last f2 = [] \<and> fl_boundary f2 = None \<and>
    lookup_ok (ld_lookup (fl_db f2)) \<and> column_names (fl_db f2) = KEEP_COLUMNS \<and> has_telegrams (fl_catalogue f2) \<and>
    (\<forall>tix \<in> set declared_indexes. indexes_of (fl_catalogue f2) (fst tix) \<noteq> None) \<and>
    length (fl_rowids f2) = length (ld_rows (fl_db f2)) \<and>
    flag_set (fl_db f2) ''nulls_recovered'' \<and> flag_set (fl_db f2) ''data_unwrapped'' \<and>
    flag_set (fl_db f2) ''timestamps_integer'' \<and> \<not> flag_set (fl_db f2) ''timestamps_utc''"
proof -
  have env: "\<And>low. se_batch_fails env low = None"
    "require_free_space (fst (se_disk env BeforeIntegers)) (snd (se_disk env BeforeIntegers) div 2) = Inr ()"
    using ord by (simp_all add: start_in_order_def)
  have flat: "flat_db (fl_db f)" using old by (simp add: earlier_file_def)
  let ?up = "\<lambda>f'. list_all2 (row_upgraded (se_legacy env) (has_column (fl_db f)) (ld_lookup (fl_db f')))"
  obtain f1 where f1: "schema_step env (create_all f) = Inr f1" "fl_last f1 = []" "fl_boundary f1 = None"
    "lookup_ok (ld_lookup (fl_db f1))" "has_telegrams (fl_catalogue f1)"
    "\<forall>tix \<in> set declared_indexes. indexes_of (fl_catalogue f1) (fst tix) \<noteq> None" "column_names (fl_db f1) = KEEP_COLUMNS"
    "?up f1 (ld_rows (fl_db f)) (ld_rows (fl_db f1))"
    "fl_rowids f1 = map (\<lambda>i. int i + 1) [0..<length (ld_rows (fl_db f1))]"
    "flag_set (fl_db f1) ''nulls_recovered''" "flag_set (fl_db f1) ''data_unwrapped''"
    "\<not> flag_set (fl_db f1) ''timestamps_integer''" "\<not> flag_set (fl_db f1) ''timestamps_utc''"
    using schema_step_ok [OF ord old] by metis
  have timed: "\<forall>r \<in> set (ld_rows (fl_db f1)). timed r"
    by (rule upgraded_timed [OF flat f1(8)]) (use old in \<open>simp add: earlier_file_def\<close>)
  have rowids: "length (fl_rowids f1) = length (ld_rows (fl_db f1))" "\<forall>i \<in> set (fl_rowids f1). 0 < i"
    using f1(9) by auto
  obtain rewritten f2 where f2: "convert_step env f1 = (Inr rewritten, f2)"
    "ld_rows (fl_db f2) = retimed (file_micros env) (ld_rows (fl_db f1))" "fl_last f2 = []"
    "column_names (fl_db f2) = column_names (fl_db f1)" "ld_lookup (fl_db f2) = ld_lookup (fl_db f1)"
    "fl_rowids f2 = fl_rowids f1" "fl_boundary f2 = fl_boundary f1"
    "has_telegrams (fl_catalogue f2) = has_telegrams (fl_catalogue f1)"
    "\<forall>t. indexes_of (fl_catalogue f2) t = None \<longleftrightarrow> indexes_of (fl_catalogue f1) t = None"
    "ld_flags (fl_db f2) = (ld_flags (fl_db f1))(''timestamps_integer'' \<mapsto> ''true'')"
    using convert_step_ok [OF f1(12,2) rowids timed env] by metis
  have "flag_set (fl_db f2) k \<longleftrightarrow> k = ''timestamps_integer'' \<or> flag_set (fl_db f1) k" for k
    by (simp add: flag_set_def f2(10))
  with f1 f2 rowids show ?thesis
    by - (rule exI [of _ f1], rule exI [of _ f2], rule exI [of _ "ld_rows (fl_db f1)"], rule exI [of _ rewritten],
      simp add: retimed_def)
qed

text \<open>Indexes, statistics, marks and the compaction.\<close>

lemma index_passes_ok:
  assumes ord: "start_in_order env" and "\<not> flag_set (fl_db f) ''timestamps_utc''" and "fl_last f = []"
    and "length (fl_rowids f) = length (ld_rows (fl_db f))" and "fl_boundary f = None"
  shows "\<exists>f' f''. index_step env opts f = Inr f' \<and>
    (if rewritten \<or> flag_set (fl_db f') ''vacuum_pending'' then vacuum_step env f' else (Inr (), f')) = (Inr (), f'') \<and>
    same_file f f'' \<and> fl_catalogue f'' = ensure_indexes (fl_catalogue f) \<and>
    (fl_statistics f'' = None \<longrightarrow> ld_rows (fl_db f) = []) \<and> \<not> flag_set (fl_db f'') ''vacuum_pending'' \<and>
    (\<forall>k. k \<noteq> ''vacuum_pending'' \<longrightarrow>
      (flag_set (fl_db f'') k \<longleftrightarrow> flag_set (fl_db f) k \<or> k = ''timestamps_utc'' \<and> ld_rows (fl_db f) = [])) \<and>
    (if so_zone opts = None then flag_set (fl_db f'') ''timestamps_utc'' \<or> fl_boundary f'' \<noteq> None else fl_boundary f'' = None)"
proof -
  have env: "se_index_fails env = None" "se_vacuum_fails env = None" "\<And>ids. length (se_vacuum_rowids env ids) = length ids"
    "vacuum_fits (fst (se_disk env BeforeVacuum)) (snd (se_disk env BeforeVacuum))"
    using ord by (simp_all add: start_in_order_def)
  obtain f' where f': "index_step env opts f = Inr f'" "same_file f f'"
    "fl_catalogue f' = ensure_indexes (fl_catalogue f)" "fl_statistics f' = None \<longrightarrow> ld_rows (fl_db f) = []"
    "\<forall>k. flag_set (fl_db f') k \<longleftrightarrow> flag_set (fl_db f) k \<or> k = ''timestamps_utc'' \<and> ld_rows (fl_db f) = []"
    "if so_zone opts = None then flag_set (fl_db f') ''timestamps_utc'' \<or> fl_boundary f' \<noteq> None else fl_boundary f' = None"
    using index_step_ok [OF env(1) assms(2-5), of opts] by metis
  show ?thesis
  proof (cases "rewritten \<or> flag_set (fl_db f') ''vacuum_pending''")
    case True
    obtain f'' where "vacuum_step env f' = (Inr (), f'')" "same_file f' f''" "fl_catalogue f'' = fl_catalogue f'"
      "fl_statistics f'' = fl_statistics f'" "fl_boundary f'' = fl_boundary f'" "\<not> flag_set (fl_db f'') ''vacuum_pending''"
      "\<forall>k. k \<noteq> ''vacuum_pending'' \<longrightarrow> flag_set (fl_db f'') k = flag_set (fl_db f') k"
      using vacuum_step_ok [OF env(2-4), of f'] by metis
    with True f' show ?thesis
      by - (rule exI [of _ f'], rule exI [of _ f''], auto simp: same_file_def split: if_splits)
  next
    case False
    with f' show ?thesis by (intro exI [of _ f']) simp
  qed
qed

text \<open>The conversion to UTC, if the host named a zone.\<close>

lemma utc_pass_ok:
  assumes ord: "start_in_order env" and "\<not> so_read_only opts" and "fl_last f = []"
    and "length (fl_rowids f) = length (ld_rows (fl_db f))" and ints: "\<forall>r \<in> set (ld_rows (fl_db f)). \<exists>n. r ''timestamp'' = SInt n"
    and conv: "\<forall>z. so_zone opts = Some z \<longrightarrow> convertible z (map (\<lambda>r. cell_int (r ''timestamp'')) (ld_rows (fl_db f)))"
    and bound: "so_zone opts \<noteq> None \<longrightarrow> fl_boundary f = None"
    and empty: "flag_set (fl_db f) ''timestamps_utc'' \<longrightarrow> ld_rows (fl_db f) = []"
  shows "\<exists>n f'. (case so_zone opts of None \<Rightarrow> (Inr 0, f) | Some z \<Rightarrow> utc_step env opts z f) = (Inr n, f') \<and>
    ld_rows (fl_db f') = retimed (\<lambda>v. utc_micros (so_zone opts) (cell_int v)) (ld_rows (fl_db f)) \<and> fl_last f' = [] \<and>
    column_names (fl_db f') = column_names (fl_db f) \<and> ld_lookup (fl_db f') = ld_lookup (fl_db f) \<and>
    fl_catalogue f' = fl_catalogue f \<and> fl_statistics f' = fl_statistics f \<and> fl_rowids f' = fl_rowids f \<and>
    (if so_zone opts = None then fl_boundary f' = fl_boundary f \<and> fl_db f' = fl_db f else flag_set (fl_db f') ''timestamps_utc'') \<and>
    (\<forall>k. k \<noteq> ''timestamps_utc'' \<longrightarrow> flag_set (fl_db f') k = flag_set (fl_db f) k)"
proof (cases "so_zone opts")
  case None
  have "retimed (\<lambda>v. utc_micros None (cell_int v)) (ld_rows (fl_db f)) = ld_rows (fl_db f)"
    unfolding retimed_def using ints by (intro map_idI fun_upd_idem) (auto simp: utc_micros_def cell_int_def)
  with None assms(3) show ?thesis by simp
next
  case (Some z)
  have space: "require_free_space (fst (se_disk env BeforeUtc)) (snd (se_disk env BeforeUtc)) = Inr ()"
    using ord by (simp add: start_in_order_def)
  have "convertible z (map (\<lambda>r. cell_int (r ''timestamp'')) (ld_rows (fl_db f)))" "fl_boundary f = None"
    using conv bound Some by simp_all
  from utc_step_ok [OF assms(2,3) this(2) assms(4) ints space this(1)] empty Some show ?thesis by simp
qed

text \<open>Before the base class takes over: every row at its instant, and nothing left to do but its own work.\<close>

lemma passes_ok:
  assumes ord: "start_in_order env" and old: "earlier_file env (so_zone opts) f" and rw: "\<not> so_read_only opts"
  shows "\<exists>f5 rows2. sqlite_initialize env opts f cache = base_step env opts f5 cache \<and> passes_done opts f5 \<and>
    list_all2 (row_upgraded (se_legacy env) (has_column (fl_db f)) (ld_lookup (fl_db f5))) (ld_rows (fl_db f)) rows2 \<and>
    ld_rows (fl_db f5) = retimed (\<lambda>v. utc_micros (so_zone opts) (file_micros env v)) rows2 \<and> fl_last f5 = [] \<and>
    lookup_ok (ld_lookup (fl_db f5))"
proof -
  let ?up = "\<lambda>f'. list_all2 (row_upgraded (se_legacy env) (has_column (fl_db f)) (ld_lookup (fl_db f')))"
  obtain f1 f2 rows2 rewritten where f2: "schema_step env (create_all f) = Inr f1" "convert_step env f1 = (Inr rewritten, f2)"
    "?up f2 (ld_rows (fl_db f)) rows2" "ld_rows (fl_db f2) = retimed (file_micros env) rows2" "fl_last f2 = []"
    "fl_boundary f2 = None" "lookup_ok (ld_lookup (fl_db f2))" "column_names (fl_db f2) = KEEP_COLUMNS"
    "has_telegrams (fl_catalogue f2)" "\<forall>tix \<in> set declared_indexes. indexes_of (fl_catalogue f2) (fst tix) \<noteq> None"
    "length (fl_rowids f2) = length (ld_rows (fl_db f2))"
    "flag_set (fl_db f2) ''nulls_recovered''" "flag_set (fl_db f2) ''data_unwrapped''"
    "flag_set (fl_db f2) ''timestamps_integer''" "\<not> flag_set (fl_db f2) ''timestamps_utc''"
    using integer_passes_ok [OF ord old] by metis
  obtain f3 f4 where f4: "index_step env opts f2 = Inr f3"
    "(if rewritten \<or> flag_set (fl_db f3) ''vacuum_pending'' then vacuum_step env f3 else (Inr (), f3)) = (Inr (), f4)"
    "same_file f2 f4" "fl_catalogue f4 = ensure_indexes (fl_catalogue f2)" "fl_statistics f4 = None \<longrightarrow> ld_rows (fl_db f2) = []"
    "\<not> flag_set (fl_db f4) ''vacuum_pending''"
    "\<forall>k. k \<noteq> ''vacuum_pending'' \<longrightarrow>
      (flag_set (fl_db f4) k \<longleftrightarrow> flag_set (fl_db f2) k \<or> k = ''timestamps_utc'' \<and> ld_rows (fl_db f2) = [])"
    "if so_zone opts = None then flag_set (fl_db f4) ''timestamps_utc'' \<or> fl_boundary f4 \<noteq> None else fl_boundary f4 = None"
    using index_passes_ok [OF ord f2(15,5,11,6), of opts rewritten] by (elim exE conjE) (rule that)
  have rows: "ld_rows (fl_db f4) = ld_rows (fl_db f2)" "fl_last f4 = []" "length (fl_rowids f4) = length (ld_rows (fl_db f4))"
    "column_names (fl_db f4) = KEEP_COLUMNS" "ld_lookup (fl_db f4) = ld_lookup (fl_db f2)"
    using f4(3) f2(5,8,11) by (simp_all add: same_file_def)
  have "map (\<lambda>r. cell_int (r ''timestamp'')) (ld_rows (fl_db f4)) = map (\<lambda>r. file_micros env (r ''timestamp'')) (ld_rows (fl_db f))"
    using upgraded_times [OF _ f2(3), of "file_micros env"] old
    by (simp add: rows(1) f2(4) retimed_def comp_def cell_int_def earlier_file_def)
  then have conv: "\<forall>z. so_zone opts = Some z \<longrightarrow> convertible z (map (\<lambda>r. cell_int (r ''timestamp'')) (ld_rows (fl_db f4)))"
    using old by (simp add: earlier_file_def)
  have ints: "\<forall>r \<in> set (ld_rows (fl_db f4)). \<exists>n. r ''timestamp'' = SInt n" by (auto simp: rows(1) f2(4) retimed_def)
  have empty: "flag_set (fl_db f4) ''timestamps_utc'' \<longrightarrow> ld_rows (fl_db f4) = []" using f4(7) f2(15) rows(1) by simp
  have "so_zone opts \<noteq> None \<longrightarrow> fl_boundary f4 = None" using f4(8) by simp
  from utc_pass_ok [OF ord rw rows(2,3) ints conv this empty]
  obtain n f5 where f5: "(case so_zone opts of None \<Rightarrow> (Inr 0, f4) | Some z \<Rightarrow> utc_step env opts z f4) = (Inr n, f5)"
    "ld_rows (fl_db f5) = retimed (\<lambda>v. utc_micros (so_zone opts) (cell_int v)) (ld_rows (fl_db f4))" "fl_last f5 = []"
    "column_names (fl_db f5) = column_names (fl_db f4)" "ld_lookup (fl_db f5) = ld_lookup (fl_db f4)"
    "fl_catalogue f5 = fl_catalogue f4" "fl_statistics f5 = fl_statistics f4" "fl_rowids f5 = fl_rowids f4"
    "if so_zone opts = None then fl_boundary f5 = fl_boundary f4 \<and> fl_db f5 = fl_db f4 else flag_set (fl_db f5) ''timestamps_utc''"
    "\<forall>k. k \<noteq> ''timestamps_utc'' \<longrightarrow> flag_set (fl_db f5) k = flag_set (fl_db f4) k" by blast
  have "se_wal_fails env = None" using ord by (simp add: start_in_order_def)
  then have "sqlite_initialize env opts f cache = base_step env opts f5 cache"
    using rw f2(1,2) f4(1,2) f5(1) by (simp add: sqlite_initialize_def split: option.split)
  moreover have "passes_done opts f5"
    using f2(9,10,12-15) f4(5-8) f5(4,6-10) rows(1,3,4)
    by (auto simp: passes_done_def f4(4) f5(2) retimed_def ensured_indexes split: if_splits)
  moreover have "ld_rows (fl_db f5) = retimed (\<lambda>v. utc_micros (so_zone opts) (file_micros env v)) rows2"
    by (simp add: f5(2) rows(1) f2(4) retimed_twice cell_int_def)
  ultimately show ?thesis
    using f2(3,7) f5(3,5) rows(5) by (intro exI [of _ f5] exI [of _ rows2]) simp
qed

text \<open>The tables before the base class starts are those of a store that holds the telegrams of the file.\<close>

lemma upgraded_rows:
  assumes flat: "flat_db db" and up: "list_all2 (row_upgraded (se_legacy env) (has_column db) table) rows rows2"
    and req: "\<forall>r \<in> set rows. \<forall>c \<in> {''source'', ''destination'', ''telegramtype'', ''direction''}. r c \<noteq> SNull"
    and times: "\<forall>r \<in> set rows. in_range (utc_micros zone (file_micros env (r ''timestamp'')))"
  shows "map (row_telegram table) (map stored_row (retimed (\<lambda>v. utc_micros zone (file_micros env v)) rows2)) =
      map (old_telegram env zone (has_column db)) rows"
    and "list_all (row_ok table) (map stored_row (retimed (\<lambda>v. utc_micros zone (file_micros env v)) rows2))"
proof -
  have "map (row_telegram table) (map stored_row (retimed (\<lambda>v. utc_micros zone (file_micros env v)) rows2)) =
      map (old_telegram env zone (has_column db)) rows \<and>
    list_all (row_ok table) (map stored_row (retimed (\<lambda>v. utc_micros zone (file_micros env v)) rows2))"
    using up req times
  proof (induction rows rows2 rule: list_all2_induct)
    case (Cons r rows r2 rows2)
    let ?t = "utc_micros zone (file_micros env (r ''timestamp''))"
    have "row_ok table (stored_row (r2(''timestamp'' := SInt ?t)))"
      "row_telegram table (stored_row (r2(''timestamp'' := SInt ?t))) = old_telegram env zone (has_column db) r"
      by (rule upgraded_row [OF Cons.hyps(1) _ refl]; use Cons.prems in simp)+
    with Cons.IH Cons.prems upgraded_timestamp [OF flat Cons.hyps(1)] show ?case by (simp add: retimed_def)
  qed (simp add: retimed_def)
  then show "map (row_telegram table) (map stored_row (retimed (\<lambda>v. utc_micros zone (file_micros env v)) rows2)) =
      map (old_telegram env zone (has_column db)) rows"
    and "list_all (row_ok table) (map stored_row (retimed (\<lambda>v. utc_micros zone (file_micros env v)) rows2))" by blast+
qed

lemma base_pending_settled:
  assumes "has_telegrams cat" and "\<forall>tix \<in> set declared_indexes. \<not> missing_index cat tix"
    and "rows_current db" and "metadata_flag_set db LAST_GA_RECONCILED_KEY"
  shows "\<not> pending_startup_work cat db"
  using assms by (auto simp: pending_startup_work_def list_ex_iff rows_current_def)

lemma metadata_flag_store [simp]:
  "metadata_flag_set (sql_db (store_of opts f cache)) k = flag_set (fl_db f) k"
  by (simp add: metadata_flag_set_def store_of_def flag_set_def)

lemma store_of_sql_db: "sql_db (store_of opts f cache) = sql_db (store_of opts f cache')"
  by (simp add: store_of_def)

lemma start_ok:
  assumes ord: "start_in_order env" and old: "earlier_file env (so_zone opts) f" and rw: "\<not> so_read_only opts"
  shows "\<exists>f' cache. sqlite_initialize env opts f lookup_cache_init = (Inr (), f', cache) \<and>
    sql_inv (store_of opts f' cache) \<and> rows_current (sql_db (store_of opts f' cache)) \<and>
    contents (store_of opts f' cache) = map (old_telegram env (so_zone opts) (has_column (fl_db f))) (ld_rows (fl_db f)) \<and>
    \<not> sqlite_needs_migration (view_of env opts f') (fl_db f') \<and> passes_done opts f' \<and>
    flag_set (fl_db f') LAST_GA_RECONCILED_KEY"
proof -
  let ?had = "has_column (fl_db f)" and ?rows = "ld_rows (fl_db f)" and ?c = lookup_cache_init
  let ?time = "\<lambda>v. utc_micros (so_zone opts) (file_micros env v)"
  obtain f5 rows2 where run: "sqlite_initialize env opts f ?c = base_step env opts f5 ?c" and pd: "passes_done opts f5"
    and rows2: "list_all2 (row_upgraded (se_legacy env) ?had (ld_lookup (fl_db f5))) ?rows rows2"
      "ld_rows (fl_db f5) = retimed ?time rows2" "fl_last f5 = []" "lookup_ok (ld_lookup (fl_db f5))"
    using passes_ok [OF ord old rw, of ?c] by metis
  have flat: "flat_db (fl_db f)" using old by (simp add: earlier_file_def)
  have "\<forall>r \<in> set ?rows. \<forall>c \<in> {''source'', ''destination'', ''telegramtype'', ''direction''}. r c \<noteq> SNull"
    "\<forall>r \<in> set ?rows. in_range (?time (r ''timestamp''))"
    using flat old by (simp_all add: flat_db_def earlier_file_def)
  note rows = upgraded_rows [where zone = "so_zone opts", OF flat rows2(1) this]
  let ?s = "store_of opts f5 ?c"
  have inv: "sql_inv ?s"
    using rows(2) rows2(2-4) by (simp add: sql_inv_def store_of_def cache_ok_def lookup_cache_init_def)
  have c: "contents ?s = map (old_telegram env (so_zone opts) ?had) ?rows"
    using rows(1) rows2(2) by (simp add: contents_def store_of_def)
  obtain s where s: "sql_initialize (se_sql env) ?s = (Inr (), s)" "sql_inv s" "contents s = contents ?s"
    "rows_current (sql_db s)" "metadata_flag_set (sql_db s) LAST_GA_RECONCILED_KEY"
    using sql_initialize_ok [of "se_sql env" ?s] ord inv rows2(3) rw by (auto simp: start_in_order_def store_of_def)
  obtain res f' cache where b: "base_step env opts f5 ?c = (res, f', cache)" by (cases "base_step env opts f5 ?c") auto
  note base = base_step_store [OF s(1) b]
  have pd': "passes_done opts f'"
    using pd base(3-9) by (simp add: passes_done_def LAST_GA_RECONCILED_KEY_def)
  have "\<not> pending_startup_work (fl_catalogue f') (sql_db (store_of opts f' ?c))"
    using base_pending_settled [OF _ passes_done_settled(2) [OF pd'] s(4,5)] pd' base(2) store_of_sql_db [of opts f' ?c cache]
    by (simp add: passes_done_def)
  with passes_done_settled(1) [OF pd']have "\<not> sqlite_needs_migration (view_of env opts f') (fl_db f')"
    using pd' by (cases "fl_statistics f'"; cases "so_zone opts")
      (simp_all add: sqlite_needs_migration_def view_of_def STATISTICS_REPORT_ROWS_def passes_done_def)
  moreover have "sqlite_initialize env opts f ?c = (Inr (), f', cache)" using run b base(1) by simp
  ultimately show ?thesis using s(2-5) c pd' metadata_flag_store [of opts f' cache LAST_GA_RECONCILED_KEY] unfolding base(2) [symmetric] by (intro exI [of _ f'] exI [of _ cache] conjI) simp_all
qed

text \<open>
  C3: Starting a SQLite store on a file of an early version delivers it: whatever mixture of text and
  integer timestamps it holds, the start succeeds, the store holds exactly the telegrams of the file
  in their order, each string, value and instant the one of its row (shifted by the zone the host
  named, if it named one), every query answers the contract over them, and \<open>needs_migration\<close> has
  nothing left to report.
\<close>

theorem start_delivers:
  assumes ord: "start_in_order env" and old: "earlier_file env (so_zone opts) f" and rw: "\<not> so_read_only opts"
  shows "\<exists>f' cache. sqlite_initialize env opts f lookup_cache_init = (Inr (), f', cache) \<and>
    contents (store_of opts f' cache) = map (old_telegram env (so_zone opts) (has_column (fl_db f))) (ld_rows (fl_db f)) \<and>
    \<not> sqlite_needs_migration (view_of env opts f') (fl_db f') \<and>
    (\<forall>q. sql_queryable q \<longrightarrow> (\<exists>res. sql_query (se_sql env) (store_of opts f' cache) q = Inr res \<and>
       answers q (map (old_telegram env (so_zone opts) (has_column (fl_db f))) (ld_rows (fl_db f))) res))"
  using start_ok [OF assms] sql_query_answers ord unfolding start_in_order_def by metis

section \<open>Another start\<close>

lemma upgrade_idle:
  assumes "column_names db = KEEP_COLUMNS" and "flag_set db ''nulls_recovered''" and "flag_set db ''data_unwrapped''"
  shows "sqlite_upgrade_schema eng fails db = Inr db"
proof -
  have "foldl add_missing db EXPECTED_COLUMNS = db"
    using assms(1) by (simp add: EXPECTED_COLUMNS_def add_missing_def KEEP_COLUMNS_def)
  moreover have "\<not> has_column db ''source''" "\<not> list_ex (has_column db) LEGACY_COLUMNS"
    using assms(1) by (simp_all add: LEGACY_COLUMNS_def COLS_TO_MIGRATE_def KEEP_COLUMNS_def)
  ultimately show ?thesis using assms(2,3) by (simp add: sqlite_upgrade_schema_def recover_pass_def Let_def)
qed

lemma set_flag_idle: "flag_set db k \<Longrightarrow> set_flag k db = db"
  by (simp add: set_flag_def flag_set_def fun_upd_idem)

lemma schema_idle:
  assumes "passes_done opts f"
  shows "schema_step env (create_all f) = Inr f"
proof -
  let ?cat = "fl_catalogue f"
  have f: "column_names (fl_db f) = KEEP_COLUMNS" "has_telegrams ?cat"
    "\<forall>tix \<in> set declared_indexes. indexes_of ?cat (fst tix) \<noteq> None"
    "flag_set (fl_db f) ''nulls_recovered''" "flag_set (fl_db f) ''data_unwrapped''"
    using assms by (simp_all add: passes_done_def)
  have "(case indexes_of ?cat t of None \<Rightarrow> map_of declared_indexes t | Some ixs \<Rightarrow> Some ixs) = indexes_of ?cat t" for t
    using f(3) by (auto simp: declared_indexes_def split: option.split)
  then have "create_all f = f" using f(2) by (simp add: create_all_def)
  moreover have "\<not> list_ex (has_column (fl_db f)) LEGACY_COLUMNS"
    using f(1) by (simp add: LEGACY_COLUMNS_def COLS_TO_MIGRATE_def KEEP_COLUMNS_def)
  ultimately show ?thesis using upgrade_idle [OF f(1,4,5)] by (simp add: schema_step_def)
qed

lemma index_idle:
  assumes "passes_done opts f" and "se_index_fails env = None"
  shows "index_step env opts f = Inr f"
proof -
  let ?g = "classify_timestamp_convention (so_zone opts) (se_now env) (utc_part f)"
  have f: "ensure_indexes (fl_catalogue f) = fl_catalogue f" "fl_statistics f = None \<longrightarrow> ld_rows (fl_db f) = []"
    "flag_set (fl_db f) ''timestamps_utc'' \<or> so_zone opts = None \<and> fl_boundary f \<noteq> None \<and> ld_rows (fl_db f) \<noteq> []"
    "length (fl_rowids f) = length (ld_rows (fl_db f))"
    using assms(1) by (simp_all add: passes_done_def)
  have "?g = utc_part f"
    using f(3,4) by (auto simp: classify_timestamp_convention_def utc_part_def zip_eq_Nil_iff)
  then have "put_utc_marks ?g f = f"
    by (simp add: put_utc_marks_def utc_part_def on_schema_def set_flag_idle)
  moreover have "collect_missing_statistics (int (length (ld_rows (fl_db f)))) (fl_statistics f) = fl_statistics f"
    using f(2) by (cases "fl_statistics f") (simp_all add: collect_missing_statistics_def)
  ultimately show ?thesis using assms(2) f(1) by (simp add: index_step_def)
qed

lemma base_idle:
  assumes "accepting (se_sql env)" and "\<not> so_read_only opts" and "flag_set (fl_db f) LAST_GA_RECONCILED_KEY"
    and cur: "rows_current (sql_db (store_of opts f cache))"
  shows "\<exists>cache'. base_step env opts f cache = (Inr (), f, cache')"
proof -
  let ?db = "sql_db (store_of opts f cache)"
  have "reconcile_last_ga_telegrams (se_sql env) ?db = Inr ?db"
  proof (cases "last_ga_telegrams ?db = []")
    case True
    then have "telegrams ?db = []" using cur by (cases "telegrams ?db") (auto simp: rows_current_def)
    moreover have "?db\<lparr>last_ga_telegrams := []\<rparr> = ?db" using True by (simp add: store_of_def)
    ultimately show ?thesis
      using True assms(1,3) by (simp add: reconcile_last_ga_telegrams_def Let_def ranked_first_def)
  qed (use assms(3) in \<open>simp add: reconcile_last_ga_telegrams_def Let_def\<close>)
  then have "\<exists>cache'. sql_initialize (se_sql env) (store_of opts f cache) = (Inr (), (store_of opts f cache)\<lparr>lookup_cache := cache'\<rparr>)"
    using assms(1,2) by (auto simp: sql_initialize_def wrapped_def store_of_def)
  then show ?thesis by (auto simp: base_step_def store_of_def)
qed

text \<open>A start of a store that was started before, on a file nobody has written to since.\<close>

lemma start_idle:
  assumes pd: "passes_done opts f" and ord: "start_in_order env" and rw: "\<not> so_read_only opts"
    and "flag_set (fl_db f) LAST_GA_RECONCILED_KEY" and "rows_current (sql_db (store_of opts f cache))"
  shows "\<exists>cache'. sqlite_initialize env opts f cache = (Inr (), f, cache')"
proof -
  have env: "se_wal_fails env = None" "se_index_fails env = None" "accepting (se_sql env)"
    using ord by (simp_all add: start_in_order_def)
  have f: "flag_set (fl_db f) ''timestamps_integer''" "\<not> flag_set (fl_db f) ''vacuum_pending''"
    "so_zone opts \<noteq> None \<Longrightarrow> flag_set (fl_db f) ''timestamps_utc''"
    using pd by (auto simp: passes_done_def)
  have utc: "(case so_zone opts of None \<Rightarrow> (Inr 0, f) | Some z \<Rightarrow> utc_step env opts z f) = (Inr 0, f)"
    using f(3) rw by (auto simp: utc_step_def migrate_timestamps_to_utc_def wrapped_def utc_part_def case_prod_unfold split: option.split)
  have "sqlite_initialize env opts f cache = base_step env opts f cache"
    using rw env(1) schema_idle [OF pd] index_idle [OF pd env(2)] f(1,2) utc
    by (simp add: sqlite_initialize_def convert_step_def split: option.split)
  with base_idle [OF env(3) rw assms(4,5)] show ?thesis by simp
qed


section \<open>A file\<close>

text \<open>A file of two rows, one with a text and one with an integer, written in Central European summer time.\<close>

definition old_stamp :: string where
  "old_stamp = ''2023-11-14 22:13:20.250000''"

definition text_file :: sqlite_file where
  "text_file = \<lparr>fl_db = flat_sample\<lparr>ld_rows :=
       [(flat_row 0 (SJson (JObject [(''value'', JInt 5)])))(''timestamp'' := SText old_stamp, ''value_numeric'' := SNull),
        (flat_row 1700000001000000 (SJson (JInt 6)))(''value_numeric'' := SNull)]\<rparr>,
     fl_rowids = [3, 7], fl_last = [], fl_boundary = None, fl_legacy_rowid = None, fl_source_zone = None,
     fl_statistics = None,
     fl_catalogue = \<lparr>has_telegrams = True, indexes_of = (\<lambda>t. if t = ''telegrams'' then Some [''ix_telegrams_timestamp''] else None)\<rparr>\<rparr>"

definition sample_start :: start_env where
  "sample_start = \<lparr>se_legacy = sample_engine, se_sql = reference_engine,
     se_seconds = (\<lambda>t. if t = take 19 old_stamp then 1700000000 else 0), se_disk = (\<lambda>_. (db_free_space (Some ''t.db'') (\<lambda>_. 1000000),
       db_file_size (Some ''t.db'') (\<lambda>p. if p = ''t.db'' then Some 8192 else None))),
     se_now = Datetime 1700100000000000 (Some 0), se_wal_fails = None, se_unwrap_fails = (\<lambda>_. False),
     se_batch_fails = (\<lambda>_. None), se_index_fails = None, se_vacuum_fails = None, se_vacuum_rowids = (\<lambda>ids. ids),
     se_mixed = (\<lambda>f. (Inr 0, f))\<rparr>"

definition spring_options :: start_options where
  "spring_options = \<lparr>so_read_only = False, so_is_memory = False, so_zone = Some spring, so_retention_days = None\<rparr>"

lemma sample_start_ok [simp]: "start_in_order sample_start"
  by (simp add: start_in_order_def sample_start_def require_free_space_def vacuum_fits_def db_free_space_def db_file_size_def wf_reference_engine
      accepting_reference_engine)

lemma old_micros [simp]:
  "file_micros sample_start (SText old_stamp) = 1700000000250000" "file_micros sample_start (SInt n) = n"
  by (simp_all add: file_micros_def cell_of_def sample_start_def old_stamp_def text_to_micros_def fraction_text_def
      decimal_value_def is_decimal_def)

lemma text_file_rows:
  "map (\<lambda>r. r ''timestamp'') (ld_rows (fl_db text_file)) = [SText old_stamp, SInt 1700000001000000]"
  by (simp add: text_file_def flat_row_def)

lemma text_file_ok: "earlier_file sample_start (Some spring) text_file"
proof -
  have "flat_db (fl_db text_file)"
    by (simp add: text_file_def flat_db_def flat_sample_def lookup_ok_def column_names_def COLS_TO_MIGRATE_def flag_set_def
        well_typed_def flat_row_def comp_def)
  moreover have "map (\<lambda>r. file_micros sample_start (r ''timestamp'')) (ld_rows (fl_db text_file)) =
      [1700000000250000, 1700000001000000]"
    using arg_cong [OF text_file_rows, of "map (file_micros sample_start)"] by (simp add: comp_def)
  then have "convertible spring (map (\<lambda>r. file_micros sample_start (r ''timestamp'')) (ld_rows (fl_db text_file)))"
    by (simp add: convertible_def Let_def spring_regular in_range_def min_wall_def max_wall_def hour_def)
  moreover have "\<forall>r \<in> set (ld_rows (fl_db text_file)). timed r \<and>
      in_range (utc_micros (Some spring) (file_micros sample_start (r ''timestamp'')))"
    by (simp add: text_file_def flat_row_def timed_def utc_micros_def spring_def second_def in_range_def min_wall_def max_wall_def)
  ultimately show ?thesis
    by (simp add: earlier_file_def text_file_def flat_sample_def flag_set_def)
qed

theorem start_delivers_witness:
  "\<exists>f' cache. sqlite_initialize sample_start spring_options text_file lookup_cache_init = (Inr (), f', cache) \<and>
    map timestamp (contents (store_of spring_options f' cache)) =
      [Datetime (1700000000250000 - 7200000000) (Some 0), Datetime (1700000001000000 - 7200000000) (Some 0)] \<and>
    map telegram_value (contents (store_of spring_options f' cache)) = [PyInt 5, PyInt 6] \<and>
    \<not> sqlite_needs_migration (view_of sample_start spring_options f') (fl_db f')"
proof -
  have zone: "so_zone spring_options = Some spring" "\<not> so_read_only spring_options" by (simp_all add: spring_options_def)
  obtain f' cache where d: "sqlite_initialize sample_start spring_options text_file lookup_cache_init = (Inr (), f', cache)"
    "contents (store_of spring_options f' cache) =
      map (old_telegram sample_start (Some spring) (has_column (fl_db text_file))) (ld_rows (fl_db text_file))"
    "\<not> sqlite_needs_migration (view_of sample_start spring_options f') (fl_db f')"
    using start_delivers [of sample_start spring_options text_file] text_file_ok zone by auto
  have "map timestamp (contents (store_of spring_options f' cache)) =
      map (\<lambda>v. Datetime (utc_micros (Some spring) (file_micros sample_start v)) (Some 0))
        (map (\<lambda>r. r ''timestamp'') (ld_rows (fl_db text_file)))"
    by (simp add: d(2) old_telegram_def Let_def comp_def)
  then have "map timestamp (contents (store_of spring_options f' cache)) =
      [Datetime (1700000000250000 - 7200000000) (Some 0), Datetime (1700000001000000 - 7200000000) (Some 0)]"
    unfolding text_file_rows by (simp add: utc_micros_def spring_def second_def)
  moreover have "map telegram_value (contents (store_of spring_options f' cache)) = [PyInt 5, PyInt 6]"
    by (simp add: d(2) old_telegram_def Let_def text_file_def flat_sample_def flat_row_def column_names_def COLS_TO_MIGRATE_def
        column_or_null_def value_upgraded_def unwrap_or_keep_def unwrapped_cell_def null_value_def cell_json_def)
  ultimately show ?thesis
    using d(1,3) by - (rule exI [of _ f'], rule exI [of _ cache], simp)
qed


end
