(* ===== verification/SampleCheck.thy ===== *)
theory SampleCheck
  imports SqliteStart TextQuery
begin

text \<open>
  The tool src/tools/migrate_sample_db.py: it reads the telegrams of a file of an early version, starts
  a SQLite store on a copy of the file, and compares a random sample of the telegrams.
\<close>

section \<open>Reading the old file\<close>

text \<open>
  A \<open>RawRow\<close>: values as the driver returns them. The timestamp is parsed for messages only and kept
  here as it is stored.
\<close>

record raw_row =
  rw_timestamp :: sqlval
  rw_source :: sqlval
  rw_destination :: sqlval
  rw_telegramtype :: sqlval
  rw_direction :: sqlval
  rw_dpt_name :: sqlval
  rw_unit :: sqlval
  rw_source_name :: sqlval
  rw_destination_name :: sqlval
  rw_payload :: sqlval
  rw_dpt_main :: sqlval
  rw_dpt_sub :: sqlval
  rw_value :: sqlval
  rw_value_numeric :: sqlval
  rw_raw_data :: sqlval
  rw_data_secure :: sqlval

text \<open>\<open>v or ""\<close>: Python takes None, zero, False and what is empty for false.\<close>

definition falsy :: "sqlval \<Rightarrow> bool" where
  "falsy v = (case v of SNull \<Rightarrow> True | SInt n \<Rightarrow> n = 0 | SReal x \<Rightarrow> uint x mod 2 ^ 63 = 0 | SText t \<Rightarrow> t = []
     | SBool b \<Rightarrow> \<not> b | SBytes t \<Rightarrow> t = [] | SBadJson t \<Rightarrow> t = [] | SJson _ \<Rightarrow> False)"

definition or_empty :: "sqlval \<Rightarrow> sqlval" where
  "or_empty v = (if falsy v then SText [] else v)"

text \<open>The loop over the result rows, given what is selected under each name.\<close>

definition parsed_row :: "cells \<Rightarrow> raw_row" where
  "parsed_row c = \<lparr>rw_timestamp = c ''timestamp'', rw_source = or_empty (c ''source''),
     rw_destination = or_empty (c ''destination''), rw_telegramtype = or_empty (c ''telegramtype''),
     rw_direction = or_empty (c ''direction''), rw_dpt_name = c ''dpt_name'', rw_unit = c ''unit'',
     rw_source_name = or_empty (c ''source_name''), rw_destination_name = or_empty (c ''destination_name''),
     rw_payload = c ''payload'', rw_dpt_main = c ''dpt_main'', rw_dpt_sub = c ''dpt_sub'', rw_value = c ''value'',
     rw_value_numeric = c ''value_numeric'', rw_raw_data = c ''raw_data'', rw_data_secure = c ''data_secure''\<rparr>"

text \<open>\<open>_col\<close>: a column the table lacks is selected as NULL or, for the strings, as the empty text.\<close>

definition flat_select :: "(string \<Rightarrow> bool) \<Rightarrow> cells \<Rightarrow> cells" where
  "flat_select had r = (\<lambda>name. if had name then r name else if name \<in> set COLS_TO_MIGRATE then SText [] else SNull)"

text \<open>The joins of a normalised table; it must have the columns of the version that had names and units there.\<close>

definition JOINED_CATEGORIES :: "string list" where
  "JOINED_CATEGORIES = COLS_TO_MIGRATE @ [''dpt_name'', ''unit'']"

definition joined_cell :: "lookup_row list \<Rightarrow> string \<Rightarrow> sqlval \<Rightarrow> sqlval" where
  "joined_cell table cat v = (case v of
     SInt i \<Rightarrow> (case lookup_value table cat i of Some t \<Rightarrow> SText t | None \<Rightarrow> SNull)
   | _ \<Rightarrow> SNull)"

definition joined_select :: "lookup_row list \<Rightarrow> cells \<Rightarrow> cells" where
  "joined_select table r = (\<lambda>name. if name \<in> set JOINED_CATEGORIES then joined_cell table name (r (id_col name)) else r name)"

definition inner_joined_row :: "lookup_row list \<Rightarrow> cells \<Rightarrow> bool" where
  "inner_joined_row table r =
     list_all (\<lambda>cat. joined_cell table cat (r (id_col cat)) \<noteq> SNull) [''source'', ''destination'', ''telegramtype'', ''direction'']"

definition JOINED_COLUMNS :: "string list" where
  "JOINED_COLUMNS = map id_col JOINED_CATEGORIES @
     [''timestamp'', ''payload'', ''dpt_main'', ''dpt_sub'', ''value'', ''value_numeric'', ''raw_data'', ''data_secure'']"

text \<open>\<open>ORDER BY timestamp\<close>, integers before texts.\<close>

definition time_value :: "cells \<Rightarrow> column_value" where
  "time_value r = (case r ''timestamp'' of SText t \<Rightarrow> TextValue t | SInt n \<Rightarrow> IntValue n | _ \<Rightarrow> IntValue 0)"

definition by_timestamp :: "sql_engine \<Rightarrow> cells list \<Rightarrow> cells list" where
  "by_timestamp eng rows = order_by eng (\<lambda>r. value_key (map time_value rows) False (time_value r)) rows"

definition read_old_rows :: "sql_engine \<Rightarrow> bool \<Rightarrow> legacy_db \<Rightarrow> exc + raw_row list" where
  "read_old_rows eng has_lookup db =
     (if has_column db ''source_id'' \<and> has_lookup then
        if list_all (has_column db) JOINED_COLUMNS
        then Inr (map (\<lambda>r. parsed_row (joined_select (ld_lookup db) r))
               (by_timestamp eng (filter (inner_joined_row (ld_lookup db)) (ld_rows db))))
        else Inl (raise_exc OperationalError)
      else if has_column db ''timestamp''
        then Inr (map (\<lambda>r. parsed_row (flat_select (has_column db) r)) (by_timestamp eng (ld_rows db)))
        else Inl (raise_exc OperationalError))"

section \<open>The comparison\<close>

text \<open>
  \<open>ce_sample total n\<close> is \<open>random.sample(range(total), n)\<close>, \<open>ce_round\<close> is \<open>round(v, 6)\<close>, and \<open>ce_same\<close> is
  Python's comparison of two numbers one of which is a float.
\<close>

record check_env =
  ce_sample :: "nat \<Rightarrow> nat \<Rightarrow> nat list"
  ce_round :: "pyfloat \<Rightarrow> pyfloat"
  ce_same :: "sqlval \<Rightarrow> sqlval \<Rightarrow> bool"
  ce_copy_fails :: "exc option"
  ce_close_fails :: "exc option"

definition as_int :: "sqlval \<Rightarrow> int option" where
  "as_int v = (case v of SInt n \<Rightarrow> Some n | SBool b \<Rightarrow> Some (if b then 1 else 0) | _ \<Rightarrow> None)"

definition is_number :: "sqlval \<Rightarrow> bool" where
  "is_number v = (case v of SInt _ \<Rightarrow> True | SBool _ \<Rightarrow> True | SReal _ \<Rightarrow> True | _ \<Rightarrow> False)"

definition py_equal :: "check_env \<Rightarrow> sqlval \<Rightarrow> sqlval \<Rightarrow> bool" where
  "py_equal env u v = (case (as_int u, as_int v) of
     (Some a, Some b) \<Rightarrow> a = b
   | _ \<Rightarrow> if is_number u \<and> is_number v then ce_same env u v else u = v)"

text \<open>\<open>_norm\<close>\<close>

definition norm_value :: "check_env \<Rightarrow> sqlval \<Rightarrow> sqlval" where
  "norm_value env v = (case v of SText [] \<Rightarrow> SNull | SReal x \<Rightarrow> SReal (ce_round env x) | _ \<Rightarrow> v)"

text \<open>An attribute of a telegram as the Python value it is.\<close>

definition optional :: "('a \<Rightarrow> sqlval) \<Rightarrow> 'a option \<Rightarrow> sqlval" where
  "optional f v = (case v of None \<Rightarrow> SNull | Some x \<Rightarrow> f x)"

definition checks :: "check_env \<Rightarrow> raw_row \<Rightarrow> stored_telegram \<Rightarrow> (string \<times> sqlval \<times> sqlval) list" where
  "checks env old new =
     [(''source'', or_empty (rw_source old), SText (source new)),
      (''destination'', or_empty (rw_destination old), SText (destination new)),
      (''telegramtype'', or_empty (rw_telegramtype old), SText (telegramtype new)),
      (''direction'', or_empty (rw_direction old), SText (direction new)),
      (''source_name'', or_empty (rw_source_name old), SText (source_name new)),
      (''destination_name'', or_empty (rw_destination_name old), SText (destination_name new)),
      (''dpt_main'', rw_dpt_main old, optional SInt (dpt_main new)),
      (''dpt_sub'', rw_dpt_sub old, optional SInt (dpt_sub new)),
      (''value_numeric'', norm_value env (rw_value_numeric old), norm_value env (optional SReal (value_numeric new))),
      (''raw_data'', norm_value env (rw_raw_data old), norm_value env (optional SText (raw_data new))),
      (''data_secure'', rw_data_secure old, optional SBool (data_secure new))]"

definition mismatches :: "check_env \<Rightarrow> raw_row \<Rightarrow> stored_telegram \<Rightarrow> string list" where
  "mismatches env old new = map fst (filter (\<lambda>(_, o_val, n_val). \<not> py_equal env o_val n_val) (checks env old new))"

text \<open>The loop: \<open>query\<close> is the query of the store, the result the number of failures.\<close>

fun sample_loop ::
  "check_env \<Rightarrow> (telegram_query \<Rightarrow> exc + telegram_query_result) \<Rightarrow> raw_row list \<Rightarrow> nat list \<Rightarrow> exc + nat"
where
  "sample_loop env query old [] = Inr 0"
| "sample_loop env query old (idx # idxs) =
     bind_res (query (telegram_query\<lparr>offset := int idx, limit := 1, order_descending := False\<rparr>)) (\<lambda>result.
       let failed = (case res_telegrams result of [] \<Rightarrow> True | new # _ \<Rightarrow> mismatches env (old ! idx) new \<noteq> [])
       in bind_res (sample_loop env query old idxs) (\<lambda>n. Inr (if failed then Suc n else n)))"

text \<open>A count that differs is only warned of.\<close>

definition verify ::
  "check_env \<Rightarrow> exc + int \<Rightarrow> (telegram_query \<Rightarrow> exc + telegram_query_result) \<Rightarrow> raw_row list \<Rightarrow> int \<Rightarrow> exc + bool"
where
  "verify env counted query old sample_size =
     (let n = min sample_size (int (length old)) in
      if old = [] then Inr True
      else bind_res counted (\<lambda>new_count.
        if n < 0 then Inl (raise_exc ValueError)
        else bind_res (sample_loop env query old (sort (ce_sample env (length old) (nat n)))) (\<lambda>failures.
          Inr (failures = 0))))"

section \<open>The tool\<close>

definition sample_options :: start_options where
  "sample_options = \<lparr>so_read_only = False, so_is_memory = False, so_zone = None, so_retention_days = None\<rparr>"

text \<open>
  \<open>main\<close>: the two files, None when there is none; the result is the exit code or the exception, and
  the file at the destination. The source is copied, never written to.
\<close>

definition sample_main ::
  "check_env \<Rightarrow> start_env \<Rightarrow> bool \<Rightarrow> sqlite_file option \<Rightarrow> sqlite_file option \<Rightarrow> bool \<Rightarrow> int \<Rightarrow>
   (exc + int) \<times> sqlite_file option"
where
  "sample_main env senv has_lookup src dst force sample_size =
     (case src of None \<Rightarrow> (Inr 1, dst) | Some f \<Rightarrow>
      if dst \<noteq> None \<and> \<not> force then (Inr 1, dst)
      else case read_old_rows (se_sql senv) has_lookup (fl_db f) of Inl e \<Rightarrow> (Inl e, None) | Inr old \<Rightarrow>
      case ce_copy_fails env of Some e \<Rightarrow> (Inl e, None) | None \<Rightarrow>
      case sqlite_initialize senv sample_options f lookup_cache_init of (Inl e, f', cache) \<Rightarrow> (Inl e, Some f') | (Inr _, f', cache) \<Rightarrow>
        let s = store_of sample_options f' cache; counted = sql_count (se_sql senv) s
        in (bind_res counted (\<lambda>new_count.
            bind_res (verify env counted (sql_query (se_sql senv) s) old sample_size) (\<lambda>ok.
              case ce_close_fails env of Some e \<Rightarrow> Inl e | None \<Rightarrow> Inr (if ok then 0 else 1))), Some f'))"

end
