(* ===== verification/SampleProperties.thy ===== *)
theory SampleProperties
  imports SampleCheck StartProperties
begin

text \<open>
  The check of a migrated sample: it passes on a file whose telegrams have distinct times, whichever of
  them are drawn, and what it says when it passes.
\<close>

section \<open>One row\<close>

definition wf_check :: "check_env \<Rightarrow> bool" where
  "wf_check env \<longleftrightarrow> (\<forall>total n. n \<le> total \<longrightarrow> set (ce_sample env total n) \<subseteq> {0..<total} \<and> length (ce_sample env total n) = n) \<and>
     (\<forall>x. \<not> is_nan x \<longrightarrow> ce_same env (SReal (ce_round env x)) (SReal (ce_round env x)))"

text \<open>Cells of the types their columns declare.\<close>

definition plain_row :: "legacy_engine \<Rightarrow> (string \<Rightarrow> bool) \<Rightarrow> cells \<Rightarrow> bool" where
  "plain_row eng had r \<longleftrightarrow>
     (\<forall>c \<in> set COLS_TO_MIGRATE. r c = SNull \<or> (\<exists>t. r c = SText t \<and> le_cast_text eng (SText t) = t)) \<and>
     (\<forall>c \<in> {''dpt_main'', ''dpt_sub''}. column_or_null had r c = SNull \<or> (\<exists>n. column_or_null had r c = SInt n)) \<and>
     (column_or_null had r ''value_numeric'' = SNull \<or> (\<exists>x. column_or_null had r ''value_numeric'' = SReal x \<and> \<not> is_nan x)) \<and>
     (column_or_null had r ''raw_data'' = SNull \<or> (\<exists>t. column_or_null had r ''raw_data'' = SText t)) \<and>
     column_or_null had r ''data_secure'' \<in> {SNull, SInt 0, SInt 1}"

lemma or_empty_text [simp]: "or_empty (SText t) = SText t" "or_empty SNull = SText []" "or_empty (or_empty v) = or_empty v"
  by (simp_all add: or_empty_def falsy_def)

lemma py_equal_simps [simp]:
  "py_equal env (SText t) (SText t')  \<longleftrightarrow> t = t'" "py_equal env SNull SNull" "py_equal env (SInt n) (SInt m) \<longleftrightarrow> n = m"
  "py_equal env (SInt n) (SBool b) \<longleftrightarrow> n = (if b then 1 else 0)"
  "py_equal env (SReal x) (SReal y) \<longleftrightarrow> ce_same env (SReal x) (SReal y)"
  by (simp_all add: py_equal_def as_int_def is_number_def)

lemma plain_row_matches:
  assumes env: "wf_check env" and plain: "plain_row (se_legacy senv) had r" and had: "\<forall>c \<in> set COLS_TO_MIGRATE. had c"
  shows "mismatches env (parsed_row (flat_select had r)) (old_telegram senv zone had r) = []"
proof -
  have strings: "or_empty (flat_select had r c) = SText (if r c = SNull then [] else le_cast_text (se_legacy senv) (r c))"
    if "c \<in> set COLS_TO_MIGRATE" for c
    using that plain had by (fastforce simp: plain_row_def flat_select_def)
  have others: "flat_select had r c = column_or_null had r c" if "c \<notin> set COLS_TO_MIGRATE" for c
    using that by (simp add: flat_select_def column_or_null_def)
  have cols: "''source'' \<in> set COLS_TO_MIGRATE" "''destination'' \<in> set COLS_TO_MIGRATE" "''telegramtype'' \<in> set COLS_TO_MIGRATE"
    "''direction'' \<in> set COLS_TO_MIGRATE" "''source_name'' \<in> set COLS_TO_MIGRATE" "''destination_name'' \<in> set COLS_TO_MIGRATE"
    "''dpt_main'' \<notin> set COLS_TO_MIGRATE" "''dpt_sub'' \<notin> set COLS_TO_MIGRATE" "''value_numeric'' \<notin> set COLS_TO_MIGRATE"
    "''raw_data'' \<notin> set COLS_TO_MIGRATE" "''data_secure'' \<notin> set COLS_TO_MIGRATE"
    by (simp_all add: COLS_TO_MIGRATE_def)
  note cells = strings [OF cols(1)] strings [OF cols(2)] strings [OF cols(3)] strings [OF cols(4)] strings [OF cols(5)]
    strings [OF cols(6)] others [OF cols(7)] others [OF cols(8)] others [OF cols(9)] others [OF cols(10)] others [OF cols(11)]
  let ?cell = "column_or_null had r"
  have "py_equal env (?cell c) (optional SInt (cell_int_option (?cell c)))" if "c \<in> {''dpt_main'', ''dpt_sub''}" for c
    using plain that by (auto simp: plain_row_def cell_int_option_def optional_def)
  moreover have "py_equal env (norm_value env (?cell ''value_numeric'')) (norm_value env (optional SReal (cell_float (?cell ''value_numeric''))))"
    using plain env by (auto simp: plain_row_def cell_float_def optional_def norm_value_def wf_check_def)
  moreover have "norm_value env (?cell ''raw_data'') = norm_value env (optional SText (cell_text (?cell ''raw_data'')))"
    "norm_value env (?cell ''raw_data'') = SNull \<or> (\<exists>t. norm_value env (?cell ''raw_data'') = SText t)"
    using plain by (auto simp: plain_row_def cell_text_def optional_def norm_value_def split: list.split)
  then have "py_equal env (norm_value env (?cell ''raw_data'')) (norm_value env (optional SText (cell_text (?cell ''raw_data''))))"
    by auto
  moreover have "py_equal env (?cell ''data_secure'') (optional SBool (cell_bool (?cell ''data_secure'')))"
    using plain by (auto simp: plain_row_def cell_bool_def optional_def)
  ultimately show ?thesis
    by (simp add: mismatches_def checks_def parsed_row_def old_telegram_def Let_def cells)
qed

section \<open>The sample\<close>

lemma sample_loop_clean:
  assumes "\<forall>idx \<in> set idxs. \<exists>res new. query (telegram_query\<lparr>offset := int idx, limit := 1, order_descending := False\<rparr>) = Inr res \<and>
    res_telegrams res = [new] \<and> mismatches env (old ! idx) new = []"
  shows "sample_loop env query old idxs = Inr 0"
  using assms by (induction idxs) (auto simp: Let_def)

text \<open>The order of the old table is the order of the times.\<close>

lemma by_timestamp_ok:
  assumes wf: "wf_engine eng"
    and agree: "\<And>r u. r \<in> set rows \<Longrightarrow> u \<in> set rows \<Longrightarrow> value_le (time_value r) (time_value u) \<longleftrightarrow> time r \<le> (time u :: int)"
  shows "mset (by_timestamp eng rows) = mset rows" and "sorted (map time (by_timestamp eng rows))"
proof -
  let ?key = "\<lambda>r. value_key (map time_value rows) False (time_value r)"
  note ord = order_by_ok [OF wf, of ?key rows]
  show "mset (by_timestamp eng rows) = mset rows" unfolding by_timestamp_def by (rule ord(1))
  then have "set (by_timestamp eng rows) \<subseteq> set rows" by (metis mset_eq_setD order_refl)
  from value_key_sorted [where time = time, OF agree this, of False] ord(2)
  show "sorted (map time (by_timestamp eng rows))" by (simp add: by_timestamp_def)
qed

lemma page_query [simp]:
  fixes i :: nat
  defines "q \<equiv> telegram_query\<lparr>offset := int i, limit := 1, order_descending := False\<rparr>"
  shows "sql_queryable q" and "selection q ts = ts" and "page q xs = take 1 (drop i xs)" and "time_key (order_descending q) = time_of"
  by (simp_all add: q_def sql_queryable_def wf_query_def bounds_ok_def telegram_query_def in_range_def min_wall_def max_wall_def
      selection_def selects_def window_on_def matches_def passes_def in_time_range_def page_def time_key_def fun_eq_iff)

lemma time_key_False: "time_key False = time_of"
  by (simp add: time_key_def fun_eq_iff)

text \<open>A page of one telegram, from telegrams with distinct times.\<close>

lemma answers_at:
  assumes "answers (telegram_query\<lparr>offset := int i, limit := 1, order_descending := False\<rparr>) ts res"
    and "mset os = mset ts" and "sorted (map time_of os)" and "distinct (map time_of ts)" and "i < length os"
  shows "res_telegrams res = [os ! i]"
proof -
  obtain os' where os': "mset os' = mset ts" "sorted (map time_of os')" "res_telegrams res = take 1 (drop i os')"
    using assms(1) by (auto simp: answers_def time_key_False)
  have "inj_on time_of (set os')"
    using assms(4) mset_eq_setD [OF os'(1)] by (simp add: distinct_map)
  then have "os' = os" using os'(1,2) assms(2,3) by (intro sorted_key_unique) simp_all
  with os'(3) assms(5) show ?thesis by (simp add: take_Suc hd_drop_conv_nth)
qed

text \<open>
  C40: The check of a migrated file passes on a good migration: for every file of an early version whose
  telegrams have distinct times and cells of their columns' types, whichever telegrams are drawn and
  however many, the tool upgrades the copy, finds each drawn telegram at its place with the fields it
  had, and exits with 0.
\<close>

theorem sample_check_passes:
  assumes env: "wf_check env" "ce_copy_fails env = None" "ce_close_fails env = None"
    and ord: "start_in_order senv" and old: "earlier_file senv None f" and flat: "\<not> has_column (fl_db f) ''source_id''"
    and plain: "\<forall>r \<in> set (ld_rows (fl_db f)). plain_row (se_legacy senv) (has_column (fl_db f)) r"
    and agree: "\<forall>r \<in> set (ld_rows (fl_db f)). \<forall>u \<in> set (ld_rows (fl_db f)). value_le (time_value r) (time_value u) \<longleftrightarrow>
      file_micros senv (r ''timestamp'') \<le> file_micros senv (u ''timestamp'')"
    and times: "distinct (map (\<lambda>r. file_micros senv (r ''timestamp'')) (ld_rows (fl_db f)))"
    and call: "0 \<le> sample_size" "dst = None \<or> force"
  shows "\<exists>f'. sample_main env senv has_lookup (Some f) dst force sample_size = (Inr 0, Some f')"
proof -
  let ?eng = "se_sql senv" and ?rows = "ld_rows (fl_db f)" and ?had = "has_column (fl_db f)"
  let ?new = "old_telegram senv None ?had" and ?raw = "\<lambda>r. parsed_row (flat_select ?had r)"
  let ?time = "\<lambda>r. file_micros senv (r ''timestamp'')" and ?S = "by_timestamp ?eng ?rows"
  have eng: "wf_engine ?eng" "accepting ?eng" using ord by (simp_all add: start_in_order_def)
  obtain f' cache where run: "sqlite_initialize senv sample_options f lookup_cache_init = (Inr (), f', cache)"
    and s: "sql_inv (store_of sample_options f' cache)" "contents (store_of sample_options f' cache) = map ?new ?rows"
    using start_ok [OF ord, of sample_options f] old by (auto simp: sample_options_def)
  let ?s = "store_of sample_options f' cache"
  have S: "mset ?S = mset ?rows" "sorted (map ?time ?S)"
    using by_timestamp_ok [OF eng(1), of ?rows ?time] agree by blast+
  have time: "time_of (?new r) = ?time r" for r by (simp add: old_telegram_def Let_def utc_micros_def)
  have had: "\<forall>c \<in> set COLS_TO_MIGRATE. ?had c" "?had ''timestamp''"
    using old by (simp_all add: earlier_file_def flat_db_def list_all_iff)
  have rd: "read_old_rows ?eng has_lookup (fl_db f) = Inr (map ?raw ?S)" using flat had(2) by (simp add: read_old_rows_def)
  have at: "\<exists>res new. sql_query ?eng ?s (telegram_query\<lparr>offset := int i, limit := 1, order_descending := False\<rparr>) = Inr res \<and>
      res_telegrams res = [new] \<and> mismatches env (map ?raw ?S ! i) new = []" if i: "i < length ?S" for i
  proof -
    obtain res where res: "sql_query ?eng ?s (telegram_query\<lparr>offset := int i, limit := 1, order_descending := False\<rparr>) = Inr res"
      "answers (telegram_query\<lparr>offset := int i, limit := 1, order_descending := False\<rparr>) (map ?new ?rows) res"
      using sql_query_answers [OF eng s(1) page_query(1)] s(2) by metis
    have "res_telegrams res = [map ?new ?S ! i]"
      using answers_at [OF res(2), of "map ?new ?S"] S times i by (simp add: comp_def time)
    moreover have "?S ! i \<in> set ?rows" using i mset_eq_setD [OF S(1)] nth_mem by blast
    then have "mismatches env (?raw (?S ! i)) (?new (?S ! i)) = []"
      using plain_row_matches [OF env(1) _ had(1)] plain by blast
    ultimately show ?thesis using res(1) i by simp
  qed
  let ?n = "nat (min sample_size (int (length ?S)))"
  have "set (sort (ce_sample env (length ?S) ?n)) \<subseteq> {0..<length ?S}"
    using env(1) by (simp add: wf_check_def)
  then have "sample_loop env (sql_query ?eng ?s) (map ?raw ?S) (sort (ce_sample env (length ?S) ?n)) = Inr 0"
    by (intro sample_loop_clean) (use at in force)
  then have "verify env (sql_count ?eng ?s) (sql_query ?eng ?s) (map ?raw ?S) sample_size = Inr True"
    using call(1) sql_count_ok [OF eng(2), of ?s] by (simp add: verify_def Let_def min_less_iff_disj)
  then have "sample_main env senv has_lookup (Some f) dst force sample_size = (Inr 0, Some f')"
    using call(2) env(2,3) rd run sql_count_ok [OF eng(2), of ?s] by (auto simp: sample_main_def)
  then show ?thesis by blast
qed

text \<open>A check that draws the first rows, on the file of the start.\<close>

definition first_rows :: check_env where
  "first_rows = \<lparr>ce_sample = (\<lambda>total n. [0..<n]), ce_round = (\<lambda>x. x), ce_same = (=), ce_copy_fails = None, ce_close_fails = None\<rparr>"

definition integer_file :: sqlite_file where
  "integer_file = text_file\<lparr>fl_db := (fl_db text_file)\<lparr>ld_rows :=
     map (\<lambda>n. (flat_row n (SJson (JInt 6)))(''value_numeric'' := SNull)) [1700000003000000, 1700000001000000]\<rparr>\<rparr>"

lemma integer_file_rows:
  "r \<in> set (ld_rows (fl_db integer_file)) \<Longrightarrow>
    r = (flat_row 1700000003000000 (SJson (JInt 6)))(''value_numeric'' := SNull) \<or>
    r = (flat_row 1700000001000000 (SJson (JInt 6)))(''value_numeric'' := SNull)"
  by (auto simp: integer_file_def)

lemma integer_file_ok: "earlier_file sample_start None integer_file"
  by (simp add: earlier_file_def integer_file_def text_file_def flat_db_def flat_sample_def lookup_ok_def column_names_def
      COLS_TO_MIGRATE_def flag_set_def well_typed_def flat_row_def comp_def timed_def utc_micros_def in_range_def min_wall_def
      max_wall_def)

theorem sample_check_passes_witness:
  "\<exists>f'. sample_main first_rows sample_start True (Some integer_file) (Some text_file) True 50 = (Inr 0, Some f')"
proof (rule sample_check_passes)
  show "wf_check first_rows" by (simp add: wf_check_def first_rows_def)
  show "\<forall>r \<in> set (ld_rows (fl_db integer_file)). plain_row (se_legacy sample_start) (has_column (fl_db integer_file)) r"
    by (auto dest!: integer_file_rows simp: plain_row_def flat_row_def COLS_TO_MIGRATE_def column_or_null_def integer_file_def
        text_file_def flat_sample_def column_names_def sample_start_def sample_engine_def sample_text_def)
  show "\<forall>r \<in> set (ld_rows (fl_db integer_file)). \<forall>u \<in> set (ld_rows (fl_db integer_file)).
      value_le (time_value r) (time_value u) \<longleftrightarrow>
      file_micros sample_start (r ''timestamp'') \<le> file_micros sample_start (u ''timestamp'')"
    by (auto dest!: integer_file_rows simp: flat_row_def time_value_def)
  show "\<not> has_column (fl_db integer_file) ''source_id''"
    by (simp add: integer_file_def text_file_def flat_sample_def column_names_def COLS_TO_MIGRATE_def)
qed (simp_all add: integer_file_ok first_rows_def, simp add: integer_file_def flat_row_def)

section \<open>A file of the present version\<close>

text \<open>
  The tool means to read normalised files too, but asks for the columns \<open>dpt_name_id\<close> and \<open>unit_id\<close>
  that the present schema no longer has: such a file is refused.
\<close>

lemma current_schema_refused:
  assumes "column_names db = KEEP_COLUMNS"
  shows "read_old_rows eng True db = Inl (raise_exc OperationalError)"
  using assms by (simp add: read_old_rows_def JOINED_COLUMNS_def JOINED_CATEGORIES_def KEEP_COLUMNS_def id_col_def COLS_TO_MIGRATE_def)

end
